(* ===== verification/Prelude.thy ===== *)
theory Prelude
  imports Complex_Main "HOL-Library.Multiset" "HOL-Library.List_Lexorder" "HOL-Library.Char_ord"
begin

text \<open>
  Shared vocabulary of the development: the Go types the components use, results
  with an error side, maps built by a loop over a slice, and \<open>sort.SliceStable\<close>.

  \<^item> Go strings are byte strings: \<open>string\<close>, ordered bytewise
    (\<open>HOL-Library.List_Lexorder\<close> over \<open>HOL-Library.Char_ord\<close>).
  \<^item> Go \<open>int\<close> values are \<open>int\<close>: they count seconds, minutes, indices and
    dwell times, far from the 64-bit bounds. Bytes are 8-bit words where they are computed on.
  \<^item> Finite \<open>float64\<close> values are \<open>real\<close>: arithmetic is exact here, rounding
    is not modelled. Where the source tests for NaN or infinities those values are
    constructors of their own (theory \<open>Speed_Limit\<close>).
  \<^item> \<open>time.Time\<close> is \<open>int\<close> (an instant), a nil-able pointer is an \<open>option\<close>.
  \<^item> A pair of a value and an \<open>error\<close> is a sum: \<open>Inl\<close> the error, \<open>Inr\<close>
    the value.
\<close>

type_synonym float64 = real
type_synonym gotime = int

named_theorems go_simps "rewrite rules of the shared Go vocabulary"

subsection \<open>Results\<close>

definition bind_res :: "'e + 'a \<Rightarrow> ('a \<Rightarrow> 'e + 'b) \<Rightarrow> 'e + 'b" where
  "bind_res r f = (case r of Inl e \<Rightarrow> Inl e | Inr x \<Rightarrow> f x)"

lemma bind_res_simps [simp, go_simps]:
  "bind_res (Inl e) f = Inl e"
  "bind_res (Inr x) f = f x"
  by (simp_all add: bind_res_def)

lemma bind_res_cong [fundef_cong]:
  "r = r' \<Longrightarrow> (\<And>x. r' = Inr x \<Longrightarrow> f x = g x) \<Longrightarrow> bind_res r f = bind_res r' g"
  by (auto simp: bind_res_def split: sum.splits)

lemma bind_res_eq_Inr [simp]:
  "bind_res r f = Inr y \<longleftrightarrow> (\<exists>x. r = Inr x \<and> f x = Inr y)"
  by (cases r) auto

lemma bind_res_eq_Inl:
  "bind_res r f = Inl e \<longleftrightarrow> r = Inl e \<or> (\<exists>x. r = Inr x \<and> f x = Inl e)"
  by (cases r) auto

text \<open>\<open>fmt.Errorf\<close> with a \<open>%w\<close> verb: the error is wrapped, the value passes through.\<close>

definition wrap_err :: "('e \<Rightarrow> 'f) \<Rightarrow> 'e + 'a \<Rightarrow> 'f + 'a" where
  "wrap_err w r = (case r of Inl e \<Rightarrow> Inl (w e) | Inr x \<Rightarrow> Inr x)"

lemma wrap_err_simps [simp, go_simps]:
  "wrap_err w (Inl e) = Inl (w e)"
  "wrap_err w (Inr x) = Inr x"
  by (simp_all add: wrap_err_def)

lemma wrap_err_eq_Inr [simp]: "wrap_err w r = Inr x \<longleftrightarrow> r = Inr x"
  by (cases r) auto

lemma wrap_err_eq_Inl: "wrap_err w r = Inl f \<longleftrightarrow> (\<exists>e. r = Inl e \<and> f = w e)"
  by (cases r) auto

text \<open>A loop that maps a fallible step over a slice and stops at the first error.\<close>

fun map_res :: "('a \<Rightarrow> 'e + 'b) \<Rightarrow> 'a list \<Rightarrow> 'e + 'b list" where
  "map_res f [] = Inr []"
| "map_res f (x # xs) = bind_res (f x) (\<lambda>y. bind_res (map_res f xs) (\<lambda>ys. Inr (y # ys)))"

lemma map_res_Inr_iff:
  "map_res f xs = Inr ys \<longleftrightarrow> list_all2 (\<lambda>x y. f x = Inr y) xs ys"
  by (induction xs arbitrary: ys) (auto simp: list_all2_Cons1)

lemma map_res_length: "map_res f xs = Inr ys \<Longrightarrow> length ys = length xs"
  by (auto simp: map_res_Inr_iff dest: list_all2_lengthD)

lemma map_res_nth: "map_res f xs = Inr ys \<Longrightarrow> i < length xs \<Longrightarrow> f (xs ! i) = Inr (ys ! i)"
  by (auto simp: map_res_Inr_iff dest: list_all2_nthD)

lemma map_res_setD: "map_res f xs = Inr ys \<Longrightarrow> y \<in> set ys \<Longrightarrow> \<exists>x \<in> set xs. f x = Inr y"
  by (fastforce simp: map_res_Inr_iff list_all2_conv_all_nth in_set_conv_nth)

lemma map_res_total: "(\<And>x. x \<in> set xs \<Longrightarrow> \<exists>y. f x = Inr y) \<Longrightarrow> \<exists>ys. map_res f xs = Inr ys"
  by (induction xs) (fastforce+)

lemma list_all2_setD2: "list_all2 P xs ys \<Longrightarrow> y \<in> set ys \<Longrightarrow> \<exists>x \<in> set xs. P x y"
  by (induction rule: list_all2_induct) auto

lemma map_enumerate_snd: "map (\<lambda>p. h (snd p)) (enumerate n xs) = map h xs"
  by (induction xs arbitrary: n) simp_all

lemma set_enumerate0: "set (enumerate 0 xs) = (\<lambda>i. (i, xs ! i)) ` {..<length xs}"
  by (auto simp: in_set_enumerate_eq image_iff)

lemma find_SomeD: "List.find p xs = Some x \<Longrightarrow> x \<in> set xs \<and> p x"
  by (induction xs) (auto split: if_splits)

lemma find_distinct:
  "distinct (map key xs) \<Longrightarrow> x \<in> set xs \<Longrightarrow> List.find (\<lambda>y. key y = key x) xs = Some x"
  by (induction xs) (auto simp: rev_image_eqI)

lemma find_map_same: "(\<And>x. p (f x) = p x) \<Longrightarrow> List.find p (map f xs) = map_option f (List.find p xs)"
  by (induction xs) auto

lemma find_append_None: "List.find p xs = None \<Longrightarrow> List.find p (xs @ ys) = List.find p ys"
  by (induction xs) (auto split: if_splits)

text \<open>A map filled by a loop over a slice: the last element with a key wins.\<close>

definition index_by :: "('a \<Rightarrow> 'k) \<Rightarrow> 'a list \<Rightarrow> 'k \<rightharpoonup> 'a" where
  "index_by key xs = foldl (\<lambda>m x. m(key x \<mapsto> x)) Map.empty xs"

lemma index_by_Nil [simp, go_simps]: "index_by key [] = Map.empty"
  by (simp add: index_by_def)

lemma index_by_snoc [simp]: "index_by key (xs @ [x]) = (index_by key xs)(key x \<mapsto> x)"
  by (simp add: index_by_def)

lemma index_by_Some: "index_by key xs k = Some x \<Longrightarrow> x \<in> set xs \<and> key x = k"
  by (induction xs rule: rev_induct) (auto split: if_splits)

lemma index_by_None_iff: "index_by key xs k = None \<longleftrightarrow> k \<notin> key ` set xs"
  by (induction xs rule: rev_induct) auto

lemma dom_index_by: "dom (index_by key xs) = key ` set xs"
  by (rule set_eqI) (simp add: domIff index_by_None_iff)

lemma index_by_distinct:
  "distinct (map key xs) \<Longrightarrow> x \<in> set xs \<Longrightarrow> index_by key xs (key x) = Some x"
  by (induction xs rule: rev_induct) (auto simp: rev_image_eqI)

subsection \<open>sort.SliceStable\<close>

text \<open>
  \<open>SliceStable lt xs\<close> is the stable sort by the given \<open>lt\<close>. The locale states
  what \<open>lt\<close> must be for the result to be sorted (a strict weak order); each
  comparison function of the program interprets it.
\<close>

fun slice_insert :: "('a \<Rightarrow> 'a \<Rightarrow> bool) \<Rightarrow> 'a \<Rightarrow> 'a list \<Rightarrow> 'a list" where
  "slice_insert lt x [] = [x]"
| "slice_insert lt x (y # ys) =
     (if lt y x then y # slice_insert lt x ys else x # y # ys)"

fun SliceStable :: "('a \<Rightarrow> 'a \<Rightarrow> bool) \<Rightarrow> 'a list \<Rightarrow> 'a list" where
  "SliceStable lt [] = []"
| "SliceStable lt (x # xs) = slice_insert lt x (SliceStable lt xs)"

lemma mset_slice_insert [simp]: "mset (slice_insert lt x xs) = add_mset x (mset xs)"
  by (induction xs) auto

lemma mset_SliceStable [simp]: "mset (SliceStable lt xs) = mset xs"
  by (induction xs) auto

lemma set_SliceStable [simp]: "set (SliceStable lt xs) = set xs"
  by (metis mset_SliceStable set_mset_mset)

lemma length_SliceStable [simp]: "length (SliceStable lt xs) = length xs"
  by (metis mset_SliceStable size_mset)

lemma distinct_SliceStable [simp]: "distinct (SliceStable lt xs) = distinct xs"
  by (metis mset_SliceStable mset_eq_imp_distinct_iff)

locale slice_order =
  fixes lt :: "'a \<Rightarrow> 'a \<Rightarrow> bool"
  assumes less_irrefl: "\<not> lt x x"
    and less_trans: "lt x y \<Longrightarrow> lt y z \<Longrightarrow> lt x z"
    and incomp_trans: "\<not> lt x y \<Longrightarrow> \<not> lt y z \<Longrightarrow> \<not> lt x z"
begin

lemma less_asym: "lt x y \<Longrightarrow> \<not> lt y x"
  using less_irrefl less_trans by blast

lemma set_insert: "set (slice_insert lt x xs) = insert x (set xs)"
  by (induction xs) auto

lemma sorted_insert:
  "sorted_wrt (\<lambda>x y. \<not> lt y x) xs \<Longrightarrow>
     sorted_wrt (\<lambda>x y. \<not> lt y x) (slice_insert lt x xs)"
proof (induction xs)
  case Nil
  then show ?case by simp
next
  case (Cons y ys)
  show ?case
  proof (cases "lt y x")
    case True
    with Cons show ?thesis by (auto simp: set_insert dest: less_asym)
  next
    case False
    with Cons.prems show ?thesis by (auto dest: incomp_trans)
  qed
qed

lemma sorted_SliceStable: "sorted_wrt (\<lambda>x y. \<not> lt y x) (SliceStable lt xs)"
  by (induction xs) (auto intro: sorted_insert)

lemma insert_head: "(\<And>y. y \<in> set ys \<Longrightarrow> \<not> lt y x) \<Longrightarrow> slice_insert lt x ys = x # ys"
  by (cases ys) auto

lemma SliceStable_idem: "sorted_wrt (\<lambda>x y. \<not> lt y x) xs \<Longrightarrow> SliceStable lt xs = xs"
  by (induction xs) (auto simp: insert_head)

text \<open>Stability: elements that \<open>lt\<close> does not separate keep their order.\<close>

lemma filter_insert_tied:
  "filter (\<lambda>y. \<not> lt y a \<and> \<not> lt a y) (slice_insert lt x xs) =
     (if \<not> lt x a \<and> \<not> lt a x then [x] else []) @
       filter (\<lambda>y. \<not> lt y a \<and> \<not> lt a y) xs"
  by (induction xs) (auto dest: less_asym incomp_trans)

lemma SliceStable_stable:
  "filter (\<lambda>y. \<not> lt y a \<and> \<not> lt a y) (SliceStable lt xs) =
     filter (\<lambda>y. \<not> lt y a \<and> \<not> lt a y) xs"
  by (induction xs) (auto simp: filter_insert_tied)

end

text \<open>The orders the program sorts by: a key into a linear order, and two string keys.\<close>

definition less_by :: "('a \<Rightarrow> 'k::linorder) \<Rightarrow> 'a \<Rightarrow> 'a \<Rightarrow> bool" where
  "less_by key a b \<longleftrightarrow> key a < key b"

interpretation by_key: slice_order "less_by key"
  by unfold_locales (auto simp: less_by_def)

lemma sorted_SliceStable_by: "sorted (map key (SliceStable (less_by key) xs))"
  using by_key.sorted_SliceStable [of key xs]
  by (simp add: less_by_def sorted_wrt_map not_less)

end
