(* ===== verification/Transit_Types.thy ===== *)
theory Transit_Types
  imports Prelude
begin

text \<open>
  The domain records of \<open>internal/transit/types.go\<close>, \<open>internal/transit/userservice.go\<close>,
  \<open>internal/transit/userscenario.go\<close> and the wire records of \<open>contract/transit\<close>.
  Field names carry a prefix for the struct they belong to, since record selectors are
  global. Pointers that may be nil are options; enumerations that the source keeps as
  strings stay strings, so that an unknown value is representable as it is in the code.
\<close>

subsection \<open>Boarding wait settings\<close>

abbreviation BoardingWaitNone :: string where "BoardingWaitNone \<equiv> ''none''"
abbreviation BoardingWaitHalfHeadway :: string where "BoardingWaitHalfHeadway \<equiv> ''half_headway''"
abbreviation BoardingWaitFullHeadway :: string where "BoardingWaitFullHeadway \<equiv> ''full_headway''"
abbreviation BoardingWaitFixed :: string where "BoardingWaitFixed \<equiv> ''fixed''"

record BoardingWaitPolicy =
  bw_Kind :: string
  bw_FixedSecs :: int

record BoardingWaitOverride =
  bo_Policy :: string
  bo_Secs :: "int option"

record FrequencyWindow =
  fw_StartTime :: string
  fw_EndTime :: string
  fw_HeadwayS :: int

subsection \<open>Geometry, routes and stations\<close>

record GeoPoint =
  gp_Type :: string
  gp_Coordinates :: "float64 list"

record GeoLineString =
  gl_Type :: string
  gl_Coordinates :: "float64 list list"

record Scenario =
  sc_ID :: string
  sc_Slug :: string
  sc_Name :: string
  sc_Subtext :: string
  sc_Description :: string
  sc_OwnerID :: "string option"

record RouteSegment =
  rs_CantMM :: float64
  rs_CurveRadiusM :: float64
  rs_GradePct :: float64

record Route =
  rt_ID :: string
  rt_ScenarioID :: "string option"
  rt_OwnerID :: "string option"
  rt_Slug :: string
  rt_Name :: string
  rt_Description :: string
  rt_Mode :: string
  rt_Geometry :: GeoLineString
  rt_Bidirectional :: bool
  rt_Segments :: "RouteSegment list"

record RouteDependents =
  rd_Services :: int
  rd_UserServices :: int
  rd_Segments :: int

definition RouteDependents_Any :: "RouteDependents \<Rightarrow> bool" where
  "RouteDependents_Any d \<longleftrightarrow> rd_Services d > 0 \<or> rd_UserServices d > 0 \<or> rd_Segments d > 0"

record Station =
  st_ID :: string
  st_ScenarioID :: string
  st_OwnerID :: "string option"
  st_Slug :: string
  st_Name :: string
  st_Location :: GeoPoint
  st_RoutingLocation :: "GeoPoint option"
  st_PlatformHeight :: string

record VehicleType =
  vt_ID :: string
  vt_Name :: string
  vt_Propulsion :: string
  vt_MaxSpeedKMH :: float64
  vt_AccelerationMS2 :: float64
  vt_DecelerationMS2 :: float64
  vt_FloorHeight :: string
  vt_DwellLevelS :: int
  vt_DwellStepS :: int

subsection \<open>Services\<close>

record ServiceStop =
  ss_StationID :: string
  ss_Sequence :: int
  ss_DwellS :: "int option"

record Service =
  svc_ID :: string
  svc_ScenarioID :: string
  svc_RouteID :: string
  svc_VehicleTypeID :: string
  svc_Name :: string
  svc_Direction :: string
  svc_Active :: bool
  svc_Provenance :: string
  svc_OwnerID :: "string option"
  svc_Stops :: "ServiceStop list"
  svc_FrequencyWindows :: "FrequencyWindow list"
  svc_BoardingWait :: "BoardingWaitOverride option"
  svc_BoardingWaitPolicy :: string
  svc_BoardingWaitSecs :: int
  svc_BoardingWaitSource :: string

record SegmentTime =
  seg_FromSlug :: string
  seg_ToSlug :: string
  seg_RunSeconds :: int
  seg_ReverseRunSeconds :: "int option"
  seg_RouteID :: string

record TravelTimes =
  tt_ScenarioSlug :: string
  tt_Provenance :: string
  tt_Source :: string
  tt_Segments :: "SegmentTime list"

record VehicleParams =
  vp_MaxSpeedKMH :: float64
  vp_AccelerationMS2 :: float64
  vp_DecelerationMS2 :: float64
  vp_DwellS :: int

record ServiceStopPoint =
  sp_Name :: string
  sp_Slug :: string
  sp_Lat :: float64
  sp_Lng :: float64
  sp_Seq :: int
  sp_ChainageM :: float64
  sp_OffsetM :: float64

record UserService =
  us_ID :: string
  us_Slug :: string
  us_RouteID :: string
  us_RouteSlug :: string
  us_RouteName :: string
  us_OwnerID :: string
  us_Name :: string
  us_Subtext :: string
  us_Description :: string
  us_Vehicle :: VehicleParams
  us_Stops :: "ServiceStopPoint list"
  us_FrequencyWindows :: "FrequencyWindow list"
  us_CreatedAt :: gotime
  us_UpdatedAt :: gotime
  us_PublishedAt :: "gotime option"
  us_BoardingWait :: "BoardingWaitOverride option"
  us_BoardingWaitPolicy :: string
  us_BoardingWaitSecs :: int
  us_BoardingWaitSource :: string

record StopIdentity =
  si_ServiceID :: string
  si_Slug :: string

record InterchangePair =
  ip_A :: StopIdentity
  ip_B :: StopIdentity

record UserScenario =
  uc_ID :: string
  uc_Slug :: string
  uc_OwnerID :: string
  uc_Name :: string
  uc_Description :: string
  uc_ServiceIDs :: "string list"
  uc_InterchangePairs :: "InterchangePair list"
  uc_CreatedAt :: gotime
  uc_UpdatedAt :: gotime
  uc_BoardingWait :: "BoardingWaitOverride option"
  uc_BoardingWaitPolicy :: string
  uc_BoardingWaitSecs :: int
  uc_BoardingWaitSource :: string

subsection \<open>The compiled graph (contract/transit/graph.go)\<close>

record Edge =
  e_FromSlug :: string
  e_ToSlug :: string
  e_Seconds :: int
  e_DwellS :: int
  e_RouteID :: string
  e_FromChainageM :: float64
  e_ToChainageM :: float64

record ServiceGraph =
  sg_ServiceID :: string
  sg_Edges :: "Edge list"
  sg_WaitSecs :: int
  sg_WaitPolicy :: string

record GraphNode =
  gn_Slug :: string
  gn_Lat :: float64
  gn_Lng :: float64
  gn_RoutingLat :: "float64 option"
  gn_RoutingLng :: "float64 option"
  gn_Names :: "string list"

record StopRef =
  sr_ServiceID :: string
  sr_Slug :: string
  sr_Name :: string

record StopCluster =
  scl_Key :: string
  scl_Names :: "string list"
  scl_Members :: "StopRef list"

record NearMiss =
  nm_A :: StopRef
  nm_B :: StopRef
  nm_DistanceM :: float64

record MergeReport =
  mr_Clusters :: "StopCluster list"
  mr_NearMisses :: "NearMiss list"

record TransitGraph =
  tg_Services :: "ServiceGraph list"
  tg_Merge :: MergeReport
  tg_Nodes :: "GraphNode list"

subsection \<open>Travel modes (contract/transit/mode.go)\<close>

type_synonym TravelMode = string

abbreviation TravelModeWalk :: TravelMode where "TravelModeWalk \<equiv> ''walk''"
abbreviation TravelModeBike :: TravelMode where "TravelModeBike \<equiv> ''bike''"
abbreviation TravelModeDrive :: TravelMode where "TravelModeDrive \<equiv> ''drive''"
abbreviation TravelModeTransit :: TravelMode where "TravelModeTransit \<equiv> ''transit''"

definition travelModes :: "TravelMode list" where
  "travelModes = [TravelModeWalk, TravelModeBike, TravelModeDrive, TravelModeTransit]"

definition TravelMode_Valid :: "TravelMode \<Rightarrow> bool" where
  "TravelMode_Valid m \<longleftrightarrow> m \<in> set travelModes"

text \<open>\<open>strings.Join\<close>, shared with the validation faults.\<close>

fun strings_Join :: "string list \<Rightarrow> string \<Rightarrow> string" where
  "strings_Join [] sep = []"
| "strings_Join [x] sep = x"
| "strings_Join (x # y # ys) sep = x @ sep @ strings_Join (y # ys) sep"

definition TravelModeList :: string where
  "TravelModeList = strings_Join travelModes '', ''"

subsection \<open>Jobs\<close>

abbreviation JobStatusQueued :: string where "JobStatusQueued \<equiv> ''queued''"
abbreviation JobStatusRunning :: string where "JobStatusRunning \<equiv> ''running''"
abbreviation JobStatusSucceeded :: string where "JobStatusSucceeded \<equiv> ''succeeded''"
abbreviation JobStatusFailed :: string where "JobStatusFailed \<equiv> ''failed''"

abbreviation JobKindCompileScenario :: string where
  "JobKindCompileScenario \<equiv> ''compile_scenario''"
abbreviation JobKindCompileUserScenario :: string where
  "JobKindCompileUserScenario \<equiv> ''compile_user_scenario''"
abbreviation JobKindCompileUserService :: string where
  "JobKindCompileUserService \<equiv> ''compile_user_service''"

record Job =
  job_ID :: string
  job_Kind :: string
  job_Status :: string
  job_ScenarioID :: "string option"
  job_UserScenarioID :: "string option"
  job_UserServiceID :: "string option"
  job_OwnerID :: "string option"
  job_Error :: string
  job_Result :: "TransitGraph option"
  job_CompiledServiceIDs :: "string list"
  job_CreatedAt :: gotime
  job_UpdatedAt :: gotime

record ServiceMembership =
  sm_ServiceID :: string
  sm_UpdatedAt :: gotime

record PrerenderedIsochrone =
  pi_ID :: string
  pi_ScenarioSlug :: string
  pi_Label :: string
  pi_Lat :: float64
  pi_Lng :: float64
  pi_BudgetMins :: int
  pi_Mode :: TravelMode
  pi_Result :: string
  pi_CompiledServiceIDs :: "string list"
  pi_CreatedAt :: gotime
  pi_UpdatedAt :: gotime

lemma TravelModeList_eq: "TravelModeList = ''walk, bike, drive, transit''"
  by (simp add: TravelModeList_def travelModes_def)

end
