(* ===== verification/Boarding_Wait.thy ===== *)
theory Boarding_Wait
  imports Transit_Types
begin

text \<open>
  \<open>internal/transit/boarding_wait.go\<close>: parsing a boarding-wait setting, resolving the
  service / scenario / global overrides, and charging the wait to a compiled service graph.
  Also the three \<open>ResolveBoardingWait\<close> methods of \<open>Service\<close>, \<open>UserService\<close> and
  \<open>UserScenario\<close>. The error messages become constructors.
\<close>

datatype wait_error =
    PolicyRequired
  | FixedNeedsSecs string
  | FixedNegative int
  | UnrecognisedPolicy string

abbreviation BoardingWaitSourceService :: string where "BoardingWaitSourceService \<equiv> ''service''"
abbreviation BoardingWaitSourceScenario :: string where "BoardingWaitSourceScenario \<equiv> ''scenario''"
abbreviation BoardingWaitSourceGlobal :: string where "BoardingWaitSourceGlobal \<equiv> ''global''"

definition DefaultBoardingWaitPolicy :: BoardingWaitPolicy where
  "DefaultBoardingWaitPolicy = \<lparr>bw_Kind = BoardingWaitNone, bw_FixedSecs = 0\<rparr>"

definition ParseBoardingWaitPolicy :: "string \<Rightarrow> int option \<Rightarrow> wait_error + BoardingWaitPolicy" where
  "ParseBoardingWaitPolicy kind0 fixedSecs =
     (let kind = (if kind0 = [] then BoardingWaitNone else kind0) in
      if kind \<in> {BoardingWaitNone, BoardingWaitHalfHeadway, BoardingWaitFullHeadway}
      then Inr \<lparr>bw_Kind = kind, bw_FixedSecs = 0\<rparr>
      else if kind = BoardingWaitFixed then
        (case fixedSecs of
           None \<Rightarrow> Inl (FixedNeedsSecs kind)
         | Some n \<Rightarrow> if n < 0 then Inl (FixedNegative n)
                     else Inr \<lparr>bw_Kind = BoardingWaitFixed, bw_FixedSecs = n\<rparr>)
      else Inl (UnrecognisedPolicy kind))"

definition Override_Parse :: "BoardingWaitOverride \<Rightarrow> wait_error + BoardingWaitPolicy" where
  "Override_Parse o' =
     (if bo_Policy o' = [] then Inl PolicyRequired
      else ParseBoardingWaitPolicy (bo_Policy o') (bo_Secs o'))"

text \<open>
  The source returns the policy, the source label and the error together; the label is
  only read when there is no error.
\<close>

definition ResolveBoardingWait ::
  "BoardingWaitOverride option \<Rightarrow> BoardingWaitOverride option \<Rightarrow> BoardingWaitPolicy
    \<Rightarrow> wait_error + BoardingWaitPolicy \<times> string" where
  "ResolveBoardingWait service scenario global =
     (case service of
        Some s \<Rightarrow> bind_res (Override_Parse s) (\<lambda>p. Inr (p, BoardingWaitSourceService))
      | None \<Rightarrow>
         (case scenario of
            Some s \<Rightarrow> bind_res (Override_Parse s) (\<lambda>p. Inr (p, BoardingWaitSourceScenario))
          | None \<Rightarrow> Inr (global, BoardingWaitSourceGlobal)))"

fun minHeadway_loop :: "int \<Rightarrow> FrequencyWindow list \<Rightarrow> int" where
  "minHeadway_loop best [] = best"
| "minHeadway_loop best (w # ws) =
     minHeadway_loop (if fw_HeadwayS w < best then fw_HeadwayS w else best) ws"

definition minHeadway :: "FrequencyWindow list \<Rightarrow> int" where
  "minHeadway windows =
     (case windows of [] \<Rightarrow> 0 | w # ws \<Rightarrow> minHeadway_loop (fw_HeadwayS w) ws)"

text \<open>Go's integer division truncates toward zero.\<close>

definition go_div :: "int \<Rightarrow> int \<Rightarrow> int" where
  "go_div a b = sgn a * sgn b * (\<bar>a\<bar> div \<bar>b\<bar>)"

definition WaitSecs :: "BoardingWaitPolicy \<Rightarrow> FrequencyWindow list \<Rightarrow> wait_error + int" where
  "WaitSecs p windows =
     (if bw_Kind p = BoardingWaitNone \<or> bw_Kind p = [] then Inr 0
      else if bw_Kind p = BoardingWaitHalfHeadway then Inr (go_div (minHeadway windows) 2)
      else if bw_Kind p = BoardingWaitFullHeadway then Inr (minHeadway windows)
      else if bw_Kind p = BoardingWaitFixed then
        (if bw_FixedSecs p < 0 then Inl (FixedNegative (bw_FixedSecs p))
         else Inr (bw_FixedSecs p))
      else Inl (UnrecognisedPolicy (bw_Kind p)))"

definition kindOrNone :: "BoardingWaitPolicy \<Rightarrow> string" where
  "kindOrNone p = (if bw_Kind p = [] then BoardingWaitNone else bw_Kind p)"

definition resolveInto :: "BoardingWaitPolicy \<Rightarrow> FrequencyWindow list \<Rightarrow> wait_error + string \<times> int" where
  "resolveInto p windows = bind_res (WaitSecs p windows) (\<lambda>wait. Inr (kindOrNone p, wait))"

definition applyBoardingWait ::
  "ServiceGraph \<Rightarrow> BoardingWaitPolicy \<Rightarrow> FrequencyWindow list \<Rightarrow> wait_error + ServiceGraph" where
  "applyBoardingWait sg policy windows =
     bind_res (resolveInto policy windows)
       (\<lambda>(kind, secs). Inr (sg\<lparr>sg_WaitPolicy := kind, sg_WaitSecs := secs\<rparr>))"

definition Service_ResolveBoardingWait ::
  "Service \<Rightarrow> BoardingWaitOverride option \<Rightarrow> BoardingWaitPolicy \<Rightarrow> wait_error + Service" where
  "Service_ResolveBoardingWait s scenario global =
     bind_res (ResolveBoardingWait (svc_BoardingWait s) scenario global) (\<lambda>(policy, source).
     bind_res (resolveInto policy (svc_FrequencyWindows s)) (\<lambda>(kind, secs).
       Inr (s\<lparr>svc_BoardingWaitPolicy := kind, svc_BoardingWaitSecs := secs,
              svc_BoardingWaitSource := source\<rparr>)))"

definition UserService_ResolveBoardingWait ::
  "UserService \<Rightarrow> BoardingWaitOverride option \<Rightarrow> BoardingWaitPolicy \<Rightarrow> wait_error + UserService" where
  "UserService_ResolveBoardingWait s scenario global =
     bind_res (ResolveBoardingWait (us_BoardingWait s) scenario global) (\<lambda>(policy, source).
     bind_res (resolveInto policy (us_FrequencyWindows s)) (\<lambda>(kind, secs).
       Inr (s\<lparr>us_BoardingWaitPolicy := kind, us_BoardingWaitSecs := secs,
              us_BoardingWaitSource := source\<rparr>)))"

definition UserScenario_ResolveBoardingWait ::
  "UserScenario \<Rightarrow> BoardingWaitPolicy \<Rightarrow> wait_error + UserScenario" where
  "UserScenario_ResolveBoardingWait s global =
     bind_res (ResolveBoardingWait None (uc_BoardingWait s) global) (\<lambda>(policy, source).
     bind_res (resolveInto policy []) (\<lambda>(kind, secs).
       Inr (s\<lparr>uc_BoardingWaitPolicy := kind, uc_BoardingWaitSecs := secs,
              uc_BoardingWaitSource := source\<rparr>)))"

subsection \<open>Well-formed policies\<close>

text \<open>A policy the parser can return: a known kind, and a non-negative fixed wait.\<close>

definition wf_policy :: "BoardingWaitPolicy \<Rightarrow> bool" where
  "wf_policy p \<longleftrightarrow>
     bw_Kind p \<in> {BoardingWaitNone, BoardingWaitHalfHeadway, BoardingWaitFullHeadway, BoardingWaitFixed}
     \<and> 0 \<le> bw_FixedSecs p"

lemma minHeadway_loop_Min: "minHeadway_loop b ws = Min (insert b (fw_HeadwayS ` set ws))"
proof (induction ws arbitrary: b)
  case Nil
  then show ?case by simp
next
  case (Cons w ws)
  have "(if fw_HeadwayS w < b then fw_HeadwayS w else b) = min b (fw_HeadwayS w)"
    by (simp add: min_def)
  with Cons.IH [of "min b (fw_HeadwayS w)"] show ?case
    by (cases "ws = []") (simp_all add: min.assoc)
qed

lemma minHeadway_Min: "ws \<noteq> [] \<Longrightarrow> minHeadway ws = Min (fw_HeadwayS ` set ws)"
  by (cases ws) (auto simp: minHeadway_def minHeadway_loop_Min)

lemma minHeadway_nonneg: "\<forall>w \<in> set ws. 0 \<le> fw_HeadwayS w \<Longrightarrow> 0 \<le> minHeadway ws"
  by (cases "ws = []") (simp_all add: minHeadway_Min, simp add: minHeadway_def)

lemma Parse_wf: "ParseBoardingWaitPolicy k s = Inr p \<Longrightarrow> wf_policy p"
  by (auto simp: ParseBoardingWaitPolicy_def wf_policy_def Let_def split: if_splits option.splits)

lemma Override_Parse_wf: "Override_Parse b = Inr p \<Longrightarrow> wf_policy p"
  by (auto simp: Override_Parse_def split: if_splits dest: Parse_wf)

lemma Resolve_wf:
  "ResolveBoardingWait s sc g = Inr (p, src) \<Longrightarrow> wf_policy g \<Longrightarrow> wf_policy p"
  by (auto simp: ResolveBoardingWait_def split: option.splits dest: Override_Parse_wf)

lemma WaitSecs_total: "wf_policy p \<Longrightarrow> \<exists>n. WaitSecs p ws = Inr n"
  by (auto simp: wf_policy_def WaitSecs_def)

lemma WaitSecs_nonneg:
  assumes "wf_policy p" and "\<forall>w \<in> set ws. 0 \<le> fw_HeadwayS w" and "WaitSecs p ws = Inr n"
  shows "0 \<le> n"
  using assms minHeadway_nonneg [OF assms(2)]
  by (auto simp: wf_policy_def WaitSecs_def go_div_def sgn_if split: if_splits)

end
