(* ===== verification/Segment_Graph.thy ===== *)
theory Segment_Graph
  imports Transit_Types
begin

text \<open>
  The segment table of a seeded scenario and the hop search over it
  (\<open>internal/transit/compile.go\<close>: \<open>buildSegmentAdj\<close>, \<open>segmentPathSeconds\<close>,
  \<open>pathRunSeconds\<close>, \<open>reversePath\<close>).

  The adjacency map is an association list with one entry per key, so that it is finite by
  construction: the breadth-first search then has a termination measure (queued nodes plus
  edge targets not yet visited). The walk back along \<open>prev\<close> is bounded by the number of
  \<open>prev\<close> entries; running out of that bound is the result \<open>PathDiverges\<close>, which is
  proved never to occur.
\<close>

record segEdge =
  se_to :: string
  se_seconds :: int

datatype segment_error =
    UnknownSegmentStation string
  | NonPositiveReverse string string
  | NoSegmentPath string string
  | PathDiverges string string

type_synonym seg_adj = "(string \<times> segEdge list) list"
type_synonym prev_map = "(string \<times> string) list"
type_synonym bfs_queue = "(string \<times> int) list"

definition adj_get :: "seg_adj \<Rightarrow> string \<Rightarrow> segEdge list" where
  "adj_get adj k = (case map_of adj k of None \<Rightarrow> [] | Some es \<Rightarrow> es)"

fun adj_append :: "seg_adj \<Rightarrow> string \<Rightarrow> segEdge \<Rightarrow> seg_adj" where
  "adj_append [] k e = [(k, [e])]"
| "adj_append ((k', es) # m) k e =
     (if k' = k then (k', es @ [e]) # m else (k', es) # adj_append m k e)"

fun buildSegmentAdj_loop ::
  "(string \<rightharpoonup> Station) \<Rightarrow> SegmentTime list \<Rightarrow> seg_adj \<Rightarrow> string set
    \<Rightarrow> segment_error + seg_adj \<times> string set" where
  "buildSegmentAdj_loop stationsBySlug [] adj onPath = Inr (adj, onPath)"
| "buildSegmentAdj_loop stationsBySlug (seg # segs) adj onPath =
     (let from = seg_FromSlug seg; to = seg_ToSlug seg; secs = seg_RunSeconds seg in
      if stationsBySlug from = None then Inl (UnknownSegmentStation from)
      else if stationsBySlug to = None then Inl (UnknownSegmentStation to)
      else
        (case (case seg_ReverseRunSeconds seg of
                 None \<Rightarrow> Some secs
               | Some r \<Rightarrow> if r \<le> 0 then None else Some r) of
           None \<Rightarrow> Inl (NonPositiveReverse from to)
         | Some revSecs \<Rightarrow>
             buildSegmentAdj_loop stationsBySlug segs
               (adj_append (adj_append adj from \<lparr>se_to = to, se_seconds = secs\<rparr>)
                  to \<lparr>se_to = from, se_seconds = revSecs\<rparr>)
               (insert to (insert from onPath))))"

definition buildSegmentAdj ::
  "TravelTimes \<Rightarrow> (string \<rightharpoonup> Station) \<Rightarrow> segment_error + seg_adj \<times> string set" where
  "buildSegmentAdj tt stationsBySlug =
     buildSegmentAdj_loop stationsBySlug (tt_Segments tt) [] {}"

subsection \<open>Breadth-first search\<close>

text \<open>
  One pass over the edges of the dequeued node. A result \<open>Some total\<close> is the
  source's \<open>found = true\<close> with the queue dropped and the inner loop left.
\<close>

fun scanEdges ::
  "string \<Rightarrow> string \<times> int \<Rightarrow> segEdge list \<Rightarrow> string set \<Rightarrow> prev_map \<Rightarrow> bfs_queue
    \<Rightarrow> int option \<times> string set \<times> prev_map \<times> bfs_queue" where
  "scanEdges to cur [] visited prev queue = (None, visited, prev, queue)"
| "scanEdges to cur (e # es) visited prev queue =
     (if se_to e \<in> visited then scanEdges to cur es visited prev queue
      else
        let visited' = insert (se_to e) visited;
            prev' = (se_to e, fst cur) # prev;
            nextSecs = snd cur + se_seconds e
        in if se_to e = to then (Some nextSecs, visited', prev', [])
           else scanEdges to cur es visited' prev' (queue @ [(se_to e, nextSecs)]))"

definition adj_targets :: "seg_adj \<Rightarrow> string set" where
  "adj_targets adj = (\<Union>(k, es) \<in> set adj. se_to ` set es)"

lemma finite_adj_targets [simp]: "finite (adj_targets adj)"
  by (auto simp: adj_targets_def)

lemma adj_get_targets: "se_to ` set (adj_get adj k) \<subseteq> adj_targets adj"
proof (cases "map_of adj k")
  case (Some es)
  then have "(k, es) \<in> set adj" by (rule map_of_SomeD)
  with Some show ?thesis by (auto simp: adj_get_def adj_targets_def intro!: bexI [of _ "(k, es)"])
qed (simp add: adj_get_def)

lemma scanEdges_measure:
  assumes "scanEdges to cur es V P Q = (None, V', P', Q')"
    and "se_to ` set es \<subseteq> U" and "finite U"
  shows "length Q' + card (U - V') = length Q + card (U - V)"
  using assms
proof (induction to cur es V P Q rule: scanEdges.induct)
  case (2 to cur e es V P Q)
  show ?case
  proof (cases "se_to e \<in> V")
    case True
    with 2 show ?thesis by simp
  next
    case False
    with "2.prems" have "se_to e \<noteq> to" by (auto simp: Let_def split: if_splits)
    with False 2 have "length Q' + card (U - V') =
        length (Q @ [(se_to e, snd cur + se_seconds e)]) + card (U - insert (se_to e) V)"
      by (simp add: Let_def)
    moreover have "card (U - V) = Suc (card (U - insert (se_to e) V))"
      using False "2.prems"(2,3) card_Suc_Diff1 [of "U - V" "se_to e"]
      by (simp add: Diff_insert2 [symmetric] Diff_insert [symmetric])
    ultimately show ?thesis by simp
  qed
qed simp

function bfsLoop ::
  "seg_adj \<Rightarrow> string \<Rightarrow> string set \<Rightarrow> prev_map \<Rightarrow> bfs_queue \<Rightarrow> int option \<times> prev_map" where
  "bfsLoop adj to visited prev [] = (None, prev)"
| "bfsLoop adj to visited prev (cur # queue) =
     (case scanEdges to cur (adj_get adj (fst cur)) visited prev queue of
        (Some t, visited', prev', queue') \<Rightarrow> (Some t, prev')
      | (None, visited', prev', queue') \<Rightarrow> bfsLoop adj to visited' prev' queue')"
  by pat_completeness auto
termination
  by (relation "measure (\<lambda>(adj, to, V, P, Q). length Q + card (adj_targets adj - V))")
    (auto dest!: sym [of _ "scanEdges _ _ _ _ _ _"]
      dest: scanEdges_measure [OF _ adj_get_targets finite_adj_targets])

definition prev_get :: "prev_map \<Rightarrow> string \<Rightarrow> string" where
  "prev_get prev k = (case map_of prev k of None \<Rightarrow> [] | Some p \<Rightarrow> p)"

fun walkBack :: "nat \<Rightarrow> prev_map \<Rightarrow> string \<Rightarrow> string \<Rightarrow> string list \<Rightarrow> string list option" where
  "walkBack fuel prev from cur path =
     (if cur = from then Some path
      else (case fuel of
              0 \<Rightarrow> None
            | Suc n \<Rightarrow> walkBack n prev from (prev_get prev cur) (path @ [prev_get prev cur])))"

declare walkBack.simps [simp del]

definition segmentPathSeconds ::
  "seg_adj \<Rightarrow> string \<Rightarrow> string \<Rightarrow> segment_error + int \<times> string list" where
  "segmentPathSeconds adj from to =
     (if from = to then Inr (0, [from])
      else
        (case bfsLoop adj to {from} [] [(from, 0)] of
           (None, prev) \<Rightarrow> Inl (NoSegmentPath from to)
         | (Some t, prev) \<Rightarrow>
             (case walkBack (length prev) prev from to [to] of
                None \<Rightarrow> Inl (PathDiverges from to)
              | Some path \<Rightarrow> Inr (t, rev path))))"

definition hopSeconds :: "seg_adj \<Rightarrow> string \<Rightarrow> string \<Rightarrow> int" where
  "hopSeconds adj from to =
     (case find (\<lambda>e. se_to e = to) (adj_get adj from) of None \<Rightarrow> 0 | Some e \<Rightarrow> se_seconds e)"

fun pathRunSeconds :: "seg_adj \<Rightarrow> string list \<Rightarrow> int" where
  "pathRunSeconds adj (from # to # rest) = hopSeconds adj from to + pathRunSeconds adj (to # rest)"
| "pathRunSeconds adj path = 0"

definition reversePath :: "string list \<Rightarrow> string list" where
  "reversePath path = map (\<lambda>i. path ! (length path - 1 - i)) [0..<length path]"

lemma reversePath_rev: "reversePath path = rev path"
  by (rule nth_equalityI) (auto simp: reversePath_def rev_nth)

subsection \<open>Walks\<close>

definition hop :: "seg_adj \<Rightarrow> string \<Rightarrow> string \<Rightarrow> bool" where
  "hop adj a b \<longleftrightarrow> b \<in> se_to ` set (adj_get adj a)"

text \<open>A walk over the segment table, from a given station to another.\<close>

definition is_walk :: "seg_adj \<Rightarrow> string \<Rightarrow> string \<Rightarrow> string list \<Rightarrow> bool" where
  "is_walk adj from to w \<longleftrightarrow> w \<noteq> [] \<and> hd w = from \<and> last w = to \<and> successively (hop adj) w"

lemma is_walk_single [simp]: "is_walk adj a b [x] \<longleftrightarrow> x = a \<and> x = b"
  by (auto simp: is_walk_def)

lemma is_walk_snoc:
  "w \<noteq> [] \<Longrightarrow> is_walk adj a b (w @ [x]) \<longleftrightarrow> x = b \<and> is_walk adj a (last w) w \<and> hop adj (last w) b"
  by (auto simp: is_walk_def successively_append_iff)

lemma is_walk_length: "is_walk adj a b w \<Longrightarrow> Suc 0 \<le> length w"
  by (cases w) (auto simp: is_walk_def)

lemma is_walk_short: "is_walk adj a b w \<Longrightarrow> length w \<le> Suc 0 \<Longrightarrow> b = a"
  by (cases w) (auto simp: is_walk_def)

lemma pathRunSeconds_snoc:
  "p \<noteq> [] \<Longrightarrow> pathRunSeconds adj (p @ [x]) = pathRunSeconds adj p + hopSeconds adj (last p) x"
  by (induction adj p rule: pathRunSeconds.induct) auto

lemma find_skip: "\<forall>x \<in> set xs. \<not> Q x \<Longrightarrow> find Q (xs @ ys) = find Q ys"
  by (induction xs) auto

lemma hopSeconds_first:
  assumes "adj_get adj a = done @ e # es" and "se_to e \<notin> se_to ` set done"
  shows "hopSeconds adj a (se_to e) = se_seconds e"
proof -
  have "\<forall>x \<in> set done. se_to x \<noteq> se_to e" using assms(2) by (metis image_eqI)
  then show ?thesis using assms(1) by (simp add: hopSeconds_def find_skip)
qed

subsection \<open>The path recorded in prev\<close>

abbreviation prev_keys :: "prev_map \<Rightarrow> string set" where
  "prev_keys P \<equiv> fst ` set P"

fun wf_prev :: "string \<Rightarrow> prev_map \<Rightarrow> bool" where
  "wf_prev from [] = True"
| "wf_prev from ((k, y) # P) =
     (k \<notin> insert from (prev_keys P) \<and> y \<in> insert from (prev_keys P) \<and> wf_prev from P)"

fun trace :: "prev_map \<Rightarrow> string \<Rightarrow> string list" where
  "trace [] x = [x]"
| "trace ((k, y) # P) x = (if x = k then trace P y @ [x] else trace P x)"

lemma trace_nonempty [simp]: "trace P x \<noteq> []"
  by (induction P x rule: trace.induct) auto

lemma last_trace [simp]: "last (trace P x) = x"
  by (induction P x rule: trace.induct) auto

lemma hd_trace: "wf_prev from P \<Longrightarrow> x \<in> insert from (prev_keys P) \<Longrightarrow> hd (trace P x) = from"
  by (induction P x rule: trace.induct) (auto simp: hd_append)

lemma set_trace:
  "wf_prev from P \<Longrightarrow> x \<in> insert from (prev_keys P) \<Longrightarrow> set (trace P x) \<subseteq> insert from (prev_keys P)"
  by (induction P x rule: trace.induct) auto

lemma distinct_trace:
  "wf_prev from P \<Longrightarrow> x \<in> insert from (prev_keys P) \<Longrightarrow> distinct (trace P x)"
proof (induction P x rule: trace.induct)
  case (2 k y P x)
  then show ?case using set_trace [of "from" P y] by (cases "x = k") auto
qed simp

lemma wf_prev_entry: "wf_prev from P \<Longrightarrow> (x, y) \<in> set P \<Longrightarrow> y \<in> insert from (prev_keys P)"
  by (induction "from" P rule: wf_prev.induct) auto

lemma prev_get_in:
  assumes "wf_prev from P" and "x \<in> prev_keys P"
  shows "prev_get P x \<in> insert from (prev_keys P)"
proof -
  from assms(2) obtain y where "map_of P x = Some y"
    by (metis map_of_eq_None_iff not_None_eq)
  then show ?thesis
    using wf_prev_entry [OF assms(1) map_of_SomeD] by (simp add: prev_get_def)
qed

lemma walkBack_Cons:
  assumes "wf_prev from ((k, y) # P)" and "c \<in> insert from (prev_keys P)"
  shows "walkBack fuel ((k, y) # P) from c acc = walkBack fuel P from c acc"
  using assms
proof (induction fuel arbitrary: c acc)
  case 0
  then show ?case by (simp add: walkBack.simps)
next
  case (Suc fuel)
  show ?case
  proof (cases "c = from")
    case True
    then show ?thesis by (simp add: walkBack.simps)
  next
    case False
    with Suc.prems have "prev_get ((k, y) # P) c = prev_get P c"
      and "prev_get P c \<in> insert from (prev_keys P)"
      using prev_get_in [of "from" P c] by (auto simp: prev_get_def)
    with Suc.IH [OF Suc.prems(1)] False show ?thesis
      by (simp add: walkBack.simps [of "Suc fuel"])
  qed
qed

lemma walkBack_trace:
  "wf_prev from P \<Longrightarrow> c \<in> insert from (prev_keys P) \<Longrightarrow> length P \<le> fuel \<Longrightarrow>
     walkBack fuel P from c acc = Some (acc @ tl (rev (trace P c)))"
proof (induction P arbitrary: c fuel acc)
  case Nil
  then show ?case by (simp add: walkBack.simps)
next
  case (Cons kp P)
  obtain k y where kp: "kp = (k, y)" by (cases kp)
  show ?case
  proof (cases "c = k")
    case False
    with Cons.prems kp show ?thesis
      by (auto simp: walkBack_Cons intro!: Cons.IH)
  next
    case True
    obtain n where n: "fuel = Suc n" "length P \<le> n"
      using Cons.prems(3) by (cases fuel) auto
    have "walkBack fuel (kp # P) from c acc = walkBack n P from y (acc @ [y])"
      using Cons.prems(1) kp True n walkBack_Cons [of "from" k y P y n]
      by (subst walkBack.simps) (auto simp: prev_get_def)
    also have "\<dots> = Some (acc @ [y] @ tl (rev (trace P y)))"
      using Cons.prems(1) kp n Cons.IH [of y n "acc @ [y]"] by simp
    also have "[y] @ tl (rev (trace P y)) = rev (trace P y)"
      by (metis append_Cons append_Nil hd_rev last_trace list.collapse rev_is_Nil_conv trace_nonempty)
    finally show ?thesis using True kp by simp
  qed
qed

subsection \<open>Invariant of the search\<close>

text \<open>
  \<open>m\<close> is the number of stations on the recorded path of the node being expanded, and
  \<open>X\<close> the visited nodes whose edges have not all been scanned yet.
\<close>

definition bfs_inv ::
  "seg_adj \<Rightarrow> string \<Rightarrow> string \<Rightarrow> nat \<Rightarrow> string set \<Rightarrow> prev_map \<Rightarrow> bfs_queue \<Rightarrow> string set \<Rightarrow> bool" where
  "bfs_inv adj from to m V P Q X \<longleftrightarrow>
     wf_prev from P \<and> V = insert from (prev_keys P) \<and> to \<notin> V \<and>
     (\<forall>x \<in> V. is_walk adj from x (trace P x)) \<and>
     (\<forall>(x, s) \<in> set Q. x \<in> V \<and> s = pathRunSeconds adj (trace P x) \<and>
        length (trace P x) \<in> {m, Suc m}) \<and>
     sorted (map (\<lambda>q. length (trace P (fst q))) Q) \<and>
     (\<forall>x w. is_walk adj from x w \<longrightarrow> length w \<le> m \<longrightarrow> x \<in> V) \<and>
     (\<forall>x w. is_walk adj from x w \<longrightarrow> x \<in> V \<longrightarrow> length (trace P x) \<le> length w) \<and>
     (\<forall>x \<in> V - X. se_to ` set (adj_get adj x) \<subseteq> V)"

definition bfs_found :: "seg_adj \<Rightarrow> string \<Rightarrow> string \<Rightarrow> int \<Rightarrow> prev_map \<Rightarrow> bool" where
  "bfs_found adj from to t P \<longleftrightarrow>
     wf_prev from P \<and> to \<in> prev_keys P \<and> is_walk adj from to (trace P to) \<and>
     t = pathRunSeconds adj (trace P to) \<and>
     (\<forall>w. is_walk adj from to w \<longrightarrow> length (trace P to) \<le> length w)"

lemma bfs_invD:
  assumes "bfs_inv adj from to m V P Q X"
  shows "wf_prev from P" and "V = insert from (prev_keys P)" and "to \<notin> V"
    and "\<And>x. x \<in> V \<Longrightarrow> is_walk adj from x (trace P x)"
    and "\<And>x s. (x, s) \<in> set Q \<Longrightarrow> x \<in> V \<and> s = pathRunSeconds adj (trace P x) \<and>
      length (trace P x) \<in> {m, Suc m}"
    and "sorted (map (\<lambda>q. length (trace P (fst q))) Q)"
    and "\<And>x w. is_walk adj from x w \<Longrightarrow> length w \<le> m \<Longrightarrow> x \<in> V"
    and "\<And>x w. is_walk adj from x w \<Longrightarrow> x \<in> V \<Longrightarrow> length (trace P x) \<le> length w"
    and "\<And>x. x \<in> V - X \<Longrightarrow> se_to ` set (adj_get adj x) \<subseteq> V"
  using assms unfolding bfs_inv_def by blast+

lemma bfs_inv_open:
  "bfs_inv adj from to m V P Q X \<Longrightarrow> \<forall>x \<in> V - Y. se_to ` set (adj_get adj x) \<subseteq> V \<Longrightarrow>
     bfs_inv adj from to m V P Q Y"
  unfolding bfs_inv_def by blast

text \<open>Visiting a new node \<open>k\<close> from the expanded node \<open>y\<close>.\<close>

lemma trace_other: "x \<noteq> k \<Longrightarrow> trace ((k, y) # P) x = trace P x"
  by simp

lemma visit_new:
  assumes inv: "bfs_inv adj from to m V P Q X" and y: "y \<in> V" "length (trace P y) = m"
    and k: "k \<notin> V" "hop adj y k"
  shows "wf_prev from ((k, y) # P)" and "insert k V = insert from (prev_keys ((k, y) # P))"
    and "is_walk adj from k (trace P y @ [k])"
    and "\<And>w. is_walk adj from k w \<Longrightarrow> Suc m \<le> length w"
proof -
  show "wf_prev from ((k, y) # P)" and "insert k V = insert from (prev_keys ((k, y) # P))"
    using bfs_invD(1,2) [OF inv] y k by auto
  show "is_walk adj from k (trace P y @ [k])"
    using bfs_invD(4) [OF inv y(1)] k by (simp add: is_walk_snoc)
  show "Suc m \<le> length w" if "is_walk adj from k w" for w
    using bfs_invD(7) [OF inv that] k(1) by (meson not_less_eq_eq)
qed

lemma bfs_inv_visit:
  assumes inv: "bfs_inv adj from to m V P Q X" and y: "y \<in> V" "length (trace P y) = m"
    and k: "k \<notin> V" "hop adj y k" "k \<noteq> to"
    and s: "s = pathRunSeconds adj (trace P y @ [k])"
  shows "bfs_inv adj from to m (insert k V) ((k, y) # P) (Q @ [(k, s)]) (insert k X)"
proof -
  note new = visit_new [OF inv y k(1,2)] and I = bfs_invD [OF inv]
  have ne: "x \<noteq> k" if "x \<in> V" for x using that k(1) by auto
  have map_eq: "map (\<lambda>q. length (trace ((k, y) # P) (fst q))) Q = map (\<lambda>q. length (trace P (fst q))) Q"
    using I(5) k(1) by (intro map_cong) auto
  have le: "\<forall>q \<in> set Q. length (trace P (fst q)) \<le> Suc m"
    using I(5) by fastforce
  have "sorted (map (\<lambda>q. length (trace ((k, y) # P) (fst q))) (Q @ [(k, s)]))"
    unfolding map_append map_eq sorted_append using I(6) y le by simp
  moreover have "\<forall>(x, s) \<in> set (Q @ [(k, s)]). x \<in> insert k V \<and>
      s = pathRunSeconds adj (trace ((k, y) # P) x) \<and> length (trace ((k, y) # P) x) \<in> {m, Suc m}"
  proof clarify
    fix x s' assume "(x, s') \<in> set (Q @ [(k, s)])"
    then consider "(x, s') \<in> set Q" | "x = k" "s' = s" by auto
    then show "x \<in> insert k V \<and> s' = pathRunSeconds adj (trace ((k, y) # P) x) \<and>
        length (trace ((k, y) # P) x) \<in> {m, Suc m}"
    proof cases
      case 1
      with I(5) [OF 1] ne [of x] show ?thesis by simp
    next
      case 2
      with y s show ?thesis by simp
    qed
  qed
  moreover have "\<forall>x \<in> insert k V. is_walk adj from x (trace ((k, y) # P) x)"
    using I(4) ne new(3) by auto
  moreover have "\<forall>x w. is_walk adj from x w \<longrightarrow> x \<in> insert k V \<longrightarrow>
      length (trace ((k, y) # P) x) \<le> length w"
    using I(8) ne new(4) y by auto
  moreover have "\<forall>x \<in> insert k V - insert k X. se_to ` set (adj_get adj x) \<subseteq> insert k V"
    using I(9) by blast
  moreover have "to \<notin> insert k V" using I(3) k(3) by auto
  ultimately show ?thesis
    using I(7) new(1,2) unfolding bfs_inv_def by blast
qed

lemma scanEdges_inv:
  assumes "adj_get adj (fst cur) = done @ es" and "se_to ` set done \<subseteq> V"
    and "bfs_inv adj from to m V P Q (insert (fst cur) (fst ` set Q))"
    and "fst cur \<in> V" and "snd cur = pathRunSeconds adj (trace P (fst cur))"
    and "length (trace P (fst cur)) = m"
    and "scanEdges to cur es V P Q = (r, V', P', Q')"
  shows "case r of Some t \<Rightarrow> bfs_found adj from to t P'
    | None \<Rightarrow> bfs_inv adj from to m V' P' Q' (fst ` set Q')"
  using assms
proof (induction es arbitrary: "done" V P Q)
  case Nil
  have "se_to ` set (adj_get adj x) \<subseteq> V" if "x \<in> V - fst ` set Q" for x
    using that Nil.prems(1,2) bfs_invD(9) [OF Nil.prems(3), of x] by (cases "x = fst cur") auto
  then have "bfs_inv adj from to m V P Q (fst ` set Q)"
    by (intro bfs_inv_open [OF Nil.prems(3)]) blast
  with Nil.prems(7) show ?case by auto
next
  case (Cons e es)
  let ?k = "se_to e" and ?y = "fst cur"
  have split: "adj_get adj ?y = (done @ [e]) @ es" using Cons.prems(1) by simp
  show ?case
  proof (cases "?k \<in> V")
    case True
    then show ?thesis
      using Cons.IH [OF split _ Cons.prems(3-6)] Cons.prems(2,7) by simp
  next
    case False
    have hop: "hop adj ?y ?k" using split by (auto simp: hop_def)
    note new = visit_new [OF Cons.prems(3,4,6) False hop]
    have secs: "snd cur + se_seconds e = pathRunSeconds adj (trace P ?y @ [?k])"
      using hopSeconds_first [OF Cons.prems(1) contra_subsetD [OF Cons.prems(2) False]] Cons.prems(5)
      by (simp add: pathRunSeconds_snoc)
    show ?thesis
    proof (cases "?k = to")
      case True
      with Cons.prems(7) False have "r = Some (snd cur + se_seconds e)" "P' = (?k, ?y) # P"
        by auto
      with True secs new Cons.prems(6) show ?thesis
        by (simp add: bfs_found_def)
    next
      case neq: False
      let ?V = "insert ?k V" and ?P = "(?k, ?y) # P" and ?Q = "Q @ [(?k, snd cur + se_seconds e)]"
      have X: "insert ?k (insert ?y (fst ` set Q)) = insert ?y (fst ` set ?Q)" by auto
      have inv': "bfs_inv adj from to m ?V ?P ?Q (insert ?y (fst ` set ?Q))"
        using bfs_inv_visit [OF Cons.prems(3,4,6) False hop neq secs] by (simp only: X)
      have ny: "trace ?P ?y = trace P ?y" using False Cons.prems(4) by (intro trace_other) auto
      show ?thesis
        using Cons.IH [OF split _ inv'] Cons.prems(2,4-7) False neq ny by (auto simp: Let_def)
    qed
  qed
qed

text \<open>The next node of the queue is at the current level or the one after it.\<close>

lemma bfs_inv_next:
  assumes inv: "bfs_inv adj from to m V P (cur # Q) (fst ` set (cur # Q))"
  shows "bfs_inv adj from to (length (trace P (fst cur))) V P Q (insert (fst cur) (fst ` set Q))"
proof -
  note I = bfs_invD [OF inv]
  define m' where "m' = length (trace P (fst cur))"
  have m': "m' \<in> {m, Suc m}"
    using I(5) [of "fst cur" "snd cur"] by (simp add: m'_def)
  have ge: "\<forall>q \<in> set Q. m' \<le> length (trace P (fst q))"
    using I(6) by (simp add: m'_def)
  have reach: "x \<in> V" if w: "is_walk adj from x w" "length w \<le> m'" for x w
  proof (cases "length w \<le> m")
    case True
    with I(7) w show ?thesis by blast
  next
    case False
    with w m' have len: "length w = Suc m" "m' = Suc m" by auto
    obtain u where u: "w = u @ [x]"
      using w(1) by (metis append_butlast_last_id is_walk_def)
    show ?thesis
    proof (cases "u = []")
      case True
      with u w(1) have "x = from" by simp
      then show ?thesis by (subst I(2)) simp
    next
      case un: False
      with u w(1) have uw: "is_walk adj from (last u) u" "hop adj (last u) x"
        by (auto simp: is_walk_snoc)
      with I(7) len u have lu: "last u \<in> V" by simp
      with I(8) uw(1) len u have "length (trace P (last u)) \<le> m" by fastforce
      then have "last u \<notin> fst ` set (cur # Q)" using ge len m'_def by fastforce
      with I(9) [of "last u"] lu uw(2) show ?thesis by (auto simp: hop_def)
    qed
  qed
  have "\<forall>(x, s) \<in> set Q. x \<in> V \<and> s = pathRunSeconds adj (trace P x) \<and> length (trace P x) \<in> {m', Suc m'}"
    using I(5) ge m' by fastforce
  then show ?thesis
    using I(1-4,8,9) I(6) reach unfolding bfs_inv_def m'_def [symmetric] by auto
qed

lemma bfsLoop_correct:
  assumes "bfs_inv adj from to m V P Q (fst ` set Q)"
  shows "case bfsLoop adj to V P Q of
      (Some t, P') \<Rightarrow> bfs_found adj from to t P'
    | (None, P') \<Rightarrow> \<not> (\<exists>w. is_walk adj from to w)"
  using assms
proof (induction adj to V P Q arbitrary: m rule: bfsLoop.induct)
  case (1 adj to V P)
  note I = bfs_invD [OF "1.prems"]
  have "x \<in> V" if "is_walk adj from x w" for x w
    using that
  proof (induction w arbitrary: x rule: rev_induct)
    case (snoc y u)
    then show ?case
      using I(2,9) by (cases "u = []") (auto simp: is_walk_snoc hop_def)
  qed (simp add: is_walk_def)
  with I(3) show ?case by auto
next
  case (2 adj to V P cur Q)
  note inv = bfs_inv_next [OF "2.prems"] and I = bfs_invD [OF "2.prems"]
  obtain r V' P' Q' where scan: "scanEdges to cur (adj_get adj (fst cur)) V P Q = (r, V', P', Q')"
    by (metis prod_cases4)
  have cur: "fst cur \<in> V" "snd cur = pathRunSeconds adj (trace P (fst cur))"
    using I(5) [of "fst cur" "snd cur"] by simp_all
  note step = scanEdges_inv [of adj cur "[]", OF _ _ inv cur refl scan]
  show ?case
  proof (cases r)
    case (Some t)
    with step scan show ?thesis by simp
  next
    case None
    with step have "bfs_inv adj from to (length (trace P (fst cur))) V' P' Q' (fst ` set Q')"
      by simp
    from "2.IH" [OF scan [symmetric] None refl refl this] None scan show ?thesis by simp
  qed
qed

lemma bfs_inv_init:
  "from \<noteq> to \<Longrightarrow> bfs_inv adj from to 1 {from} [] [(from, 0)] (fst ` set [(from, 0::int)])"
  by (auto simp: bfs_inv_def dest: is_walk_short is_walk_length)

lemma segmentPathSeconds_cases:
  assumes "from \<noteq> to"
  obtains (found) t P where "segmentPathSeconds adj from to = Inr (t, trace P to)"
      and "bfs_found adj from to t P"
  | (none) "segmentPathSeconds adj from to = Inl (NoSegmentPath from to)"
      and "\<not> (\<exists>w. is_walk adj from to w)"
proof (cases "bfsLoop adj to {from} [] [(from, 0)]")
  case (Pair r P)
  note correct = bfsLoop_correct [OF bfs_inv_init [OF assms, of adj]]
  show ?thesis
  proof (cases r)
    case None
    with Pair assms have "segmentPathSeconds adj from to = Inl (NoSegmentPath from to)"
      by (simp add: segmentPathSeconds_def)
    with none correct Pair None show ?thesis by simp
  next
    case (Some t)
    with correct Pair have f: "bfs_found adj from to t P" by simp
    then have "walkBack (length P) P from to [to] = Some ([to] @ tl (rev (trace P to)))"
      by (intro walkBack_trace) (auto simp: bfs_found_def)
    moreover have "[to] @ tl (rev (trace P to)) = rev (trace P to)"
      by (metis append_Cons append_Nil hd_rev last_trace list.collapse rev_is_Nil_conv trace_nonempty)
    ultimately have "segmentPathSeconds adj from to = Inr (t, trace P to)"
      using Pair Some assms by (simp add: segmentPathSeconds_def)
    with found f show ?thesis by blast
  qed
qed

subsection \<open>What the search returns\<close>

text \<open>The path found is a simple walk, its seconds are the walk's, and no walk has fewer hops.\<close>

lemma segmentPathSeconds_sound:
  assumes "segmentPathSeconds adj from to = Inr (t, p)"
  shows "is_walk adj from to p" and "distinct p" and "t = pathRunSeconds adj p"
    and "\<And>w. is_walk adj from to w \<Longrightarrow> length p \<le> length w"
proof -
  have "is_walk adj from to p \<and> distinct p \<and> t = pathRunSeconds adj p \<and>
      (\<forall>w. is_walk adj from to w \<longrightarrow> length p \<le> length w)"
  proof (cases "from = to")
    case True
    with assms show ?thesis
      by (auto simp: segmentPathSeconds_def dest: is_walk_length)
  next
    case False
    then show ?thesis
    proof (cases rule: segmentPathSeconds_cases [of "from" to adj])
      case (found t' P)
      with assms show ?thesis
        by (auto simp: bfs_found_def intro!: distinct_trace)
    next
      case none
      with assms show ?thesis by simp
    qed
  qed
  then show "is_walk adj from to p" "distinct p" "t = pathRunSeconds adj p"
    "\<And>w. is_walk adj from to w \<Longrightarrow> length p \<le> length w" by blast+
qed

lemma segmentPathSeconds_complete:
  assumes "is_walk adj from to w"
  shows "\<exists>t p. segmentPathSeconds adj from to = Inr (t, p)"
proof (cases "from = to")
  case False
  then show ?thesis
  proof (cases rule: segmentPathSeconds_cases [of "from" to adj])
    case none
    with assms show ?thesis by blast
  qed blast
qed (simp add: segmentPathSeconds_def)

lemma segmentPathSeconds_error:
  assumes "segmentPathSeconds adj from to = Inl err"
  shows "err = NoSegmentPath from to" and "\<not> (\<exists>w. is_walk adj from to w)"
proof -
  have "from \<noteq> to" using assms by (auto simp: segmentPathSeconds_def)
  then have "err = NoSegmentPath from to \<and> \<not> (\<exists>w. is_walk adj from to w)"
  proof (cases rule: segmentPathSeconds_cases [of "from" to adj])
    case none
    with assms show ?thesis by simp
  qed (use assms in simp)
  then show "err = NoSegmentPath from to" "\<not> (\<exists>w. is_walk adj from to w)" by blast+
qed

subsection \<open>The adjacency built from the segment table\<close>

lemma adj_get_append:
  "adj_get (adj_append adj k e) k' = adj_get adj k' @ (if k' = k then [e] else [])"
  by (induction adj k e rule: adj_append.induct) (auto simp: adj_get_def split: option.splits)

text \<open>
  The edges one segment contributes to a station's list: the forward edge at its
  \<open>from\<close> end, then the reverse edge at its \<open>to\<close> end.
\<close>

definition seg_reverse :: "SegmentTime \<Rightarrow> int" where
  "seg_reverse seg =
     (case seg_ReverseRunSeconds seg of None \<Rightarrow> seg_RunSeconds seg | Some r \<Rightarrow> r)"

definition seg_edges :: "SegmentTime \<Rightarrow> string \<Rightarrow> segEdge list" where
  "seg_edges seg k =
     (if k = seg_FromSlug seg then [\<lparr>se_to = seg_ToSlug seg, se_seconds = seg_RunSeconds seg\<rparr>] else []) @
     (if k = seg_ToSlug seg then [\<lparr>se_to = seg_FromSlug seg, se_seconds = seg_reverse seg\<rparr>] else [])"

lemma buildSegmentAdj_loop_Cons:
  assumes "buildSegmentAdj_loop st (seg # segs) adj onPath = Inr res"
  obtains adj1 where
    "buildSegmentAdj_loop st segs adj1 (insert (seg_ToSlug seg) (insert (seg_FromSlug seg) onPath)) = Inr res"
    and "\<And>k. adj_get adj1 k = adj_get adj k @ seg_edges seg k"
    and "st (seg_FromSlug seg) \<noteq> None" and "st (seg_ToSlug seg) \<noteq> None"
    and "\<And>r. seg_ReverseRunSeconds seg = Some r \<Longrightarrow> 0 < r"
  using assms that
  by (fastforce simp: Let_def adj_get_append seg_edges_def seg_reverse_def
      split: if_splits option.splits)

lemma buildSegmentAdj_loop_get:
  assumes "buildSegmentAdj_loop st segs adj onPath = Inr (adj', onPath')"
  shows "adj_get adj' k = adj_get adj k @ concat (map (\<lambda>seg. seg_edges seg k) segs)"
    and "onPath' = onPath \<union> seg_FromSlug ` set segs \<union> seg_ToSlug ` set segs"
    and "\<forall>seg \<in> set segs. st (seg_FromSlug seg) \<noteq> None \<and> st (seg_ToSlug seg) \<noteq> None \<and>
      (\<forall>r. seg_ReverseRunSeconds seg = Some r \<longrightarrow> 0 < r)"
  using assms
proof (induction segs arbitrary: adj onPath)
  case Nil
  { case 1 then show ?case by simp next case 2 then show ?case by simp next case 3 then show ?case by simp }
next
  case (Cons seg segs)
  { case 1 then show ?case by (elim buildSegmentAdj_loop_Cons) (auto dest!: Cons.IH(1))
  next case 2 then show ?case by (elim buildSegmentAdj_loop_Cons) (auto dest!: Cons.IH(2))
  next case 3 then show ?case by (elim buildSegmentAdj_loop_Cons) (auto dest!: Cons.IH(3)) }
qed

lemma buildSegmentAdj_get:
  assumes "buildSegmentAdj tt st = Inr (adj, onPath)"
  shows "adj_get adj k = concat (map (\<lambda>seg. seg_edges seg k) (tt_Segments tt))"
    and "onPath = seg_FromSlug ` set (tt_Segments tt) \<union> seg_ToSlug ` set (tt_Segments tt)"
    and "\<forall>seg \<in> set (tt_Segments tt). st (seg_FromSlug seg) \<noteq> None \<and> st (seg_ToSlug seg) \<noteq> None \<and>
      (\<forall>r. seg_ReverseRunSeconds seg = Some r \<longrightarrow> 0 < r)"
  using buildSegmentAdj_loop_get [OF assms [unfolded buildSegmentAdj_def]]
  by (simp_all add: adj_get_def)

lemma seg_edges_hop:
  "b \<in> se_to ` set (seg_edges seg a) \<longleftrightarrow>
     (a = seg_FromSlug seg \<and> b = seg_ToSlug seg) \<or> (a = seg_ToSlug seg \<and> b = seg_FromSlug seg)"
  by (auto simp: seg_edges_def)

lemma buildSegmentAdj_hop:
  assumes "buildSegmentAdj tt st = Inr (adj, onPath)"
  shows "hop adj a b \<longleftrightarrow> (\<exists>seg \<in> set (tt_Segments tt). b \<in> se_to ` set (seg_edges seg a))"
  unfolding hop_def buildSegmentAdj_get(1) [OF assms] by auto

lemma buildSegmentAdj_hop_sym:
  assumes "buildSegmentAdj tt st = Inr (adj, onPath)"
  shows "hop adj a b \<longleftrightarrow> hop adj b a"
  unfolding buildSegmentAdj_hop [OF assms] seg_edges_hop by blast

lemma is_walk_rev:
  assumes sym: "\<And>a b. hop adj a b \<longleftrightarrow> hop adj b a"
  shows "is_walk adj a b w \<Longrightarrow> is_walk adj b a (rev w)"
  using sym by (auto simp: is_walk_def hd_rev last_rev elim: successively_mono)

text \<open>
  Both directions of a hop are priced by the same segment: the first of the table that joins
  the two stations.
\<close>

definition joining :: "SegmentTime list \<Rightarrow> string \<Rightarrow> string \<Rightarrow> SegmentTime option" where
  "joining segs a b = find (\<lambda>seg. {seg_FromSlug seg, seg_ToSlug seg} = {a, b}) segs"

definition seg_seconds :: "SegmentTime \<Rightarrow> string \<Rightarrow> int" where
  "seg_seconds seg from = (if from = seg_FromSlug seg then seg_RunSeconds seg else seg_reverse seg)"

lemma joining_sym: "joining segs a b = joining segs b a"
  by (simp add: joining_def insert_commute)

lemma hopSeconds_joining:
  assumes "buildSegmentAdj tt st = Inr (adj, onPath)" and "a \<noteq> b"
  shows "hopSeconds adj a b =
    (case joining (tt_Segments tt) a b of None \<Rightarrow> 0 | Some seg \<Rightarrow> seg_seconds seg a)"
proof -
  have "(case find (\<lambda>e. se_to e = b) (concat (map (\<lambda>seg. seg_edges seg a) segs)) of
        None \<Rightarrow> 0 | Some e \<Rightarrow> se_seconds e) =
      (case joining segs a b of None \<Rightarrow> 0 | Some seg \<Rightarrow> seg_seconds seg a)" for segs
  proof (induction segs)
    case (Cons seg segs)
    with assms(2) show ?case
      by (auto simp: joining_def seg_edges_def seg_seconds_def doubleton_eq_iff)
  qed (simp add: joining_def)
  then show ?thesis
    by (simp add: hopSeconds_def buildSegmentAdj_get(1) [OF assms(1)])
qed

subsection \<open>Properties\<close>

text \<open>
  C7: The hop search returns a simple walk over the adjacency with the fewest hops, and its run
  seconds are the sum of the hops of that walk; it fails exactly when no walk exists, and always
  with the no-path error.
\<close>

theorem segmentPathSeconds_correct:
  "case segmentPathSeconds adj a b of
     Inr (t, p) \<Rightarrow> is_walk adj a b p \<and> distinct p \<and> t = pathRunSeconds adj p \<and>
       (\<forall>w. is_walk adj a b w \<longrightarrow> length p \<le> length w)
   | Inl err \<Rightarrow> err = NoSegmentPath a b \<and> \<not> (\<exists>w. is_walk adj a b w)"
proof (cases "segmentPathSeconds adj a b")
  case (Inl err)
  then show ?thesis using segmentPathSeconds_error by simp
next
  case (Inr r)
  obtain t p where "r = (t, p)" by (cases r)
  with Inr show ?thesis using segmentPathSeconds_sound [of adj a b t p] by simp
qed

lemma segmentPathSeconds_correct_witness:
  "is_walk [(''a'', [\<lparr>se_to = ''b'', se_seconds = 5\<rparr>]), (''b'', [\<lparr>se_to = ''c'', se_seconds = 7\<rparr>])]
     ''a'' ''c'' [''a'', ''b'', ''c'']"
proof -
  let ?adj = "[(''a'', [\<lparr>se_to = ''b'', se_seconds = 5\<rparr>]), (''b'', [\<lparr>se_to = ''c'', se_seconds = 7\<rparr>])]"
  have "segmentPathSeconds ?adj ''a'' ''c'' = Inr (12, [''a'', ''b'', ''c''])" by code_simp
  with segmentPathSeconds_correct [where adj = ?adj and a = "''a''" and b = "''c''"] show ?thesis by simp
qed

end
