(* ===== verification/Projection.thy ===== *)
theory Projection
  imports Prelude
begin

text \<open>
  \<open>internal/physics/project.go\<close>: the planar projection of a route line, snapping stops to
  it, and cutting it into inter-stop spans with the track segments they run over.
\<close>

abbreviation (input) earthRadiusM :: real where "earthRadiusM \<equiv> 6371000"

record Point =
  pt_Lng :: float64
  pt_Lat :: float64

record Segment =
  sgm_CantMM :: float64
  sgm_CurveRadiusM :: float64
  sgm_GradePct :: float64

record Stop =
  stop_ID :: string
  stop_Location :: Point

record SpanSegment =
  sps_DistanceM :: float64
  sps_Physics :: Segment

record InterStopSpan =
  sn_FromStopID :: string
  sn_ToStopID :: string
  sn_DistanceM :: float64
  sn_FromChainageM :: float64
  sn_ToChainageM :: float64
  sn_Segments :: "SpanSegment list"

record SnappedStop =
  sd_ID :: string
  sd_Point :: Point
  sd_ChainageM :: float64
  sd_OffsetM :: float64

record planarPoint =
  pp_X :: float64
  pp_Y :: float64

record planarLine =
  pl_points :: "planarPoint list"
  pl_chainageM :: "float64 list"
  pl_refLatRad :: float64

record lineSegment =
  ls_StartM :: float64
  ls_EndM :: float64
  ls_Physics :: Segment

datatype project_error =
    LineTooShort nat
  | SegmentCount nat nat
  | TooFewStops nat

definition degToRad :: "float64 \<Rightarrow> float64" where
  "degToRad deg = deg * pi / 180"

definition radToDeg :: "float64 \<Rightarrow> float64" where
  "radToDeg rad = rad * 180 / pi"

definition projectPoint :: "Point \<Rightarrow> float64 \<Rightarrow> planarPoint" where
  "projectPoint p refLatRad =
     \<lparr>pp_X = earthRadiusM * degToRad (pt_Lng p) * cos refLatRad,
      pp_Y = earthRadiusM * degToRad (pt_Lat p)\<rparr>"

definition unprojectPoint :: "planarPoint \<Rightarrow> float64 \<Rightarrow> Point" where
  "unprojectPoint p refLatRad =
     \<lparr>pt_Lng = radToDeg (pp_X p / (earthRadiusM * cos refLatRad)),
      pt_Lat = radToDeg (pp_Y p / earthRadiusM)\<rparr>"

text \<open>\<open>math.Hypot\<close> of the coordinate differences.\<close>

definition planarDist :: "planarPoint \<Rightarrow> planarPoint \<Rightarrow> float64" where
  "planarDist a b = sqrt ((pp_X b - pp_X a)\<^sup>2 + (pp_Y b - pp_Y a)\<^sup>2)"

definition DistanceM :: "Point \<Rightarrow> Point \<Rightarrow> float64" where
  "DistanceM a b =
     (let refLatRad = degToRad ((pt_Lat a + pt_Lat b) / 2)
      in planarDist (projectPoint a refLatRad) (projectPoint b refLatRad))"

text \<open>\<open>chainageM[i] = chainageM[i-1] + planarDist(points[i-1], points[i])\<close>, from 0.\<close>

fun chainages :: "float64 \<Rightarrow> planarPoint list \<Rightarrow> float64 list" where
  "chainages c (p # q # ps) = c # chainages (c + planarDist p q) (q # ps)"
| "chainages c [p] = [c]"
| "chainages c [] = []"

definition projectLinePlanar :: "Point list \<Rightarrow> planarLine" where
  "projectLinePlanar line =
     (let latSum = foldl (\<lambda>s p. s + pt_Lat p) 0 line;
          refLatRad = degToRad (latSum / real (length line));
          points = map (\<lambda>p. projectPoint p refLatRad) line
      in \<lparr>pl_points = points, pl_chainageM = chainages 0 points, pl_refLatRad = refLatRad\<rparr>)"

definition closestPointOnSegment ::
  "planarPoint \<Rightarrow> planarPoint \<Rightarrow> planarPoint \<Rightarrow> float64 \<times> planarPoint" where
  "closestPointOnSegment a b p =
     (let dx = pp_X b - pp_X a; dy = pp_Y b - pp_Y a; lenSq = dx * dx + dy * dy in
      if lenSq = 0 then (0, a)
      else
        let t0 = ((pp_X p - pp_X a) * dx + (pp_Y p - pp_Y a) * dy) / lenSq;
            t = (if t0 < 0 then 0 else if t0 > 1 then 1 else t0)
        in (t, \<lparr>pp_X = pp_X a + t * dx, pp_Y = pp_Y a + t * dy\<rparr>))"

text \<open>
  The loop of \<open>snapPoint\<close> over consecutive vertices with the chainage of the first;
  \<open>best = None\<close> is the initial \<open>math.Inf(1)\<close>.
\<close>

fun snapLoop ::
  "planarPoint \<Rightarrow> planarPoint list \<Rightarrow> float64 list \<Rightarrow> float64 option \<Rightarrow> float64 \<Rightarrow> planarPoint
    \<Rightarrow> float64 \<times> planarPoint" where
  "snapLoop p (a # b # ps) (c # cs) best chainageM snapped =
     (let (t, closest) = closestPointOnSegment a b p; d = planarDist p closest in
      if (case best of None \<Rightarrow> True | Some x \<Rightarrow> d < x)
      then snapLoop p (b # ps) cs (Some d) (c + t * planarDist a b) closest
      else snapLoop p (b # ps) cs best chainageM snapped)"
| "snapLoop p ps cs best chainageM snapped = (chainageM, snapped)"

definition snapPoint :: "planarLine \<Rightarrow> planarPoint \<Rightarrow> float64 \<times> planarPoint" where
  "snapPoint pl p = snapLoop p (pl_points pl) (pl_chainageM pl) None 0 \<lparr>pp_X = 0, pp_Y = 0\<rparr>"

definition snap1 :: "planarLine \<Rightarrow> Stop \<Rightarrow> SnappedStop" where
  "snap1 pl s =
     (let p = projectPoint (stop_Location s) (pl_refLatRad pl);
          (chainageM, snapped) = snapPoint pl p
      in \<lparr>sd_ID = stop_ID s, sd_Point = unprojectPoint snapped (pl_refLatRad pl),
          sd_ChainageM = chainageM, sd_OffsetM = planarDist p snapped\<rparr>)"

definition snap :: "planarLine \<Rightarrow> Stop list \<Rightarrow> SnappedStop list" where
  "snap pl stops = map (snap1 pl) stops"

definition SnapStops :: "Point list \<Rightarrow> Stop list \<Rightarrow> project_error + SnappedStop list" where
  "SnapStops line stops =
     (if length line < 2 then Inl (LineTooShort (length line))
      else Inr (snap (projectLinePlanar line) stops))"

text \<open>
  \<open>chainageM[i]\<close> and \<open>chainageM[i+1]\<close> for each physics segment; the callers pass exactly
  one segment per pair of vertices.
\<close>

fun buildLineSegments :: "float64 list \<Rightarrow> Segment list \<Rightarrow> lineSegment list" where
  "buildLineSegments (c # c' # cs) (seg # segs) =
     \<lparr>ls_StartM = c, ls_EndM = c', ls_Physics = seg\<rparr> # buildLineSegments (c' # cs) segs"
| "buildLineSegments cs segs = []"

fun splitSpan :: "lineSegment list \<Rightarrow> float64 \<Rightarrow> float64 \<Rightarrow> SpanSegment list" where
  "splitSpan [] from to = []"
| "splitSpan (seg # segs) from to =
     (let lo = max (ls_StartM seg) from; hi = min (ls_EndM seg) to in
      if hi - lo \<le> 0 then splitSpan segs from to
      else \<lparr>sps_DistanceM = hi - lo, sps_Physics = ls_Physics seg\<rparr> # splitSpan segs from to)"

fun spansOf :: "lineSegment list \<Rightarrow> SnappedStop list \<Rightarrow> InterStopSpan list" where
  "spansOf lineSegs (from # to # rest) =
     \<lparr>sn_FromStopID = sd_ID from, sn_ToStopID = sd_ID to,
      sn_DistanceM = sd_ChainageM to - sd_ChainageM from,
      sn_FromChainageM = sd_ChainageM from, sn_ToChainageM = sd_ChainageM to,
      sn_Segments = splitSpan lineSegs (sd_ChainageM from) (sd_ChainageM to)\<rparr>
     # spansOf lineSegs (to # rest)"
| "spansOf lineSegs stops = []"

definition zeroSegment :: Segment where
  "zeroSegment = \<lparr>sgm_CantMM = 0, sgm_CurveRadiusM = 0, sgm_GradePct = 0\<rparr>"

definition ProjectStops ::
  "Point list \<Rightarrow> Segment list \<Rightarrow> Stop list \<Rightarrow> project_error + InterStopSpan list" where
  "ProjectStops line physicsSegs stops =
     (if length line < 2 then Inl (LineTooShort (length line))
      else if physicsSegs \<noteq> [] \<and> length physicsSegs \<noteq> length line - 1
      then Inl (SegmentCount (length line - 1) (length physicsSegs))
      else if length stops < 2 then Inl (TooFewStops (length stops))
      else
        let physics = (if physicsSegs = [] then replicate (length line - 1) zeroSegment else physicsSegs);
            pl = projectLinePlanar line;
            lineSegs = buildLineSegments (pl_chainageM pl) physics;
            projected = SliceStable (less_by sd_ChainageM) (snap pl stops)
        in Inr (spansOf lineSegs projected))"

subsection \<open>Distances\<close>

lemma planarDist_nonneg [simp]: "0 \<le> planarDist a b"
  by (simp add: planarDist_def)

lemma planarDist_self [simp]: "planarDist a a = 0"
  by (simp add: planarDist_def)

lemma planarDist_commute: "planarDist a b = planarDist b a"
  by (simp add: planarDist_def power2_commute)

lemma DistanceM_nonneg [simp]: "0 \<le> DistanceM a b"
  by (simp add: DistanceM_def Let_def)

lemma DistanceM_self [simp]: "DistanceM a a = 0"
  by (simp add: DistanceM_def Let_def)

lemma DistanceM_commute: "DistanceM a b = DistanceM b a"
  by (simp add: DistanceM_def Let_def planarDist_commute add.commute)

subsection \<open>The nearest point of a segment\<close>

definition point_at :: "planarPoint \<Rightarrow> planarPoint \<Rightarrow> real \<Rightarrow> planarPoint" where
  "point_at a b s = \<lparr>pp_X = pp_X a + s * (pp_X b - pp_X a), pp_Y = pp_Y a + s * (pp_Y b - pp_Y a)\<rparr>"

lemma point_at_0 [simp]: "point_at a b 0 = a"
  by (simp add: point_at_def)

lemma clamp_nearest:
  fixes t0 s :: real
  assumes "0 \<le> s" and "s \<le> 1" and "t = (if t0 < 0 then 0 else if t0 > 1 then 1 else t0)"
  shows "(t - t0)\<^sup>2 \<le> (s - t0)\<^sup>2"
proof -
  have "\<bar>t - t0\<bar> \<le> \<bar>s - t0\<bar>" using assms by auto
  then show ?thesis by (simp add: abs_le_square_iff)
qed

lemma sq_dist_point_at:
  fixes p a b
  defines "dx \<equiv> pp_X b - pp_X a" and "dy \<equiv> pp_Y b - pp_Y a"
  defines "t0 \<equiv> ((pp_X p - pp_X a) * dx + (pp_Y p - pp_Y a) * dy) / (dx * dx + dy * dy)"
  assumes "dx * dx + dy * dy \<noteq> 0"
  shows "(pp_X (point_at a b s) - pp_X p)\<^sup>2 + (pp_Y (point_at a b s) - pp_Y p)\<^sup>2 =
    (dx * dx + dy * dy) * (s - t0)\<^sup>2 +
      ((pp_X p - pp_X a)\<^sup>2 + (pp_Y p - pp_Y a)\<^sup>2 - (dx * dx + dy * dy) * t0\<^sup>2)"
proof -
  have t0: "(dx * dx + dy * dy) * t0 = (pp_X p - pp_X a) * dx + (pp_Y p - pp_Y a) * dy"
    using assms(4) by (simp add: t0_def)
  have "(dx * dx + dy * dy) * (s - t0)\<^sup>2 - (dx * dx + dy * dy) * t0\<^sup>2 =
      (dx * dx + dy * dy) * s\<^sup>2 - 2 * s * ((dx * dx + dy * dy) * t0)"
    by (simp add: power2_eq_square algebra_simps)
  also have "\<dots> = (dx * dx + dy * dy) * s\<^sup>2 - 2 * s * ((pp_X p - pp_X a) * dx + (pp_Y p - pp_Y a) * dy)"
    by (simp only: t0)
  finally show ?thesis
    by (simp add: point_at_def dx_def [symmetric] dy_def [symmetric] power2_eq_square algebra_simps)
qed

lemma closestPointOnSegment_correct:
  assumes "closestPointOnSegment a b p = (t, c)"
  shows "0 \<le> t" and "t \<le> 1" and "c = point_at a b t"
    and "\<And>s. 0 \<le> s \<Longrightarrow> s \<le> 1 \<Longrightarrow> planarDist p c \<le> planarDist p (point_at a b s)"
proof -
  let ?dx = "pp_X b - pp_X a" and ?dy = "pp_Y b - pp_Y a"
  show "0 \<le> t" "t \<le> 1" and c: "c = point_at a b t"
    using assms by (auto simp: closestPointOnSegment_def point_at_def Let_def split: if_splits)
  show "planarDist p c \<le> planarDist p (point_at a b s)" if s: "0 \<le> s" "s \<le> 1" for s
  proof (cases "?dx * ?dx + ?dy * ?dy = 0")
    case True
    then have "?dx = 0" "?dy = 0" by (simp_all add: sum_squares_eq_zero_iff)
    then show ?thesis by (simp add: c point_at_def)
  next
    case False
    define t0 where "t0 = ((pp_X p - pp_X a) * ?dx + (pp_Y p - pp_Y a) * ?dy) / (?dx * ?dx + ?dy * ?dy)"
    have "t = (if t0 < 0 then 0 else if t0 > 1 then 1 else t0)"
      using assms False by (simp add: closestPointOnSegment_def t0_def Let_def split: if_splits)
    from clamp_nearest [OF s this]
    have "(?dx * ?dx + ?dy * ?dy) * (t - t0)\<^sup>2 \<le> (?dx * ?dx + ?dy * ?dy) * (s - t0)\<^sup>2"
      by (intro mult_left_mono) (auto simp: zero_le_square)
    then show ?thesis
      unfolding planarDist_def c sq_dist_point_at [OF False] t0_def [symmetric] by simp
  qed
qed

subsection \<open>Chainages and snapping\<close>

lemma length_chainages [simp]: "length (chainages c ps) = length ps"
  by (induction c ps rule: chainages.induct) auto

lemma hd_chainages: "ps \<noteq> [] \<Longrightarrow> hd (chainages c ps) = c"
  by (cases "(c, ps)" rule: chainages.cases) auto

lemma chainages_ge: "x \<in> set (chainages c ps) \<Longrightarrow> c \<le> x"
proof (induction c ps arbitrary: x rule: chainages.induct)
  case (1 c p q ps)
  then show ?case by (fastforce intro: order_trans [of c "c + planarDist p q"])
qed auto

lemma sorted_chainages: "sorted (chainages c ps)"
proof (induction c ps rule: chainages.induct)
  case (1 c p q ps)
  then show ?case
    by (fastforce dest: chainages_ge intro: order_trans [of c "c + planarDist p q"])
qed auto

text \<open>The points of a polyline.\<close>

fun on_line :: "planarPoint list \<Rightarrow> planarPoint \<Rightarrow> bool" where
  "on_line (a # b # ps) q \<longleftrightarrow> (\<exists>s. 0 \<le> s \<and> s \<le> 1 \<and> q = point_at a b s) \<or> on_line (b # ps) q"
| "on_line ps q \<longleftrightarrow> False"

lemma last_chainages_ge: "ps \<noteq> [] \<Longrightarrow> c \<le> last (chainages c ps)"
  by (metis chainages_ge last_in_set length_0_conv length_chainages)

text \<open>What the loop returns: the old candidate, or a point of the line at least as near.\<close>

definition snap_post ::
  "planarPoint \<Rightarrow> planarPoint list \<Rightarrow> real \<Rightarrow> real option \<Rightarrow> real \<times> planarPoint \<Rightarrow> real \<times> planarPoint \<Rightarrow> bool" where
  "snap_post p ps c best old r \<longleftrightarrow>
     ((r = old \<and> (best = None \<longrightarrow> length ps < 2)) \<or>
      (on_line ps (snd r) \<and> c \<le> fst r \<and> fst r \<le> last (chainages c ps))) \<and>
     (\<forall>d. best = Some d \<longrightarrow> planarDist p (snd r) \<le> d) \<and>
     (\<forall>q. on_line ps q \<longrightarrow> planarDist p (snd r) \<le> planarDist p q)"

lemma last_chainages_Cons:
  "last (chainages c (a # b # ps)) = last (chainages (c + planarDist a b) (b # ps))"
  by (metis chainages.simps(1) last_ConsR length_0_conv length_chainages list.distinct(1))

lemma snap_post_take:
  assumes C: "closestPointOnSegment a b p = (t, cl)"
    and better: "case best of None \<Rightarrow> True | Some x \<Rightarrow> planarDist p cl < x"
    and post: "snap_post p (b # ps) (c + planarDist a b) (Some (planarDist p cl))
      (c + t * planarDist a b, cl) r"
  shows "snap_post p (a # b # ps) c best old r"
proof -
  note C = closestPointOnSegment_correct [OF C] and c' = last_chainages_ge [of "b # ps" "c + planarDist a b"]
  have step: "c \<le> c + t * planarDist a b" "c + t * planarDist a b \<le> c + planarDist a b"
    using C(1,2) by (simp_all add: mult_left_le_one_le)
  have ge: "c + planarDist a b \<le> x \<Longrightarrow> c \<le> x" for x
    using planarDist_nonneg [of a b] by linarith
  have le: "planarDist p (snd r) \<le> planarDist p cl" using post by (simp add: snap_post_def)
  then have "planarDist p (snd r) \<le> d" if "best = Some d" for d
    using better that by simp
  moreover have "planarDist p (snd r) \<le> planarDist p q" if "on_line (a # b # ps) q" for q
    using that post le C(4) by (fastforce simp: snap_post_def intro: order_trans)
  moreover have "on_line (a # b # ps) (snd r) \<and> c \<le> fst r \<and> fst r \<le> last (chainages c (a # b # ps))"
    using post C(1-3) step c' ge unfolding last_chainages_Cons by (auto simp: snap_post_def)
  ultimately show ?thesis by (simp add: snap_post_def)
qed

lemma snap_post_skip:
  assumes C: "closestPointOnSegment a b p = (t, cl)"
    and worse: "best = Some d" "d \<le> planarDist p cl"
    and post: "snap_post p (b # ps) (c + planarDist a b) best old r"
  shows "snap_post p (a # b # ps) c best old r"
proof -
  have "planarDist p (snd r) \<le> planarDist p q" if "on_line (a # b # ps) q" for q
    using that post worse closestPointOnSegment_correct(4) [OF C]
    by (fastforce simp: snap_post_def intro: order_trans)
  moreover have "c + planarDist a b \<le> x \<Longrightarrow> c \<le> x" for x
    using planarDist_nonneg [of a b] by linarith
  ultimately show ?thesis
    using post worse unfolding snap_post_def last_chainages_Cons by auto
qed

lemma snapLoop_post:
  "(\<And>d. best = Some d \<Longrightarrow> d = planarDist p sn) \<Longrightarrow>
     snap_post p ps c best (ch, sn) (snapLoop p ps (chainages c ps) best ch sn)"
proof (induction c ps arbitrary: best ch sn rule: chainages.induct)
  case (1 c a b ps)
  obtain t cl where cl: "closestPointOnSegment a b p = (t, cl)" by (cases "closestPointOnSegment a b p")
  show ?case
  proof (cases "case best of None \<Rightarrow> True | Some x \<Rightarrow> planarDist p cl < x")
    case True
    from snap_post_take [OF cl this "1.IH"] True cl show ?thesis by simp
  next
    case False
    then obtain d where "best = Some d" "d \<le> planarDist p cl" by (auto split: option.splits)
    from snap_post_skip [OF cl this "1.IH" [OF "1.prems"]] False cl show ?thesis by simp
  qed
qed (auto simp: snap_post_def)

text \<open>Snapping returns a point of the line, no point of the line is nearer.\<close>

lemma snapPoint_nearest:
  assumes "2 \<le> length ps"
    and "snapPoint \<lparr>pl_points = ps, pl_chainageM = chainages 0 ps, pl_refLatRad = r\<rparr> p = (ch, q)"
  shows "on_line ps q" and "0 \<le> ch" and "ch \<le> last (chainages 0 ps)"
    and "\<And>q'. on_line ps q' \<Longrightarrow> planarDist p q \<le> planarDist p q'"
  using snapLoop_post [of None p "\<lparr>pp_X = 0, pp_Y = 0\<rparr>" ps 0 0] assms
  by (auto simp: snapPoint_def snap_post_def)

lemma projectLinePlanar_shape:
  "projectLinePlanar line =
     \<lparr>pl_points = pl_points (projectLinePlanar line),
      pl_chainageM = chainages 0 (pl_points (projectLinePlanar line)),
      pl_refLatRad = pl_refLatRad (projectLinePlanar line)\<rparr>"
  "length (pl_points (projectLinePlanar line)) = length line"
  by (simp_all add: projectLinePlanar_def Let_def)

abbreviation line_length :: "Point list \<Rightarrow> real" where
  "line_length line \<equiv> last (pl_chainageM (projectLinePlanar line))"

lemma snap_chainage_bounds:
  assumes "2 \<le> length line" and "s \<in> set (snap (projectLinePlanar line) stops)"
  shows "0 \<le> sd_ChainageM s" and "sd_ChainageM s \<le> line_length line"
proof -
  from assms(2) obtain st where s: "s = snap1 (projectLinePlanar line) st" by (auto simp: snap_def)
  let ?pl = "projectLinePlanar line"
  obtain ch q where cq: "snapPoint ?pl (projectPoint (stop_Location st) (pl_refLatRad ?pl)) = (ch, q)"
    by (cases "snapPoint ?pl (projectPoint (stop_Location st) (pl_refLatRad ?pl))")
  have len: "2 \<le> length (pl_points ?pl)" using assms(1) projectLinePlanar_shape(2) by simp
  note B = snapPoint_nearest [OF len, of "pl_refLatRad ?pl", folded projectLinePlanar_shape(1), OF cq]
  have "pl_chainageM ?pl = chainages 0 (pl_points ?pl)" by (simp add: projectLinePlanar_def Let_def)
  with s cq B(2,3) show "0 \<le> sd_ChainageM s" and "sd_ChainageM s \<le> line_length line"
    by (simp_all add: snap1_def Let_def)
qed

subsection \<open>Spans\<close>

lemma splitSpan_pos: "x \<in> set (splitSpan segs from to) \<Longrightarrow> 0 < sps_DistanceM x"
  by (induction segs "from" to rule: splitSpan.induct) (auto simp: Let_def split: if_splits)

lemma overlap_add:
  fixes c c' e :: real
  assumes "c \<le> c'" and "c' \<le> e"
  shows "max 0 (min c' to - max c from) + max 0 (min e to - max c' from) = max 0 (min e to - max c from)"
  using assms by (auto simp: max_def min_def)

lemma splitSpan_sum:
  assumes "length cs = Suc (length segs)" and "sorted cs"
  shows "sum_list (map sps_DistanceM (splitSpan (buildLineSegments cs segs) from to)) =
    max 0 (min (last cs) to - max (hd cs) from)"
  using assms
proof (induction cs segs rule: buildLineSegments.induct)
  case (1 c c' cs seg segs)
  then have IH: "sum_list (map sps_DistanceM (splitSpan (buildLineSegments (c' # cs) segs) from to)) =
      max 0 (min (last (c' # cs)) to - max c' from)" by simp
  have le: "c \<le> c'" "c' \<le> last (c' # cs)" using "1.prems"(2) by auto
  have "sum_list (map sps_DistanceM (splitSpan (buildLineSegments (c # c' # cs) (seg # segs)) from to)) =
      max 0 (min c' to - max c from) + max 0 (min (last (c' # cs)) to - max c' from)"
    using IH by (cases "min c' to \<le> max c from") (simp_all add: Let_def max.absorb1 max.absorb2)
  also have "\<dots> = max 0 (min (last (c' # cs)) to - max c from)"
    using le by (rule overlap_add)
  finally show ?case by simp
qed (auto simp: length_Suc_conv max_def min_def)

lemma spansOf_nth:
  "length (spansOf ls ss) = length ss - 1"
  "Suc i < length ss \<Longrightarrow> spansOf ls ss ! i =
     \<lparr>sn_FromStopID = sd_ID (ss ! i), sn_ToStopID = sd_ID (ss ! Suc i),
      sn_DistanceM = sd_ChainageM (ss ! Suc i) - sd_ChainageM (ss ! i),
      sn_FromChainageM = sd_ChainageM (ss ! i), sn_ToChainageM = sd_ChainageM (ss ! Suc i),
      sn_Segments = splitSpan ls (sd_ChainageM (ss ! i)) (sd_ChainageM (ss ! Suc i))\<rparr>"
proof -
  show "length (spansOf ls ss) = length ss - 1"
    by (induction ls ss rule: spansOf.induct) auto
  show "Suc i < length ss \<Longrightarrow> spansOf ls ss ! i =
     \<lparr>sn_FromStopID = sd_ID (ss ! i), sn_ToStopID = sd_ID (ss ! Suc i),
      sn_DistanceM = sd_ChainageM (ss ! Suc i) - sd_ChainageM (ss ! i),
      sn_FromChainageM = sd_ChainageM (ss ! i), sn_ToChainageM = sd_ChainageM (ss ! Suc i),
      sn_Segments = splitSpan ls (sd_ChainageM (ss ! i)) (sd_ChainageM (ss ! Suc i))\<rparr>"
    by (induction ls ss arbitrary: i rule: spansOf.induct) (auto simp: nth_Cons split: nat.splits)
qed

text \<open>What \<open>ProjectStops\<close> returns when its guards pass.\<close>

lemma ProjectStops_Inr:
  assumes "ProjectStops line psegs stops = Inr spans"
  obtains ss ls where
    "spans = spansOf ls ss" and "2 \<le> length line" and "2 \<le> length ss"
    and "mset ss = mset (snap (projectLinePlanar line) stops)"
    and "sorted (map sd_ChainageM ss)"
    and "\<And>a b. sum_list (map sps_DistanceM (splitSpan ls a b)) =
      max 0 (min (line_length line) b - max 0 a)"
proof -
  let ?pl = "projectLinePlanar line"
  define phys where "phys = (if psegs = [] then replicate (length line - 1) zeroSegment else psegs)"
  define ss where "ss = SliceStable (less_by sd_ChainageM) (snap ?pl stops)"
  have g: "2 \<le> length line" "2 \<le> length stops" "length phys = length line - 1"
    and sp: "spans = spansOf (buildLineSegments (pl_chainageM ?pl) phys) ss"
    using assms by (auto simp: ProjectStops_def phys_def ss_def Let_def split: if_splits)
  have ch: "pl_chainageM ?pl = chainages 0 (pl_points ?pl)"
    and len: "length (pl_points ?pl) = length line"
    by (simp_all add: projectLinePlanar_def Let_def)
  have "sum_list (map sps_DistanceM (splitSpan (buildLineSegments (pl_chainageM ?pl) phys) a b)) =
      max 0 (min (line_length line) b - max (hd (pl_chainageM ?pl)) a)" for a b
    by (rule splitSpan_sum) (use g len ch in \<open>auto simp: sorted_chainages\<close>)
  moreover have "hd (pl_chainageM ?pl) = 0" unfolding ch using g len by (intro hd_chainages) auto
  moreover have "mset ss = mset (snap ?pl stops)" "sorted (map sd_ChainageM ss)"
    by (simp_all add: ss_def sorted_SliceStable_by)
  moreover have "2 \<le> length ss" using g by (simp add: ss_def snap_def)
  ultimately show ?thesis using that sp g(1) by simp
qed

text \<open>
  Every span: its chainages are ordered and on the line, its distance is their difference,
  and the track segments it runs over add up to exactly that distance.
\<close>

lemma ProjectStops_span:
  assumes "ProjectStops line psegs stops = Inr spans" and "sp \<in> set spans"
  shows "0 \<le> sn_FromChainageM sp" and "sn_FromChainageM sp \<le> sn_ToChainageM sp"
    and "sn_ToChainageM sp \<le> line_length line"
    and "sn_DistanceM sp = sn_ToChainageM sp - sn_FromChainageM sp"
    and "sum_list (map sps_DistanceM (sn_Segments sp)) = sn_DistanceM sp"
    and "\<forall>seg \<in> set (sn_Segments sp). 0 < sps_DistanceM seg"
proof -
  obtain ss ls where P: "spans = spansOf ls ss" "2 \<le> length line" "2 \<le> length ss"
    "mset ss = mset (snap (projectLinePlanar line) stops)" "sorted (map sd_ChainageM ss)"
    "\<And>a b. sum_list (map sps_DistanceM (splitSpan ls a b)) = max 0 (min (line_length line) b - max 0 a)"
    using assms(1) by (rule ProjectStops_Inr) blast
  from assms(2) P(1) obtain i where i: "Suc i < length ss" "sp = spansOf ls ss ! i"
    by (auto simp: in_set_conv_nth spansOf_nth(1) less_diff_conv)
  note sp = spansOf_nth(2) [OF i(1), of ls, folded i(2)]
  have in_snap: "ss ! j \<in> set (snap (projectLinePlanar line) stops)" if "j < length ss" for j
    using that P(4) by (metis nth_mem set_mset_mset)
  have le: "sd_ChainageM (ss ! i) \<le> sd_ChainageM (ss ! Suc i)"
    using P(5) i(1) by (simp add: sorted_iff_nth_mono)
  note b0 = snap_chainage_bounds [OF P(2) in_snap [of i]] and b1 = snap_chainage_bounds [OF P(2) in_snap [OF i(1)]]
  show "0 \<le> sn_FromChainageM sp" "sn_FromChainageM sp \<le> sn_ToChainageM sp"
    "sn_ToChainageM sp \<le> line_length line" "sn_DistanceM sp = sn_ToChainageM sp - sn_FromChainageM sp"
    using le b0 b1 i(1) by (simp_all add: sp)
  show "sum_list (map sps_DistanceM (sn_Segments sp)) = sn_DistanceM sp"
    using le b0 b1 i(1) by (simp add: sp P(6))
  show "\<forall>seg \<in> set (sn_Segments sp). 0 < sps_DistanceM seg"
    by (auto simp: sp dest: splitSpan_pos)
qed

text \<open>A span of positive length runs over at least one track segment.\<close>

lemma ProjectStops_span_segments:
  assumes "ProjectStops line psegs stops = Inr spans" and "sp \<in> set spans" and "0 < sn_DistanceM sp"
  shows "sn_Segments sp \<noteq> []"
  using ProjectStops_span(5) [OF assms(1,2)] assms(3) by auto

subsection \<open>Properties\<close>



text \<open>
  C10: Snapping picks a nearest point: no point of the planar polyline is nearer to the given
  point than the one returned, and the returned chainage lies between 0 and the line's length.
\<close>

theorem snapPoint_is_nearest:
  assumes "2 \<le> length ps" and "snapPoint \<lparr>pl_points = ps, pl_chainageM = chainages 0 ps, pl_refLatRad = r\<rparr> p = (ch, q)"
  shows "on_line ps q \<and> (\<forall>z. on_line ps z \<longrightarrow> planarDist p q \<le> planarDist p z) \<and>
    0 \<le> ch \<and> ch \<le> last (chainages 0 ps)"
  using snapPoint_nearest [OF assms(1,2)] by blast

lemma snapPoint_is_nearest_witness:
  "\<exists>ch q. snapPoint \<lparr>pl_points = [\<lparr>pp_X = 0, pp_Y = 0\<rparr>, \<lparr>pp_X = 2, pp_Y = 0\<rparr>],
       pl_chainageM = chainages 0 [\<lparr>pp_X = 0, pp_Y = 0\<rparr>, \<lparr>pp_X = 2, pp_Y = 0\<rparr>], pl_refLatRad = 0\<rparr>
       \<lparr>pp_X = 1, pp_Y = 1\<rparr> = (ch, q) \<and>
     planarDist \<lparr>pp_X = 1, pp_Y = 1\<rparr> q \<le> planarDist \<lparr>pp_X = 1, pp_Y = 1\<rparr> \<lparr>pp_X = 0, pp_Y = 0\<rparr>"
proof -
  let ?ps = "[\<lparr>pp_X = 0, pp_Y = 0\<rparr>, \<lparr>pp_X = 2, pp_Y = 0\<rparr>]"
  let ?pl = "\<lparr>pl_points = ?ps, pl_chainageM = chainages 0 ?ps, pl_refLatRad = 0\<rparr>"
  obtain ch q where snap: "snapPoint ?pl \<lparr>pp_X = 1, pp_Y = 1\<rparr> = (ch, q)"
    by (cases "snapPoint ?pl \<lparr>pp_X = 1, pp_Y = 1\<rparr>")
  have "on_line ?ps \<lparr>pp_X = 0, pp_Y = 0\<rparr>" by (auto simp: point_at_def intro!: exI [of _ 0])
  moreover have "2 \<le> length ?ps" by simp
  ultimately show ?thesis using snapPoint_is_nearest [OF _ snap] snap by blast
qed

end
