(* ===== verification/Route_Line.thy ===== *)
theory Route_Line
  imports Projection Transit_Types
begin

text \<open>
  From a stored route to the physics engine's inputs (\<open>internal/transit/compile_physics.go\<close>:
  \<open>ToPhysicsLine\<close>, \<open>toPhysicsSegments\<close>) and the off-route threshold of
  \<open>internal/transit/snap.go\<close>. A coordinate with fewer than two numbers makes the source's
  \<open>c[0]\<close> or \<open>c[1]\<close> panic; that panic is the error value \<open>CoordinatePanic\<close>.
\<close>

definition OffRouteThresholdM :: float64 where
  "OffRouteThresholdM = 500"

datatype line_error =
    TooFewGeometryPoints nat
  | CoordinatePanic
  | SegmentCountMismatch nat nat

definition toPoint :: "float64 list \<Rightarrow> line_error + Point" where
  "toPoint c = (case c of lng # lat # _ \<Rightarrow> Inr \<lparr>pt_Lng = lng, pt_Lat = lat\<rparr> | _ \<Rightarrow> Inl CoordinatePanic)"

definition ToPhysicsLine :: "GeoLineString \<Rightarrow> line_error + Point list" where
  "ToPhysicsLine g =
     (if length (gl_Coordinates g) < 2 then Inl (TooFewGeometryPoints (length (gl_Coordinates g)))
      else map_res toPoint (gl_Coordinates g))"

definition toPhysicsSegment :: "RouteSegment \<Rightarrow> Segment" where
  "toPhysicsSegment s =
     \<lparr>sgm_CantMM = rs_CantMM s, sgm_CurveRadiusM = rs_CurveRadiusM s, sgm_GradePct = rs_GradePct s\<rparr>"

definition toPhysicsSegments :: "RouteSegment list \<Rightarrow> nat \<Rightarrow> line_error + Segment list" where
  "toPhysicsSegments segs lineLen =
     (if segs = [] then Inr []
      else if length segs \<noteq> lineLen - 1 then Inl (SegmentCountMismatch (length segs) lineLen)
      else Inr (map toPhysicsSegment segs))"

lemma ToPhysicsLine_length:
  "ToPhysicsLine g = Inr line \<Longrightarrow> length line = length (gl_Coordinates g) \<and> 2 \<le> length line"
  by (auto simp: ToPhysicsLine_def map_res_length split: if_splits)

lemma toPoint_total: "2 \<le> length c \<Longrightarrow> \<exists>p. toPoint c = Inr p"
  by (cases c; cases "tl c") (auto simp: toPoint_def)

lemma ToPhysicsLine_total:
  assumes "2 \<le> length (gl_Coordinates g)" and "\<forall>c \<in> set (gl_Coordinates g). 2 \<le> length c"
  shows "\<exists>line. ToPhysicsLine g = Inr line"
proof -
  have "\<exists>line. map_res toPoint (gl_Coordinates g) = Inr line"
    using assms(2) by (intro map_res_total toPoint_total) blast
  with assms(1) show ?thesis by (simp add: ToPhysicsLine_def)
qed

lemma toPhysicsSegments_length:
  "toPhysicsSegments segs n = Inr out \<Longrightarrow> out = [] \<or> length out = n - 1"
  by (auto simp: toPhysicsSegments_def split: if_splits)

end
