(* ===== verification/Threading.thy ===== *)
theory Threading
  imports Prelude
begin

text \<open>
  Loops that thread a mutable value (a cache, a store) through fallible steps, and the contract
  under which that value is only an optimisation: as long as the state is consistent, every step
  returns what a stateless reference returns and leaves a consistent state.
\<close>

definition agrees :: "('s \<Rightarrow> bool) \<Rightarrow> 'e + 's \<times> 'b \<Rightarrow> 'e + 'b \<Rightarrow> bool" where
  "agrees ok r q \<longleftrightarrow> (case r of Inl e \<Rightarrow> q = Inl e | Inr (s, b) \<Rightarrow> ok s \<and> q = Inr b)"

lemma agrees_simps [simp, go_simps]:
  "agrees ok (Inl e) q \<longleftrightarrow> q = Inl e"
  "agrees ok (Inr (s, b)) q \<longleftrightarrow> ok s \<and> q = Inr b"
  by (simp_all add: agrees_def)

lemma agrees_bind:
  assumes "agrees ok r q" and "\<And>s b. ok s \<Longrightarrow> q = Inr b \<Longrightarrow> agrees ok (f (s, b)) (g b)"
  shows "agrees ok (bind_res r f) (bind_res q g)"
  using assms by (cases r) (auto split: prod.splits)

lemma agrees_pure_bind:
  assumes "\<And>x. r = Inr x \<Longrightarrow> agrees ok (f x) (g x)"
  shows "agrees ok (bind_res r f) (bind_res r g)"
  using assms by (cases r) auto

fun map_step :: "('s \<Rightarrow> 'a \<Rightarrow> 'e + 's \<times> 'b) \<Rightarrow> 's \<Rightarrow> 'a list \<Rightarrow> 'e + 's \<times> 'b list" where
  "map_step step s [] = Inr (s, [])"
| "map_step step s (x # xs) =
     bind_res (step s x) (\<lambda>(s', y). bind_res (map_step step s' xs) (\<lambda>(s'', ys). Inr (s'', y # ys)))"

locale transparent_step =
  fixes step :: "'s \<Rightarrow> 'a \<Rightarrow> 'e + 's \<times> 'b"
    and reference :: "'a \<Rightarrow> 'e + 'b"
    and ok :: "'s \<Rightarrow> bool"
  assumes step_agrees: "ok s \<Longrightarrow> agrees ok (step s a) (reference a)"
begin

lemma map_step_agrees: "ok s \<Longrightarrow> agrees ok (map_step step s xs) (map_res reference xs)"
proof (induction xs arbitrary: s)
  case (Cons x xs)
  show ?case unfolding map_step.simps map_res.simps
  proof (rule agrees_bind [OF step_agrees [OF Cons.prems]])
    fix s' y
    assume "ok s'"
    from agrees_bind [OF Cons.IH [OF this], of "\<lambda>(s'', ys). Inr (s'', y # ys)" "\<lambda>ys. Inr (y # ys)"]
    show "agrees ok (case (s', y) of (s', y) \<Rightarrow>
        bind_res (map_step step s' xs) (\<lambda>(s'', ys). Inr (s'', y # ys)))
        (bind_res (map_res reference xs) (\<lambda>ys. Inr (y # ys)))" by simp
  qed
qed simp

lemma map_step_result:
  "ok s \<Longrightarrow> bind_res (map_step step s xs) (\<lambda>(s', ys). Inr ys) = map_res reference xs"
  using map_step_agrees [of s xs]
  by (cases "map_step step s xs") auto

end

end
