(* ===== verification/Seeded_Compile.thy ===== *)
theory Seeded_Compile
  imports Boarding_Wait Segment_Graph Route_Line Threading
begin

text \<open>
  The table compiler for seeded scenarios: \<open>internal/transit/compile.go\<close>
  (\<open>Compile\<close> and its helpers) and \<open>internal/transit/compile_placement.go\<close> (the
  \<open>routePlacer\<close>, whose chainage cache is threaded through the loop as the source mutates it).

  \<open>sort.Slice\<close> on the stop sequence is modelled by the stable sort: the sequence is part of
  the primary key of \<open>service_stops\<close>, so no two stops of a service compare equal and every
  correct sort returns the same slice.
\<close>

datatype compile_error =
    SegmentTable segment_error
  | StationNoLocation string "float64 list"
  | StationBadRouting string "float64 list"
  | UnknownVehicle string string
  | UnknownStation string string
  | NotOnPath string string
  | BadWait string wait_error
  | NoPath string segment_error
  | GeometryPanic string

definition placeEdge :: "Edge \<Rightarrow> string \<Rightarrow> float64 \<Rightarrow> float64 \<Rightarrow> Edge" where
  "placeEdge e routeID fromChainageM toChainageM =
     e\<lparr>e_RouteID := routeID, e_FromChainageM := fromChainageM, e_ToChainageM := toChainageM\<rparr>"

subsection \<open>Placing a hop on its route\<close>

record routePlacer =
  rp_routesByID :: "string \<rightharpoonup> Route"
  rp_stationsBySlug :: "string \<rightharpoonup> Station"
  rp_segRoutes :: "string \<times> string \<rightharpoonup> string"
  rp_chainage :: "string \<rightharpoonup> (string \<rightharpoonup> float64)"

definition stationPairKey :: "string \<Rightarrow> string \<Rightarrow> string \<times> string" where
  "stationPairKey a b = (if b < a then (b, a) else (a, b))"

definition newRoutePlacer :: "Route list \<Rightarrow> (string \<rightharpoonup> Station) \<Rightarrow> TravelTimes \<Rightarrow> routePlacer" where
  "newRoutePlacer routes stationsBySlug tt =
     \<lparr>rp_routesByID = index_by rt_ID routes,
      rp_stationsBySlug = stationsBySlug,
      rp_segRoutes = map_option seg_RouteID \<circ>
        index_by (\<lambda>seg. stationPairKey (seg_FromSlug seg) (seg_ToSlug seg)) (tt_Segments tt),
      rp_chainage = Map.empty\<rparr>"

text \<open>
  The chainages of every located station on one route. The source snaps the stations in
  map order and files each result under its slug, so the table is pointwise in the slug.
\<close>

definition stationStop :: "string \<Rightarrow> Station \<Rightarrow> Stop option" where
  "stationStop slug st =
     (case gp_Coordinates (st_Location st) of
        lng # lat # _ \<Rightarrow> Some \<lparr>stop_ID = slug, stop_Location = \<lparr>pt_Lng = lng, pt_Lat = lat\<rparr>\<rparr>
      | _ \<Rightarrow> None)"

definition stationChainage :: "Point list \<Rightarrow> (string \<rightharpoonup> Station) \<Rightarrow> string \<rightharpoonup> float64" where
  "stationChainage line stationsBySlug slug =
     (case Option.bind (stationsBySlug slug) (stationStop slug) of
        None \<Rightarrow> None
      | Some stop \<Rightarrow>
          (case SnapStops line [stop] of
             Inr (s # _) \<Rightarrow> if sd_OffsetM s \<le> OffRouteThresholdM then Some (sd_ChainageM s) else None
           | _ \<Rightarrow> None))"

definition routeChainages ::
  "(string \<rightharpoonup> Route) \<Rightarrow> (string \<rightharpoonup> Station) \<Rightarrow> string \<Rightarrow> compile_error + (string \<rightharpoonup> float64)" where
  "routeChainages routesByID stationsBySlug routeID =
     (case routesByID routeID of
        None \<Rightarrow> Inr Map.empty
      | Some rt \<Rightarrow>
          (case ToPhysicsLine (rt_Geometry rt) of
             Inl CoordinatePanic \<Rightarrow> Inl (GeometryPanic routeID)
           | Inl _ \<Rightarrow> Inr Map.empty
           | Inr line \<Rightarrow> Inr (stationChainage line stationsBySlug)))"

definition chainagesOn ::
  "routePlacer \<Rightarrow> string \<Rightarrow> compile_error + routePlacer \<times> (string \<rightharpoonup> float64)" where
  "chainagesOn p routeID =
     (case rp_chainage p routeID of
        Some cached \<Rightarrow> Inr (p, cached)
      | None \<Rightarrow>
          bind_res (routeChainages (rp_routesByID p) (rp_stationsBySlug p) routeID) (\<lambda>byStation.
            Inr (p\<lparr>rp_chainage := (rp_chainage p)(routeID \<mapsto> byStation)\<rparr>, byStation)))"

fun pathRoute :: "(string \<times> string \<rightharpoonup> string) \<Rightarrow> string \<Rightarrow> string list \<Rightarrow> string option" where
  "pathRoute segRoutes routeID (a # b # rest) =
     (let id = (case segRoutes (stationPairKey a b) of None \<Rightarrow> [] | Some r \<Rightarrow> r) in
      if id = [] then None
      else if routeID = [] then pathRoute segRoutes id (b # rest)
      else if routeID \<noteq> id then None
      else pathRoute segRoutes routeID (b # rest))"
| "pathRoute segRoutes routeID path = Some routeID"

type_synonym placement = "(string \<times> float64 \<times> float64) option"

definition endChainages :: "string \<Rightarrow> (string \<rightharpoonup> float64) \<Rightarrow> string list \<Rightarrow> placement" where
  "endChainages routeID byStation path =
     (case (byStation (hd path), byStation (last path)) of
        (Some from, Some to) \<Rightarrow> Some (routeID, from, to)
      | _ \<Rightarrow> None)"

definition place :: "routePlacer \<Rightarrow> string list \<Rightarrow> compile_error + routePlacer \<times> placement" where
  "place p path =
     (if length path < 2 then Inr (p, None)
      else (case pathRoute (rp_segRoutes p) [] path of
              None \<Rightarrow> Inr (p, None)
            | Some routeID \<Rightarrow>
                bind_res (chainagesOn p routeID) (\<lambda>(p', byStation).
                  Inr (p', endChainages routeID byStation path))))"

subsection \<open>Nodes and dwells\<close>

definition seededNode :: "Station \<Rightarrow> compile_error + GraphNode" where
  "seededNode st =
     (case gp_Coordinates (st_Location st) of
        [lng, lat] \<Rightarrow>
          let node = \<lparr>gn_Slug = st_Slug st, gn_Lat = lat, gn_Lng = lng,
                      gn_RoutingLat = None, gn_RoutingLng = None, gn_Names = [st_Name st]\<rparr>
          in (case st_RoutingLocation st of
                None \<Rightarrow> Inr node
              | Some rl \<Rightarrow>
                  (case gp_Coordinates rl of
                     [rlng, rlat] \<Rightarrow> Inr (node\<lparr>gn_RoutingLat := Some rlat, gn_RoutingLng := Some rlng\<rparr>)
                   | cs \<Rightarrow> Inl (StationBadRouting (st_Slug st) cs)))
      | cs \<Rightarrow> Inl (StationNoLocation (st_Slug st) cs))"

definition seededNodes :: "Station list \<Rightarrow> compile_error + GraphNode list" where
  "seededNodes stations = map_res seededNode stations"

definition CompiledServiceIDs :: "TransitGraph \<Rightarrow> string list" where
  "CompiledServiceIDs g = map sg_ServiceID (tg_Services g)"

definition resolveDwell :: "ServiceStop \<Rightarrow> Station \<Rightarrow> VehicleType \<Rightarrow> int" where
  "resolveDwell stop st vt =
     (case ss_DwellS stop of
        Some n \<Rightarrow> n
      | None \<Rightarrow> if st_PlatformHeight st = vt_FloorHeight vt then vt_DwellLevelS vt else vt_DwellStepS vt)"

text \<open>Go's zero \<open>Station\<close>: what \<open>stationsBySlug[slug]\<close> yields for an absent slug.\<close>

definition zeroStation :: Station where
  "zeroStation =
     \<lparr>st_ID = [], st_ScenarioID = [], st_OwnerID = None, st_Slug = [], st_Name = [],
      st_Location = \<lparr>gp_Type = [], gp_Coordinates = []\<rparr>, st_RoutingLocation = None,
      st_PlatformHeight = []\<rparr>"

definition stationAt :: "(string \<rightharpoonup> Station) \<Rightarrow> string \<Rightarrow> Station" where
  "stationAt stationsBySlug slug =
     (case stationsBySlug slug of None \<Rightarrow> zeroStation | Some st \<Rightarrow> st)"

definition slugDwell ::
  "(string \<rightharpoonup> Station) \<Rightarrow> (string \<rightharpoonup> ServiceStop) \<Rightarrow> VehicleType \<Rightarrow> string \<Rightarrow> int" where
  "slugDwell stationsBySlug stopByStationID vt slug =
     (let st = stationAt stationsBySlug slug in
      case stopByStationID (st_ID st) of None \<Rightarrow> 0 | Some stop \<Rightarrow> resolveDwell stop st vt)"

text \<open>\<open>path[1:]\<close>: the callers pass a path of the hop search, which is never empty.\<close>

fun dwellLoop :: "(string \<Rightarrow> int) \<Rightarrow> int \<Rightarrow> string list \<Rightarrow> int" where
  "dwellLoop dwell acc [] = acc"
| "dwellLoop dwell acc (slug # slugs) = dwellLoop dwell (acc + dwell slug) slugs"

definition pathDwellSecs ::
  "string list \<Rightarrow> (string \<rightharpoonup> Station) \<Rightarrow> (string \<rightharpoonup> ServiceStop) \<Rightarrow> VehicleType \<Rightarrow> int" where
  "pathDwellSecs path stationsBySlug stopByStationID vt =
     dwellLoop (slugDwell stationsBySlug stopByStationID vt) 0 (tl path)"

subsection \<open>Compile\<close>

text \<open>The locals \<open>Compile\<close> fixes before its loop over the services.\<close>

record compileEnv =
  ce_stationsByID :: "string \<rightharpoonup> Station"
  ce_stationsBySlug :: "string \<rightharpoonup> Station"
  ce_vehiclesByID :: "string \<rightharpoonup> VehicleType"
  ce_adj :: seg_adj
  ce_onPath :: "string set"
  ce_boardingWait :: BoardingWaitPolicy

fun resolveStops ::
  "compileEnv \<Rightarrow> string \<Rightarrow> ServiceStop list \<Rightarrow> (string \<rightharpoonup> ServiceStop)
    \<Rightarrow> compile_error + string list \<times> (string \<rightharpoonup> ServiceStop)" where
  "resolveStops env svcID [] stopByStationID = Inr ([], stopByStationID)"
| "resolveStops env svcID (stop # stops) stopByStationID =
     (case ce_stationsByID env (ss_StationID stop) of
        None \<Rightarrow> Inl (UnknownStation svcID (ss_StationID stop))
      | Some st \<Rightarrow>
          if st_Slug st \<notin> ce_onPath env then Inl (NotOnPath svcID (st_Slug st))
          else bind_res (resolveStops env svcID stops (stopByStationID(ss_StationID stop \<mapsto> stop)))
                 (\<lambda>(slugs, m). Inr (st_Slug st # slugs, m)))"

definition newEdge :: "string \<Rightarrow> string \<Rightarrow> int \<Rightarrow> int \<Rightarrow> Edge" where
  "newEdge from to secs dwell =
     \<lparr>e_FromSlug = from, e_ToSlug = to, e_Seconds = secs, e_DwellS = dwell,
      e_RouteID = [], e_FromChainageM = 0, e_ToChainageM = 0\<rparr>"

definition placePair :: "placement \<Rightarrow> Edge \<times> Edge \<Rightarrow> Edge \<times> Edge" where
  "placePair placed pair =
     (case placed of
        None \<Rightarrow> pair
      | Some (routeID, fromChainageM, toChainageM) \<Rightarrow>
          (placeEdge (fst pair) routeID fromChainageM toChainageM,
           placeEdge (snd pair) routeID toChainageM fromChainageM))"

definition hopPair ::
  "compileEnv \<Rightarrow> (string \<rightharpoonup> ServiceStop) \<Rightarrow> VehicleType \<Rightarrow> string \<Rightarrow> string \<Rightarrow> int \<Rightarrow> string list
    \<Rightarrow> Edge \<times> Edge" where
  "hopPair env stopByStationID vt fromSlug toSlug runSecs path =
     (let revPath = reversePath path;
          revRunSecs = pathRunSeconds (ce_adj env) revPath;
          fwdDwell = pathDwellSecs path (ce_stationsBySlug env) stopByStationID vt;
          revDwell = pathDwellSecs revPath (ce_stationsBySlug env) stopByStationID vt
      in (newEdge fromSlug toSlug (runSecs + fwdDwell) fwdDwell,
          newEdge toSlug fromSlug (revRunSecs + revDwell) revDwell))"

fun hopEdges ::
  "compileEnv \<Rightarrow> string \<Rightarrow> (string \<rightharpoonup> ServiceStop) \<Rightarrow> VehicleType \<Rightarrow> routePlacer \<Rightarrow> string list
    \<Rightarrow> compile_error + routePlacer \<times> Edge list" where
  "hopEdges env svcID stopByStationID vt placer (fromSlug # toSlug # rest) =
     bind_res (wrap_err (NoPath svcID) (segmentPathSeconds (ce_adj env) fromSlug toSlug)) (\<lambda>(runSecs, path).
     bind_res (place placer path) (\<lambda>(placer', placed).
       let (fwd, rev) = placePair placed (hopPair env stopByStationID vt fromSlug toSlug runSecs path)
       in bind_res (hopEdges env svcID stopByStationID vt placer' (toSlug # rest)) (\<lambda>(placer'', es).
            Inr (placer'', fwd # rev # es))))"
| "hopEdges env svcID stopByStationID vt placer slugs = Inr (placer, [])"

definition serviceHead :: "compileEnv \<Rightarrow> Service \<Rightarrow>
    compile_error + VehicleType \<times> string list \<times> (string \<rightharpoonup> ServiceStop) \<times> ServiceGraph" where
  "serviceHead env svc =
     (case ce_vehiclesByID env (svc_VehicleTypeID svc) of
        None \<Rightarrow> Inl (UnknownVehicle (svc_ID svc) (svc_VehicleTypeID svc))
      | Some vt \<Rightarrow>
          bind_res (resolveStops env (svc_ID svc) (SliceStable (less_by ss_Sequence) (svc_Stops svc)) Map.empty)
            (\<lambda>(slugs, stopByStationID).
          bind_res (wrap_err (BadWait (svc_ID svc))
            (ResolveBoardingWait (svc_BoardingWait svc) None (ce_boardingWait env))) (\<lambda>(policy, _).
          bind_res (wrap_err (BadWait (svc_ID svc))
            (applyBoardingWait \<lparr>sg_ServiceID = svc_ID svc, sg_Edges = [], sg_WaitSecs = 0, sg_WaitPolicy = []\<rparr>
               policy (svc_FrequencyWindows svc))) (\<lambda>sg.
            Inr (vt, slugs, stopByStationID, sg)))))"

definition compileService ::
  "compileEnv \<Rightarrow> routePlacer \<Rightarrow> Service \<Rightarrow> compile_error + routePlacer \<times> ServiceGraph" where
  "compileService env placer svc =
     bind_res (serviceHead env svc) (\<lambda>(vt, slugs, stopByStationID, sg).
     bind_res (hopEdges env (svc_ID svc) stopByStationID vt placer slugs) (\<lambda>(placer', edges).
       Inr (placer', sg\<lparr>sg_Edges := edges\<rparr>)))"

fun compileServices ::
  "compileEnv \<Rightarrow> routePlacer \<Rightarrow> Service list \<Rightarrow> compile_error + ServiceGraph list" where
  "compileServices env placer [] = Inr []"
| "compileServices env placer (svc # svcs) =
     (if \<not> svc_Active svc then compileServices env placer svcs
      else bind_res (compileService env placer svc) (\<lambda>(placer', sg).
           bind_res (compileServices env placer' svcs) (\<lambda>sgs. Inr (sg # sgs))))"

definition Compile ::
  "Scenario \<Rightarrow> Route list \<Rightarrow> Station list \<Rightarrow> Service list \<Rightarrow> VehicleType list \<Rightarrow> TravelTimes
    \<Rightarrow> BoardingWaitPolicy \<Rightarrow> compile_error + TransitGraph" where
  "Compile sc routes stations services vehicleTypes segmentRunTimes boardingWait =
     (let stationsBySlug = index_by st_Slug stations in
      bind_res (wrap_err SegmentTable (buildSegmentAdj segmentRunTimes stationsBySlug)) (\<lambda>(adj, onPath).
      bind_res (seededNodes stations) (\<lambda>nodes.
        let env = \<lparr>ce_stationsByID = index_by st_ID stations, ce_stationsBySlug = stationsBySlug,
                   ce_vehiclesByID = index_by vt_ID vehicleTypes, ce_adj = adj, ce_onPath = onPath,
                   ce_boardingWait = boardingWait\<rparr>;
            placer = newRoutePlacer routes stationsBySlug segmentRunTimes
        in bind_res (compileServices env placer services) (\<lambda>sgs.
             Inr \<lparr>tg_Services = sgs, tg_Merge = \<lparr>mr_Clusters = [], mr_NearMisses = []\<rparr>, tg_Nodes = nodes\<rparr>))))"

subsection \<open>The chainage cache is transparent\<close>

text \<open>
  The reference: a placement computed from the routes, the stations and the segment table alone.
\<close>

definition placeUncached ::
  "(string \<rightharpoonup> Route) \<Rightarrow> (string \<rightharpoonup> Station) \<Rightarrow> (string \<times> string \<rightharpoonup> string) \<Rightarrow> string list
    \<Rightarrow> compile_error + placement" where
  "placeUncached R S G path =
     (if length path < 2 then Inr None
      else (case pathRoute G [] path of
              None \<Rightarrow> Inr None
            | Some routeID \<Rightarrow>
                bind_res (routeChainages R S routeID) (\<lambda>byStation. Inr (endChainages routeID byStation path))))"

definition placer_ok ::
  "(string \<rightharpoonup> Route) \<Rightarrow> (string \<rightharpoonup> Station) \<Rightarrow> (string \<times> string \<rightharpoonup> string) \<Rightarrow> routePlacer \<Rightarrow> bool" where
  "placer_ok R S G p \<longleftrightarrow> rp_routesByID p = R \<and> rp_stationsBySlug p = S \<and> rp_segRoutes p = G \<and>
     (\<forall>id m. rp_chainage p id = Some m \<longrightarrow> routeChainages R S id = Inr m)"

lemma chainagesOn_agrees:
  "placer_ok R S G p \<Longrightarrow> agrees (placer_ok R S G) (chainagesOn p rid) (routeChainages R S rid)"
  by (cases "rp_chainage p rid"; cases "routeChainages R S rid")
    (auto simp: chainagesOn_def placer_ok_def)

interpretation placing: transparent_step place "placeUncached R S G" "placer_ok R S G" for R S G
proof
  fix p path
  assume ok: "placer_ok R S G p"
  then have G: "rp_segRoutes p = G" by (simp add: placer_ok_def)
  show "agrees (placer_ok R S G) (place p path) (placeUncached R S G path)"
  proof (cases "length path < 2 \<or> pathRoute G [] path = None")
    case True
    with ok G show ?thesis by (auto simp: place_def placeUncached_def)
  next
    case False
    then obtain rid where "pathRoute G [] path = Some rid" "\<not> length path < 2" by auto
    with ok G show ?thesis
      by (auto simp: place_def placeUncached_def intro!: agrees_bind chainagesOn_agrees)
  qed
qed

text \<open>One hop of a service, with and without the cache; \<open>hopEdges\<close> is its loop.\<close>

definition hopWith ::
  "compileEnv \<Rightarrow> string \<Rightarrow> (string \<rightharpoonup> ServiceStop) \<Rightarrow> VehicleType \<Rightarrow> string \<times> string
    \<Rightarrow> compile_error + (Edge \<times> Edge) \<times> string list" where
  "hopWith env svcID stopByStationID vt ab =
     bind_res (wrap_err (NoPath svcID) (segmentPathSeconds (ce_adj env) (fst ab) (snd ab)))
       (\<lambda>(runSecs, path). Inr (hopPair env stopByStationID vt (fst ab) (snd ab) runSecs path, path))"

definition hopStep ::
  "compileEnv \<Rightarrow> string \<Rightarrow> (string \<rightharpoonup> ServiceStop) \<Rightarrow> VehicleType \<Rightarrow> routePlacer \<Rightarrow> string \<times> string
    \<Rightarrow> compile_error + routePlacer \<times> (Edge \<times> Edge)" where
  "hopStep env svcID m vt placer ab =
     bind_res (hopWith env svcID m vt ab) (\<lambda>(pair, path).
     bind_res (place placer path) (\<lambda>(placer', placed). Inr (placer', placePair placed pair)))"

definition hopRef ::
  "compileEnv \<Rightarrow> string \<Rightarrow> (string \<rightharpoonup> ServiceStop) \<Rightarrow> VehicleType
    \<Rightarrow> (string \<rightharpoonup> Route) \<Rightarrow> (string \<times> string \<rightharpoonup> string) \<Rightarrow> string \<times> string
    \<Rightarrow> compile_error + Edge \<times> Edge" where
  "hopRef env svcID m vt R G ab =
     bind_res (hopWith env svcID m vt ab) (\<lambda>(pair, path).
     bind_res (placeUncached R (ce_stationsBySlug env) G path) (\<lambda>placed. Inr (placePair placed pair)))"

interpretation hopping: transparent_step "hopStep env svcID m vt" "hopRef env svcID m vt R G"
    "placer_ok R (ce_stationsBySlug env) G" for env svcID m vt R G
proof
  fix p ab
  assume "placer_ok R (ce_stationsBySlug env) G p"
  note agree = placing.step_agrees [OF this]
  show "agrees (placer_ok R (ce_stationsBySlug env) G) (hopStep env svcID m vt p ab)
      (hopRef env svcID m vt R G ab)"
    unfolding hopStep_def hopRef_def
    by (rule agrees_pure_bind) (auto split: prod.splits intro!: agrees_bind [OF agree])
qed

definition adjacent :: "'a list \<Rightarrow> ('a \<times> 'a) list" where
  "adjacent xs = zip xs (tl xs)"

definition flatPairs :: "(Edge \<times> Edge) list \<Rightarrow> Edge list" where
  "flatPairs prs = concat (map (\<lambda>(a, b). [a, b]) prs)"

lemma hopEdges_map_step:
  "hopEdges env svcID m vt p slugs =
     bind_res (map_step (hopStep env svcID m vt) p (adjacent slugs)) (\<lambda>(p', prs). Inr (p', flatPairs prs))"
proof (induction env svcID m vt p slugs rule: hopEdges.induct)
  case (1 env svcID m vt p a b rest)
  show ?case
  proof (cases "segmentPathSeconds (ce_adj env) a b")
    case (Inl e)
    then show ?thesis by (simp add: adjacent_def hopStep_def hopWith_def)
  next
    case (Inr r)
    obtain t path where r: "r = (t, path)" by (cases r)
    show ?thesis
    proof (cases "place p path")
      case (Inl e)
      with Inr r show ?thesis by (simp add: adjacent_def hopStep_def hopWith_def)
    next
      case pl: (Inr q)
      obtain p' placed where q: "q = (p', placed)" by (cases q)
      obtain f b' where pp: "placePair placed (hopPair env m vt a b t path) = (f, b')"
        by (cases "placePair placed (hopPair env m vt a b t path)")
      have "hopEdges env svcID m vt p' (b # rest) =
          bind_res (map_step (hopStep env svcID m vt) p' (adjacent (b # rest))) (\<lambda>(p', prs). Inr (p', flatPairs prs))"
        by (rule 1) (use Inr r pl q pp in auto)
      moreover have "hopStep env svcID m vt p (a, b) = Inr (p', f, b')"
        using Inr r pl q pp by (simp add: hopStep_def hopWith_def)
      ultimately show ?thesis using Inr r pl q pp
        by (cases "map_step (hopStep env svcID m vt) p' (adjacent (b # rest))")
          (auto simp: adjacent_def flatPairs_def)
    qed
  qed
qed (simp_all add: adjacent_def flatPairs_def)

definition compileServiceRef ::
  "compileEnv \<Rightarrow> (string \<rightharpoonup> Route) \<Rightarrow> (string \<times> string \<rightharpoonup> string) \<Rightarrow> Service
    \<Rightarrow> compile_error + ServiceGraph" where
  "compileServiceRef env R G svc =
     bind_res (serviceHead env svc) (\<lambda>(vt, slugs, m, sg).
     bind_res (map_res (hopRef env (svc_ID svc) m vt R G) (adjacent slugs)) (\<lambda>prs.
       Inr (sg\<lparr>sg_Edges := flatPairs prs\<rparr>)))"

lemma compileService_step:
  "compileService env p svc =
     bind_res (serviceHead env svc) (\<lambda>(vt, slugs, m, sg).
     bind_res (map_step (hopStep env (svc_ID svc) m vt) p (adjacent slugs)) (\<lambda>(p', prs).
       Inr (p', sg\<lparr>sg_Edges := flatPairs prs\<rparr>)))"
  unfolding compileService_def hopEdges_map_step
  by (rule bind_res_cong [OF refl]) (auto simp: bind_res_def split: sum.splits)

interpretation serving: transparent_step "compileService env" "compileServiceRef env R G"
    "placer_ok R (ce_stationsBySlug env) G" for env R G
proof
  fix p svc
  assume "placer_ok R (ce_stationsBySlug env) G p"
  note agree = hopping.map_step_agrees [OF this]
  show "agrees (placer_ok R (ce_stationsBySlug env) G) (compileService env p svc)
      (compileServiceRef env R G svc)"
    unfolding compileService_step compileServiceRef_def
    by (rule agrees_pure_bind) (auto split: prod.splits intro!: agrees_bind [OF agree])
qed

lemma compileServices_map_step:
  "compileServices env p svcs =
     bind_res (map_step (compileService env) p (filter svc_Active svcs)) (\<lambda>(p', sgs). Inr sgs)"
proof (induction svcs arbitrary: p)
  case (Cons svc svcs)
  show ?case
  proof (cases "compileService env p svc")
    case (Inr r)
    obtain p' sg where "r = (p', sg)" by (cases r)
    with Inr Cons.IH [of p'] Cons.IH [of p] show ?thesis
      by (cases "map_step (compileService env) p' (filter svc_Active svcs)") auto
  qed (use Cons.IH [of p] in simp)
qed simp

lemma compileServices_ref:
  assumes "placer_ok R (ce_stationsBySlug env) G p"
  shows "compileServices env p svcs = map_res (compileServiceRef env R G) (filter svc_Active svcs)"
  using serving.map_step_result [OF assms] by (simp add: compileServices_map_step)

text \<open>
  The environment and the reference tables \<open>Compile\<close> builds, and the compilation without
  the cache.
\<close>

definition compileEnvOf ::
  "Station list \<Rightarrow> VehicleType list \<Rightarrow> seg_adj \<Rightarrow> string set \<Rightarrow> BoardingWaitPolicy \<Rightarrow> compileEnv" where
  "compileEnvOf stations vehicleTypes adj onPath boardingWait =
     \<lparr>ce_stationsByID = index_by st_ID stations, ce_stationsBySlug = index_by st_Slug stations,
      ce_vehiclesByID = index_by vt_ID vehicleTypes, ce_adj = adj, ce_onPath = onPath,
      ce_boardingWait = boardingWait\<rparr>"

definition segRoutesOf :: "TravelTimes \<Rightarrow> string \<times> string \<rightharpoonup> string" where
  "segRoutesOf tt = map_option seg_RouteID \<circ>
     index_by (\<lambda>seg. stationPairKey (seg_FromSlug seg) (seg_ToSlug seg)) (tt_Segments tt)"

lemma newRoutePlacer_ok: "placer_ok (index_by rt_ID routes) S (segRoutesOf tt) (newRoutePlacer routes S tt)"
  by (simp add: placer_ok_def newRoutePlacer_def segRoutesOf_def)

lemma Compile_reference:
  "Compile sc routes stations services vehicleTypes tt boardingWait =
     bind_res (wrap_err SegmentTable (buildSegmentAdj tt (index_by st_Slug stations))) (\<lambda>(adj, onPath).
     bind_res (map_res seededNode stations) (\<lambda>nodes.
     bind_res (map_res (compileServiceRef (compileEnvOf stations vehicleTypes adj onPath boardingWait)
         (index_by rt_ID routes) (segRoutesOf tt)) (filter svc_Active services)) (\<lambda>sgs.
       Inr \<lparr>tg_Services = sgs, tg_Merge = \<lparr>mr_Clusters = [], mr_NearMisses = []\<rparr>, tg_Nodes = nodes\<rparr>)))"
proof -
  have "compileServices (compileEnvOf stations vehicleTypes adj onPath boardingWait)
        (newRoutePlacer routes (index_by st_Slug stations) tt) services =
      map_res (compileServiceRef (compileEnvOf stations vehicleTypes adj onPath boardingWait)
        (index_by rt_ID routes) (segRoutesOf tt)) (filter svc_Active services)" for adj onPath
    by (rule compileServices_ref) (simp add: compileEnvOf_def newRoutePlacer_ok)
  then show ?thesis
    by (simp add: Compile_def Let_def seededNodes_def flip: compileEnvOf_def)
qed

lemma Compile_InrE:
  assumes "Compile sc routes stations services vehicleTypes tt boardingWait = Inr g"
  obtains adj onPath where
    "buildSegmentAdj tt (index_by st_Slug stations) = Inr (adj, onPath)"
    "map_res seededNode stations = Inr (tg_Nodes g)"
    "map_res (compileServiceRef (compileEnvOf stations vehicleTypes adj onPath boardingWait)
       (index_by rt_ID routes) (segRoutesOf tt)) (filter svc_Active services) = Inr (tg_Services g)"
  using assms that by (auto simp: Compile_reference)

subsection \<open>What an edge pair says\<close>

text \<open>
  The specification of a hop in terms of the segment table alone: a walk joins consecutive
  stations by segments, and its run time prices each step by the first segment joining them.
\<close>

definition seg_walk :: "SegmentTime list \<Rightarrow> string \<Rightarrow> string \<Rightarrow> string list \<Rightarrow> bool" where
  "seg_walk segs a b w \<longleftrightarrow> w \<noteq> [] \<and> hd w = a \<and> last w = b \<and>
     successively (\<lambda>x y. \<exists>seg \<in> set segs. {seg_FromSlug seg, seg_ToSlug seg} = {x, y}) w"

fun walk_seconds :: "SegmentTime list \<Rightarrow> string list \<Rightarrow> int" where
  "walk_seconds segs (a # b # w) =
     (case joining segs a b of None \<Rightarrow> 0 | Some seg \<Rightarrow> seg_seconds seg a) + walk_seconds segs (b # w)"
| "walk_seconds segs w = 0"

definition mirrored :: "Edge \<Rightarrow> Edge \<Rightarrow> bool" where
  "mirrored f r \<longleftrightarrow> e_FromSlug r = e_ToSlug f \<and> e_ToSlug r = e_FromSlug f \<and>
     e_RouteID r = e_RouteID f \<and> e_FromChainageM r = e_ToChainageM f \<and> e_ToChainageM r = e_FromChainageM f"

definition shortest_seg_walk :: "SegmentTime list \<Rightarrow> string \<Rightarrow> string \<Rightarrow> string list \<Rightarrow> bool" where
  "shortest_seg_walk segs a b w \<longleftrightarrow> seg_walk segs a b w \<and> distinct w \<and>
     (\<forall>w'. seg_walk segs a b w' \<longrightarrow> length w \<le> length w')"

lemma is_walk_seg_walk:
  assumes "buildSegmentAdj tt st = Inr (adj, onPath)"
  shows "is_walk adj a b w \<longleftrightarrow> seg_walk (tt_Segments tt) a b w"
proof -
  have "hop adj = (\<lambda>x y. \<exists>seg \<in> set (tt_Segments tt). {seg_FromSlug seg, seg_ToSlug seg} = {x, y})"
    by (intro ext) (auto simp: buildSegmentAdj_hop [OF assms] seg_edges_hop doubleton_eq_iff)
  then show ?thesis by (simp add: is_walk_def seg_walk_def)
qed

lemma pathRunSeconds_walk_seconds:
  assumes "buildSegmentAdj tt st = Inr (adj, onPath)" and "distinct w"
  shows "pathRunSeconds adj w = walk_seconds (tt_Segments tt) w"
  using assms(2)
  by (induction w rule: induct_list012) (auto simp: hopSeconds_joining [OF assms(1)])

lemma dwellLoop_sum: "dwellLoop f acc xs = acc + sum_list (map f xs)"
  by (induction xs arbitrary: acc) simp_all

lemma pathDwellSecs_sum:
  "pathDwellSecs path S m vt = sum_list (map (slugDwell S m vt) (tl path))"
  by (simp add: pathDwellSecs_def dwellLoop_sum)

lemma placePair_fields:
  "placePair placed (f, r) = (f', r') \<Longrightarrow>
     e_FromSlug f' = e_FromSlug f \<and> e_ToSlug f' = e_ToSlug f \<and> e_Seconds f' = e_Seconds f \<and>
     e_DwellS f' = e_DwellS f \<and> e_Seconds r' = e_Seconds r \<and> e_DwellS r' = e_DwellS r \<and>
     (mirrored f r \<longrightarrow> mirrored f' r')"
  by (auto simp: placePair_def placeEdge_def mirrored_def split: option.splits)

definition hop_spec ::
  "SegmentTime list \<Rightarrow> (string \<Rightarrow> int) \<Rightarrow> string \<times> string \<Rightarrow> Edge \<times> Edge \<Rightarrow> bool" where
  "hop_spec segs dwell ab fr \<longleftrightarrow>
     (\<exists>w. shortest_seg_walk segs (fst ab) (snd ab) w \<and> mirrored (fst fr) (snd fr) \<and>
        e_FromSlug (fst fr) = fst ab \<and> e_ToSlug (fst fr) = snd ab \<and>
        e_DwellS (fst fr) = sum_list (map dwell (tl w)) \<and>
        e_DwellS (snd fr) = sum_list (map dwell (tl (rev w))) \<and>
        e_Seconds (fst fr) = walk_seconds segs w + e_DwellS (fst fr) \<and>
        e_Seconds (snd fr) = walk_seconds segs (rev w) + e_DwellS (snd fr))"

lemma hopRef_spec:
  assumes adj: "buildSegmentAdj tt st = Inr (ce_adj env, onPath)"
    and hop: "hopRef env svcID m vt R G ab = Inr fr"
  shows "hop_spec (tt_Segments tt) (slugDwell (ce_stationsBySlug env) m vt) ab fr"
proof -
  obtain t w placed where run: "segmentPathSeconds (ce_adj env) (fst ab) (snd ab) = Inr (t, w)"
    and fr: "fr = placePair placed (hopPair env m vt (fst ab) (snd ab) t w)"
    using hop by (auto simp: hopRef_def hopWith_def)
  note sound = segmentPathSeconds_sound [OF run]
  have short: "shortest_seg_walk (tt_Segments tt) (fst ab) (snd ab) w"
    using sound by (simp add: shortest_seg_walk_def is_walk_seg_walk [OF adj])
  have t: "t = walk_seconds (tt_Segments tt) w"
    "pathRunSeconds (ce_adj env) (rev w) = walk_seconds (tt_Segments tt) (rev w)"
    using sound by (simp_all add: pathRunSeconds_walk_seconds [OF adj])
  obtain f r where pair: "hopPair env m vt (fst ab) (snd ab) t w = (f, r)" by (cases "hopPair env m vt (fst ab) (snd ab) t w")
  then have "mirrored f r" "e_FromSlug f = fst ab" "e_ToSlug f = snd ab"
    "e_DwellS f = sum_list (map (slugDwell (ce_stationsBySlug env) m vt) (tl w))"
    "e_DwellS r = sum_list (map (slugDwell (ce_stationsBySlug env) m vt) (tl (rev w)))"
    "e_Seconds f = walk_seconds (tt_Segments tt) w + e_DwellS f"
    "e_Seconds r = walk_seconds (tt_Segments tt) (rev w) + e_DwellS r"
    using t by (auto simp: hopPair_def Let_def newEdge_def mirrored_def pathDwellSecs_sum reversePath_rev)
  with short placePair_fields [of placed f r "fst fr" "snd fr"] fr pair show ?thesis
    by (auto simp: hop_spec_def intro!: exI [of _ w])
qed

lemma resolveStops_Inr:
  assumes "resolveStops env svcID stops m0 = Inr (slugs, m)"
  shows "list_all2 (\<lambda>stop slug. \<exists>st. ce_stationsByID env (ss_StationID stop) = Some st \<and>
      slug = st_Slug st \<and> slug \<in> ce_onPath env) stops slugs"
    and "m = foldl (\<lambda>m stop. m(ss_StationID stop \<mapsto> stop)) m0 stops"
  using assms
proof (induction env svcID stops m0 arbitrary: slugs m rule: resolveStops.induct)
  case (1 env svcID m0)
  { case 1 then show ?case by simp next case 2 then show ?case by simp }
next
  case (2 env svcID stop stops m0)
  { case 1
    then show ?case by (auto split: option.splits if_splits dest: 2(1))
  next
    case 2
    then show ?case by (auto split: option.splits if_splits dest: "2.IH"(2)) }
qed

lemma resolveStops_total:
  "\<forall>stop \<in> set stops. \<exists>st. ce_stationsByID env (ss_StationID stop) = Some st \<and> st_Slug st \<in> ce_onPath env \<Longrightarrow>
     \<exists>r. resolveStops env svcID stops m0 = Inr r"
  by (induction stops arbitrary: m0) fastforce+

text \<open>
  The specification of one compiled service: its stops in sequence order resolve to stations on
  the segment table, and every pair of consecutive stops contributes one edge pair.
\<close>

definition sortedStops :: "Service \<Rightarrow> ServiceStop list" where
  "sortedStops svc = SliceStable (less_by ss_Sequence) (svc_Stops svc)"

definition compiled_as ::
  "Station list \<Rightarrow> VehicleType list \<Rightarrow> TravelTimes \<Rightarrow> Service \<Rightarrow> ServiceGraph \<Rightarrow> bool" where
  "compiled_as stations vehicleTypes tt svc sg \<longleftrightarrow>
     sg_ServiceID sg = svc_ID svc \<and>
     (\<exists>vt slugs prs. index_by vt_ID vehicleTypes (svc_VehicleTypeID svc) = Some vt \<and>
        list_all2 (\<lambda>stop slug. \<exists>st. index_by st_ID stations (ss_StationID stop) = Some st \<and> slug = st_Slug st)
          (sortedStops svc) slugs \<and>
        sg_Edges sg = flatPairs prs \<and>
        list_all2 (hop_spec (tt_Segments tt)
            (slugDwell (index_by st_Slug stations) (index_by ss_StationID (sortedStops svc)) vt))
          (adjacent slugs) prs)"

lemma serviceHead_Inr:
  assumes "serviceHead env svc = Inr (vt, slugs, m, sg)"
  shows "ce_vehiclesByID env (svc_VehicleTypeID svc) = Some vt"
    and "resolveStops env (svc_ID svc) (sortedStops svc) Map.empty = Inr (slugs, m)"
    and "sg_ServiceID sg = svc_ID svc"
  using assms
  by (auto simp: serviceHead_def sortedStops_def applyBoardingWait_def split: option.splits)

lemma compileServiceRef_spec:
  assumes adj: "buildSegmentAdj tt (index_by st_Slug stations) = Inr (adj, onPath)"
    and sg: "compileServiceRef (compileEnvOf stations vehicleTypes adj onPath wait) R G svc = Inr sg"
  shows "compiled_as stations vehicleTypes tt svc sg"
proof -
  let ?env = "compileEnvOf stations vehicleTypes adj onPath wait"
  obtain vt slugs m sg0 prs where head: "serviceHead ?env svc = Inr (vt, slugs, m, sg0)"
    and hops: "map_res (hopRef ?env (svc_ID svc) m vt R G) (adjacent slugs) = Inr prs"
    and sg_eq: "sg = sg0\<lparr>sg_Edges := flatPairs prs\<rparr>"
    using sg by (auto simp: compileServiceRef_def)
  note h = serviceHead_Inr [OF head]
  note stops = resolveStops_Inr [OF h(2)]
  have m: "m = index_by ss_StationID (sortedStops svc)" using stops(2) by (simp add: index_by_def)
  have "list_all2 (hop_spec (tt_Segments tt) (slugDwell (ce_stationsBySlug ?env) m vt)) (adjacent slugs) prs"
    using hops adj unfolding map_res_Inr_iff
    by (elim list_all2_mono) (rule hopRef_spec, simp_all add: compileEnvOf_def)
  with h(1,3) stops(1) sg_eq m show ?thesis
    unfolding compiled_as_def
    by (auto simp: compileEnvOf_def elim!: list_all2_mono
        intro!: exI [of _ vt] exI [of _ slugs] exI [of _ prs])
qed

subsection \<open>When a compile succeeds\<close>

definition good_segments :: "Station list \<Rightarrow> TravelTimes \<Rightarrow> bool" where
  "good_segments stations tt \<longleftrightarrow>
     (\<forall>seg \<in> set (tt_Segments tt). seg_FromSlug seg \<in> st_Slug ` set stations \<and>
        seg_ToSlug seg \<in> st_Slug ` set stations \<and>
        (case seg_ReverseRunSeconds seg of None \<Rightarrow> True | Some r \<Rightarrow> 0 < r))"

definition good_station :: "Station \<Rightarrow> bool" where
  "good_station st \<longleftrightarrow> length (gp_Coordinates (st_Location st)) = 2 \<and>
     (case st_RoutingLocation st of None \<Rightarrow> True | Some rl \<Rightarrow> length (gp_Coordinates rl) = 2)"

definition good_override :: "BoardingWaitOverride option \<Rightarrow> bool" where
  "good_override ov \<longleftrightarrow> (case ov of None \<Rightarrow> True | Some b \<Rightarrow> \<exists>p. Override_Parse b = Inr p)"

definition good_service ::
  "Station list \<Rightarrow> VehicleType list \<Rightarrow> TravelTimes \<Rightarrow> Service \<Rightarrow> bool" where
  "good_service stations vehicleTypes tt svc \<longleftrightarrow>
     svc_VehicleTypeID svc \<in> vt_ID ` set vehicleTypes \<and> good_override (svc_BoardingWait svc) \<and>
     (\<forall>stop \<in> set (svc_Stops svc). \<exists>st. index_by st_ID stations (ss_StationID stop) = Some st \<and>
        (\<exists>seg \<in> set (tt_Segments tt). st_Slug st \<in> {seg_FromSlug seg, seg_ToSlug seg})) \<and>
     (\<forall>(s, s') \<in> set (adjacent (sortedStops svc)). \<forall>st st'.
        index_by st_ID stations (ss_StationID s) = Some st \<longrightarrow>
        index_by st_ID stations (ss_StationID s') = Some st' \<longrightarrow>
        (\<exists>w. seg_walk (tt_Segments tt) (st_Slug st) (st_Slug st') w))"

definition good_route :: "Route \<Rightarrow> bool" where
  "good_route rt \<longleftrightarrow> (\<forall>c \<in> set (gl_Coordinates (rt_Geometry rt)). 2 \<le> length c)"

lemma buildSegmentAdj_loop_total:
  assumes "\<forall>seg \<in> set segs. st (seg_FromSlug seg) \<noteq> None \<and> st (seg_ToSlug seg) \<noteq> None \<and>
      (case seg_ReverseRunSeconds seg of None \<Rightarrow> True | Some r \<Rightarrow> 0 < r)"
  shows "\<exists>r. buildSegmentAdj_loop st segs adj onPath = Inr r"
  using assms by (induction segs arbitrary: adj onPath) (auto simp: Let_def split: option.splits)

lemma seededNode_total: "good_station st \<Longrightarrow> \<exists>n. seededNode st = Inr n \<and> gn_Slug n = st_Slug st"
  by (auto simp: good_station_def seededNode_def Let_def numeral_2_eq_2 length_Suc_conv split: option.splits)

lemma routeChainages_total:
  assumes "\<forall>rt \<in> set routes. good_route rt"
  shows "\<exists>m. routeChainages (index_by rt_ID routes) S rid = Inr m"
proof (cases "index_by rt_ID routes rid")
  case (Some rt)
  then have "rt \<in> set routes" by (auto dest: index_by_Some)
  with assms have "\<exists>line. map_res toPoint (gl_Coordinates (rt_Geometry rt)) = Inr line"
    by (intro map_res_total toPoint_total) (simp add: good_route_def)
  with Some show ?thesis by (auto simp: routeChainages_def ToPhysicsLine_def)
qed (simp add: routeChainages_def)

lemma serviceHead_total:
  assumes "good_service stations vehicleTypes tt svc" and "wf_policy wait"
    and "buildSegmentAdj tt (index_by st_Slug stations) = Inr (adj, onPath)"
  shows "\<exists>r. serviceHead (compileEnvOf stations vehicleTypes adj onPath wait) svc = Inr r"
proof -
  let ?env = "compileEnvOf stations vehicleTypes adj onPath wait"
  obtain vt where vt: "index_by vt_ID vehicleTypes (svc_VehicleTypeID svc) = Some vt"
    using assms(1) by (auto simp: good_service_def simp flip: dom_index_by)
  have "\<exists>r. resolveStops ?env (svc_ID svc) (sortedStops svc) Map.empty = Inr r"
    using assms(1) buildSegmentAdj_get(2) [OF assms(3)]
    by (intro resolveStops_total) (fastforce simp: good_service_def sortedStops_def compileEnvOf_def)
  moreover obtain p src where p: "ResolveBoardingWait (svc_BoardingWait svc) None wait = Inr (p, src)"
    using assms(1) by (auto simp: ResolveBoardingWait_def good_service_def good_override_def split: option.splits)
  moreover have "\<exists>n. WaitSecs p (svc_FrequencyWindows svc) = Inr n"
    by (rule WaitSecs_total [OF Resolve_wf [OF p assms(2)]])
  ultimately show ?thesis using vt
    by (auto simp: serviceHead_def sortedStops_def compileEnvOf_def applyBoardingWait_def resolveInto_def)
qed

lemma list_all2_adjacent:
  assumes "list_all2 P xs ys"
  shows "list_all2 (\<lambda>(x, x') (y, y'). P x y \<and> P x' y') (adjacent xs) (adjacent ys)"
  using assms
proof (induction xs ys rule: list_all2_induct)
  case (Cons x xs y ys)
  then show ?case by (cases xs; cases ys) (auto simp: adjacent_def)
qed (simp add: adjacent_def)

lemma placeUncached_total:
  assumes "\<forall>rt \<in> set routes. good_route rt"
  shows "\<exists>r. placeUncached (index_by rt_ID routes) S G path = Inr r"
proof (cases "pathRoute G [] path")
  case (Some rid)
  with routeChainages_total [OF assms, of S rid] show ?thesis by (auto simp: placeUncached_def)
qed (simp add: placeUncached_def)

lemma compileServiceRef_total:
  assumes good: "good_service stations vehicleTypes tt svc" and wait: "wf_policy wait"
    and adj: "buildSegmentAdj tt (index_by st_Slug stations) = Inr (adj, onPath)"
    and routes: "\<forall>rt \<in> set routes. good_route rt"
  shows "\<exists>sg. compileServiceRef (compileEnvOf stations vehicleTypes adj onPath wait)
    (index_by rt_ID routes) G svc = Inr sg"
proof -
  let ?env = "compileEnvOf stations vehicleTypes adj onPath wait"
  obtain vt slugs m sg where head: "serviceHead ?env svc = Inr (vt, slugs, m, sg)"
    using serviceHead_total [OF good wait adj] by auto
  have "list_all2 (\<lambda>(s, s') (a, b). (\<exists>st. index_by st_ID stations (ss_StationID s) = Some st \<and> a = st_Slug st) \<and>
      (\<exists>st. index_by st_ID stations (ss_StationID s') = Some st \<and> b = st_Slug st)) (adjacent (sortedStops svc)) (adjacent slugs)"
    using resolveStops_Inr(1) [OF serviceHead_Inr(2) [OF head]]
    by (intro list_all2_adjacent) (auto simp: compileEnvOf_def elim!: list_all2_mono)
  then have walk: "\<exists>w. is_walk adj (fst ab) (snd ab) w" if "ab \<in> set (adjacent slugs)" for ab
    using that good unfolding is_walk_seg_walk [OF adj] good_service_def
    by (fastforce simp: list_all2_conv_all_nth in_set_conv_nth)
  have "\<exists>fr. hopRef ?env (svc_ID svc) m vt (index_by rt_ID routes) G ab = Inr fr"
    if ab: "ab \<in> set (adjacent slugs)" for ab
  proof -
    obtain t w where run: "segmentPathSeconds adj (fst ab) (snd ab) = Inr (t, w)"
      using walk [OF ab] segmentPathSeconds_complete by blast
    with placeUncached_total [OF routes, of "ce_stationsBySlug ?env" G w] show ?thesis
      by (auto simp: hopRef_def hopWith_def compileEnvOf_def)
  qed
  then have "\<exists>prs. map_res (hopRef ?env (svc_ID svc) m vt (index_by rt_ID routes) G) (adjacent slugs) = Inr prs"
    by (rule map_res_total)
  with head show ?thesis by (auto simp: compileServiceRef_def)
qed

lemma seededNode_slug: "seededNode st = Inr n \<Longrightarrow> gn_Slug n = st_Slug st"
  by (auto simp: seededNode_def Let_def split: list.splits option.splits)

lemma map_res_slugs: "map_res seededNode sts = Inr ns \<Longrightarrow> map gn_Slug ns = map st_Slug sts"
  by (induction sts arbitrary: ns) (auto dest: seededNode_slug)

lemma set_adjacentD: "(a, b) \<in> set (adjacent xs) \<Longrightarrow> a \<in> set xs \<and> b \<in> set xs"
  by (cases xs) (auto simp: adjacent_def dest: set_zip_leftD set_zip_rightD)

lemma compiled_as_endpoints:
  assumes "compiled_as stations vehicleTypes tt svc sg" and "e \<in> set (sg_Edges sg)"
  shows "e_FromSlug e \<in> st_Slug ` set stations \<and> e_ToSlug e \<in> st_Slug ` set stations"
proof -
  obtain slugs prs D where slugs: "list_all2 (\<lambda>stop slug. \<exists>st. index_by st_ID stations (ss_StationID stop) = Some st \<and>
        slug = st_Slug st) (sortedStops svc) slugs"
    and edges: "sg_Edges sg = flatPairs prs"
    and hops: "list_all2 (hop_spec (tt_Segments tt) D) (adjacent slugs) prs"
    using assms(1) by (auto simp: compiled_as_def)
  have known: "set slugs \<subseteq> st_Slug ` set stations"
    using slugs by (fastforce simp: list_all2_conv_all_nth in_set_conv_nth dest!: index_by_Some)
  obtain fr where fr: "fr \<in> set prs" "e = fst fr \<or> e = snd fr"
    using assms(2) edges by (auto simp: flatPairs_def)
  then obtain ab where ab: "ab \<in> set (adjacent slugs)" "hop_spec (tt_Segments tt) D ab fr"
    using list_all2_setD2 [OF hops] by blast
  then have "fst ab \<in> set slugs" "snd ab \<in> set slugs" using set_adjacentD [of "fst ab" "snd ab"] by auto
  with ab(2) fr(2) known show ?thesis by (auto simp: hop_spec_def mirrored_def)
qed

subsection \<open>A sample network\<close>

text \<open>Three stations on a line, and one service calling at the two ends.\<close>

definition sampleStation :: "string \<Rightarrow> string \<Rightarrow> float64 \<Rightarrow> Station" where
  "sampleStation sid slug lng =
     \<lparr>st_ID = sid, st_ScenarioID = ''sc'', st_OwnerID = None, st_Slug = slug, st_Name = slug,
      st_Location = \<lparr>gp_Type = ''Point'', gp_Coordinates = [lng, 0]\<rparr>, st_RoutingLocation = None,
      st_PlatformHeight = ''high''\<rparr>"

definition sampleStations :: "Station list" where
  "sampleStations = [sampleStation ''1'' ''a'' 0, sampleStation ''2'' ''b'' 1, sampleStation ''3'' ''c'' 2]"

definition sampleVehicle :: VehicleType where
  "sampleVehicle =
     \<lparr>vt_ID = ''v'', vt_Name = ''v'', vt_Propulsion = ''electric'', vt_MaxSpeedKMH = 100,
      vt_AccelerationMS2 = 1, vt_DecelerationMS2 = 1, vt_FloorHeight = ''high'',
      vt_DwellLevelS = 20, vt_DwellStepS = 40\<rparr>"

definition sampleService :: Service where
  "sampleService =
     \<lparr>svc_ID = ''s'', svc_ScenarioID = ''sc'', svc_RouteID = ''r'', svc_VehicleTypeID = ''v'',
      svc_Name = ''S'', svc_Direction = [], svc_Active = True, svc_Provenance = [], svc_OwnerID = None,
      svc_Stops = [\<lparr>ss_StationID = ''3'', ss_Sequence = 2, ss_DwellS = None\<rparr>,
                   \<lparr>ss_StationID = ''1'', ss_Sequence = 1, ss_DwellS = Some 30\<rparr>],
      svc_FrequencyWindows = [], svc_BoardingWait = None, svc_BoardingWaitPolicy = [],
      svc_BoardingWaitSecs = 0, svc_BoardingWaitSource = []\<rparr>"

definition sampleTravelTimes :: TravelTimes where
  "sampleTravelTimes =
     \<lparr>tt_ScenarioSlug = ''sc'', tt_Provenance = [], tt_Source = [],
      tt_Segments = [\<lparr>seg_FromSlug = ''a'', seg_ToSlug = ''b'', seg_RunSeconds = 100,
                      seg_ReverseRunSeconds = Some 110, seg_RouteID = []\<rparr>,
                     \<lparr>seg_FromSlug = ''b'', seg_ToSlug = ''c'', seg_RunSeconds = 200,
                      seg_ReverseRunSeconds = None, seg_RouteID = []\<rparr>]\<rparr>"

definition sampleScenario :: Scenario where
  "sampleScenario = \<lparr>sc_ID = ''sc'', sc_Slug = ''sc'', sc_Name = [], sc_Subtext = [],
     sc_Description = [], sc_OwnerID = None\<rparr>"

definition sampleGraph :: TransitGraph where
  "sampleGraph =
     \<lparr>tg_Services =
        [\<lparr>sg_ServiceID = ''s'',
          sg_Edges = [newEdge ''a'' ''c'' 320 20, newEdge ''c'' ''a'' 340 30],
          sg_WaitSecs = 0, sg_WaitPolicy = ''none''\<rparr>],
      tg_Merge = \<lparr>mr_Clusters = [], mr_NearMisses = []\<rparr>,
      tg_Nodes = map (\<lambda>st. \<lparr>gn_Slug = st_Slug st, gn_Lat = gp_Coordinates (st_Location st) ! 1,
                             gn_Lng = gp_Coordinates (st_Location st) ! 0, gn_RoutingLat = None,
                             gn_RoutingLng = None, gn_Names = [st_Name st]\<rparr>) sampleStations\<rparr>"

definition sampleAdj :: seg_adj where
  "sampleAdj =
     [(''a'', [\<lparr>se_to = ''b'', se_seconds = 100\<rparr>]),
      (''b'', [\<lparr>se_to = ''a'', se_seconds = 110\<rparr>, \<lparr>se_to = ''c'', se_seconds = 200\<rparr>]),
      (''c'', [\<lparr>se_to = ''b'', se_seconds = 200\<rparr>])]"

lemma sample_adj:
  "buildSegmentAdj sampleTravelTimes (index_by st_Slug sampleStations) = Inr (sampleAdj, {''a'', ''b'', ''c''})"
  by code_simp

lemma sample_path: "segmentPathSeconds sampleAdj ''a'' ''c'' = Inr (300, [''a'', ''b'', ''c''])"
  by code_simp

lemma sample_nodes: "map_res seededNode sampleStations = Inr (tg_Nodes sampleGraph)"
  by code_simp

lemma sample_head:
  "serviceHead (compileEnvOf sampleStations [sampleVehicle] sampleAdj {''a'', ''b'', ''c''} DefaultBoardingWaitPolicy)
     sampleService =
   Inr (sampleVehicle, [''a'', ''c''], index_by ss_StationID (sortedStops sampleService),
     (hd (tg_Services sampleGraph))\<lparr>sg_Edges := []\<rparr>)"
  by (simp add: serviceHead_def compileEnvOf_def sampleService_def sampleStations_def sampleStation_def
      sampleVehicle_def index_by_def less_by_def ResolveBoardingWait_def
      DefaultBoardingWaitPolicy_def applyBoardingWait_def resolveInto_def WaitSecs_def kindOrNone_def
      sampleGraph_def sortedStops_def)

lemma sample_hop:
  "hopPair (compileEnvOf sampleStations [sampleVehicle] sampleAdj {''a'', ''b'', ''c''} DefaultBoardingWaitPolicy)
     (index_by ss_StationID (sortedStops sampleService)) sampleVehicle ''a'' ''c'' 300 [''a'', ''b'', ''c''] =
   (newEdge ''a'' ''c'' 320 20, newEdge ''c'' ''a'' 340 30)"
  by code_simp

lemma sample_compiles:
  "Compile sampleScenario [] sampleStations [sampleService] [sampleVehicle] sampleTravelTimes
     DefaultBoardingWaitPolicy = Inr sampleGraph"
proof -
  have "pathRoute (segRoutesOf sampleTravelTimes) [] [''a'', ''b'', ''c''] = None" by code_simp
  moreover have "filter svc_Active [sampleService] = [sampleService]" by code_simp
  moreover have "ce_adj (compileEnvOf S V A P W) = A" for S V A P W by (simp add: compileEnvOf_def)
  ultimately show ?thesis
    by (simp add: Compile_reference sample_adj sample_nodes compileServiceRef_def sample_head adjacent_def hopRef_def
        hopWith_def sample_path sample_hop placeUncached_def placePair_def flatPairs_def)
      (simp add: sampleGraph_def)
qed

subsection \<open>Properties\<close>

text \<open>
  C1: Every active service compiles, in order, to a graph of its own whose edges are one
  forward/reverse pair per consecutive stop pair in sequence order. Each pair runs along a
  shortest simple walk over the segment table, the reverse edge along the same walk backwards;
  both are priced by the first segment joining each step, plus the dwell at every station of
  the walk the service calls at, and carry the same route with the chainages swapped.
\<close>

theorem Compile_services:
  assumes "Compile sc routes stations services vehicleTypes tt boardingWait = Inr g"
  shows "list_all2 (compiled_as stations vehicleTypes tt) (filter svc_Active services) (tg_Services g)"
proof (rule Compile_InrE [OF assms])
  fix adj onPath
  assume adj: "buildSegmentAdj tt (index_by st_Slug stations) = Inr (adj, onPath)"
    and "map_res (compileServiceRef (compileEnvOf stations vehicleTypes adj onPath boardingWait)
       (index_by rt_ID routes) (segRoutesOf tt)) (filter svc_Active services) = Inr (tg_Services g)"
  then show ?thesis
    unfolding map_res_Inr_iff by (elim list_all2_mono) (rule compileServiceRef_spec [OF adj])
qed

lemma Compile_services_witness:
  "list_all2 (compiled_as sampleStations [sampleVehicle] sampleTravelTimes) [sampleService] (tg_Services sampleGraph)"
  using Compile_services [OF sample_compiles] by (simp add: sampleService_def)

text \<open>
  C11: A compile succeeds whenever the segment table names known stations and has positive
  reverse times, every station is located, every route coordinate has two numbers, the global
  wait policy is well formed, and every active service names a known vehicle type, has a valid
  wait override, and calls only at stations of the segment table that are joined by it.
\<close>

theorem Compile_total:
  assumes "good_segments stations tt" and "\<forall>st \<in> set stations. good_station st"
    and "\<forall>rt \<in> set routes. good_route rt" and "wf_policy boardingWait"
    and "\<forall>svc \<in> set services. svc_Active svc \<longrightarrow> good_service stations vehicleTypes tt svc"
  shows "\<exists>g. Compile sc routes stations services vehicleTypes tt boardingWait = Inr g"
proof -
  have "\<exists>r. buildSegmentAdj tt (index_by st_Slug stations) = Inr r"
    unfolding buildSegmentAdj_def using assms(1)
    by (intro buildSegmentAdj_loop_total) (auto simp: good_segments_def index_by_None_iff)
  then obtain adj onPath where adj: "buildSegmentAdj tt (index_by st_Slug stations) = Inr (adj, onPath)" by auto
  moreover have "\<exists>nodes. map_res seededNode stations = Inr nodes"
    by (rule map_res_total) (use assms(2) seededNode_total in blast)
  moreover have "\<exists>sgs. map_res (compileServiceRef (compileEnvOf stations vehicleTypes adj onPath boardingWait)
       (index_by rt_ID routes) (segRoutesOf tt)) (filter svc_Active services) = Inr sgs"
    using assms(5) by (intro map_res_total compileServiceRef_total [OF _ assms(4) adj assms(3)]) auto
  ultimately show ?thesis by (auto simp: Compile_reference)
qed

lemma Compile_total_witness:
  "\<exists>g. Compile sampleScenario [] sampleStations [sampleService] [sampleVehicle] sampleTravelTimes
     DefaultBoardingWaitPolicy = Inr g"
proof (rule Compile_total)
  show "good_segments sampleStations sampleTravelTimes" by code_simp
  show "\<forall>st \<in> set sampleStations. good_station st" by code_simp
  show "\<forall>rt \<in> set []. good_route rt" by simp
  show "wf_policy DefaultBoardingWaitPolicy" by code_simp
  have "seg_walk (tt_Segments sampleTravelTimes) ''a'' ''c'' [''a'', ''b'', ''c'']" by code_simp
  then have "good_service sampleStations [sampleVehicle] sampleTravelTimes sampleService"
    by (auto simp: good_service_def sampleService_def sampleVehicle_def sampleStations_def sampleStation_def
        sampleTravelTimes_def good_override_def index_by_def sortedStops_def less_by_def adjacent_def)
  then show "\<forall>svc \<in> set [sampleService]. svc_Active svc \<longrightarrow>
      good_service sampleStations [sampleVehicle] sampleTravelTimes svc" by simp
qed

text \<open>
  C3: The placer's chainage cache, filled while services are compiled, never changes a result:
  \<open>Compile\<close> returns, on success and on every error, what compiling each active service on its
  own with freshly computed chainages returns.
\<close>

theorem Compile_cache_transparent:
  "Compile sc routes stations services vehicleTypes tt boardingWait =
     bind_res (wrap_err SegmentTable (buildSegmentAdj tt (index_by st_Slug stations))) (\<lambda>(adj, onPath).
     bind_res (map_res seededNode stations) (\<lambda>nodes.
     bind_res (map_res (compileServiceRef (compileEnvOf stations vehicleTypes adj onPath boardingWait)
         (index_by rt_ID routes) (segRoutesOf tt)) (filter svc_Active services)) (\<lambda>sgs.
       Inr \<lparr>tg_Services = sgs, tg_Merge = \<lparr>mr_Clusters = [], mr_NearMisses = []\<rparr>, tg_Nodes = nodes\<rparr>)))"
  by (rule Compile_reference)

text \<open>
  C14: Every edge of a compiled seeded graph starts and ends at a node of the graph, and the
  nodes are the scenario's stations in order.
\<close>

theorem Compile_edges_closed:
  assumes "Compile sc routes stations services vehicleTypes tt boardingWait = Inr g"
  shows "map gn_Slug (tg_Nodes g) = map st_Slug stations \<and>
    (\<forall>sg \<in> set (tg_Services g). \<forall>e \<in> set (sg_Edges sg).
       e_FromSlug e \<in> gn_Slug ` set (tg_Nodes g) \<and> e_ToSlug e \<in> gn_Slug ` set (tg_Nodes g))"
proof (rule Compile_InrE [OF assms])
  fix adj onPath
  assume adj: "buildSegmentAdj tt (index_by st_Slug stations) = Inr (adj, onPath)"
    and nodes: "map_res seededNode stations = Inr (tg_Nodes g)"
    and svcs: "map_res (compileServiceRef (compileEnvOf stations vehicleTypes adj onPath boardingWait)
       (index_by rt_ID routes) (segRoutesOf tt)) (filter svc_Active services) = Inr (tg_Services g)"
  have slugs: "map gn_Slug (tg_Nodes g) = map st_Slug stations"
    using nodes map_res_slugs by blast
  have "e_FromSlug e \<in> st_Slug ` set stations \<and> e_ToSlug e \<in> st_Slug ` set stations"
    if "sg \<in> set (tg_Services g)" "e \<in> set (sg_Edges sg)" for sg e
    using map_res_setD [OF svcs that(1)] compiled_as_endpoints that(2) compileServiceRef_spec [OF adj] by blast
  moreover have "gn_Slug ` set (tg_Nodes g) = st_Slug ` set stations"
    using slugs by (metis image_set)
  ultimately show ?thesis using slugs by blast
qed

lemma Compile_edges_closed_witness:
  "map gn_Slug (tg_Nodes sampleGraph) = [''a'', ''b'', ''c''] \<and>
    e_FromSlug (newEdge ''a'' ''c'' 320 20) \<in> gn_Slug ` set (tg_Nodes sampleGraph)"
  using Compile_edges_closed [OF sample_compiles]
  by (simp add: sampleStations_def sampleStation_def sampleGraph_def)

end
