(* ===== verification/Slug.thy ===== *)
theory Slug
  imports Prelude
begin

text \<open>
  Slugs: \<open>internal/route/slug.go\<close> (\<open>Slugify\<close>, \<open>IsValidSlug\<close>) and \<open>Slugify\<close> of
  \<open>internal/transit/userservice.go\<close>, with the parts of Go's \<open>strings\<close> and
  \<open>unicode/utf8\<close> they use. A \<open>range\<close> over a string decodes UTF-8 to runes, an invalid byte
  giving U+FFFD, and \<open>WriteRune\<close> encodes. The Unicode character tables behind
  \<open>unicode.IsLetter\<close>, \<open>IsDigit\<close>, \<open>IsSpace\<close> and \<open>ToLower\<close> are a parameter of the functions
  that consult them; no theorem depends on their contents beyond the hypotheses it states.
\<close>

type_synonym rune = nat

record unicode_tables =
  IsLetter :: "rune \<Rightarrow> bool"
  IsDigit :: "rune \<Rightarrow> bool"
  IsSpace :: "rune \<Rightarrow> bool"
  ToLower :: "rune \<Rightarrow> rune"

abbreviation RuneError :: rune where "RuneError \<equiv> 65533"

definition cont :: "nat \<Rightarrow> bool" where
  "cont b \<longleftrightarrow> 128 \<le> b \<and> b < 192"

fun utf8_runes :: "nat list \<Rightarrow> rune list" where
  "utf8_runes [] = []"
| "utf8_runes (b0 # bs) =
     (if b0 < 128 then b0 # utf8_runes bs
      else if 194 \<le> b0 \<and> b0 < 224 then
        (case bs of
           b1 # r \<Rightarrow> if cont b1 then ((b0 - 192) * 64 + (b1 - 128)) # utf8_runes r
                     else RuneError # utf8_runes bs
         | [] \<Rightarrow> [RuneError])
      else if 224 \<le> b0 \<and> b0 < 240 then
        (case bs of
           b1 # b2 # r \<Rightarrow>
             if cont b1 \<and> cont b2 \<and> (b0 = 224 \<longrightarrow> 160 \<le> b1) \<and> (b0 = 237 \<longrightarrow> b1 < 160)
             then ((b0 - 224) * 4096 + (b1 - 128) * 64 + (b2 - 128)) # utf8_runes r
             else RuneError # utf8_runes bs
         | _ \<Rightarrow> RuneError # utf8_runes bs)
      else if 240 \<le> b0 \<and> b0 < 245 then
        (case bs of
           b1 # b2 # b3 # r \<Rightarrow>
             if cont b1 \<and> cont b2 \<and> cont b3 \<and> (b0 = 240 \<longrightarrow> 144 \<le> b1) \<and> (b0 = 244 \<longrightarrow> b1 < 144)
             then ((b0 - 240) * 262144 + (b1 - 128) * 4096 + (b2 - 128) * 64 + (b3 - 128)) # utf8_runes r
             else RuneError # utf8_runes bs
         | _ \<Rightarrow> RuneError # utf8_runes bs)
      else RuneError # utf8_runes bs)"

definition runes :: "string \<Rightarrow> rune list" where
  "runes s = utf8_runes (map of_char s)"

definition encode_rune :: "rune \<Rightarrow> string" where
  "encode_rune r0 =
     (let r = (if 1114111 < r0 \<or> (55296 \<le> r0 \<and> r0 < 57344) then RuneError else r0) in
      map char_of
        (if r < 128 then [r]
         else if r < 2048 then [192 + r div 64, 128 + r mod 64]
         else if r < 65536 then [224 + r div 4096, 128 + r div 64 mod 64, 128 + r mod 64]
         else [240 + r div 262144, 128 + r div 4096 mod 64, 128 + r div 64 mod 64, 128 + r mod 64]))"

definition TrimSpace :: "unicode_tables \<Rightarrow> rune list \<Rightarrow> rune list" where
  "TrimSpace u rs = rev (dropWhile (IsSpace u) (rev (dropWhile (IsSpace u) rs)))"

definition TrimDash :: "string \<Rightarrow> string" where
  "TrimDash s = rev (dropWhile (\<lambda>c. c = CHR ''-'') (rev (dropWhile (\<lambda>c. c = CHR ''-'') s)))"

subsection \<open>internal/transit: Slugify\<close>

definition maxSlugLen :: nat where "maxSlugLen = 80"

fun slugLoop :: "unicode_tables \<Rightarrow> rune list \<Rightarrow> bool \<Rightarrow> string \<Rightarrow> string" where
  "slugLoop u [] lastDash b = b"
| "slugLoop u (r # rs) lastDash b =
     (if IsLetter u r \<or> IsDigit u r then slugLoop u rs False (b @ encode_rune r)
      else if \<not> lastDash \<and> b \<noteq> [] then slugLoop u rs True (b @ ''-'')
      else slugLoop u rs lastDash b)"

definition transit_Slugify :: "unicode_tables \<Rightarrow> string \<Rightarrow> string" where
  "transit_Slugify u name =
     (let b = slugLoop u (map (ToLower u) (TrimSpace u (runes name))) False [];
          slug0 = TrimDash b;
          slug = (if length slug0 > maxSlugLen then TrimDash (take maxSlugLen slug0) else slug0)
      in if slug = [] then ''service'' else slug)"

subsection \<open>internal/route: Slugify and IsValidSlug\<close>

definition isSlugRune :: "rune \<Rightarrow> bool" where
  "isSlugRune r \<longleftrightarrow> (97 \<le> r \<and> r \<le> 122) \<or> (48 \<le> r \<and> r \<le> 57)"

fun routeSlugLoop :: "rune list \<Rightarrow> bool \<Rightarrow> string \<Rightarrow> string" where
  "routeSlugLoop [] pendingHyphen b = b"
| "routeSlugLoop (r # rs) pendingHyphen b =
     (if isSlugRune r
      then routeSlugLoop rs False ((if pendingHyphen \<and> b \<noteq> [] then b @ ''-'' else b) @ encode_rune r)
      else routeSlugLoop rs True b)"

definition route_Slugify :: "unicode_tables \<Rightarrow> string \<Rightarrow> string" where
  "route_Slugify u name = routeSlugLoop (map (ToLower u) (runes name)) False []"

fun SplitDash :: "string \<Rightarrow> string list" where
  "SplitDash [] = [[]]"
| "SplitDash (c # cs) =
     (if c = CHR ''-'' then [] # SplitDash cs
      else (c # hd (SplitDash cs)) # tl (SplitDash cs))"

definition IsValidSlug :: "string \<Rightarrow> bool" where
  "IsValidSlug s \<longleftrightarrow> s \<noteq> [] \<and>
     list_all (\<lambda>part. part \<noteq> [] \<and> list_all isSlugRune (runes part)) (SplitDash s)"

subsection \<open>Bytes of a slug\<close>

definition slugChar :: "char \<Rightarrow> bool" where
  "slugChar c \<longleftrightarrow> isSlugRune (of_char c)"

lemma slugRune_lt: "isSlugRune r \<Longrightarrow> r < 128"
  by (auto simp: isSlugRune_def)

lemma encode_ascii: "r < 128 \<Longrightarrow> encode_rune r = [char_of r]"
  by (simp add: encode_rune_def)

lemma slugChar_char_of: "isSlugRune r \<Longrightarrow> slugChar (char_of r)"
  using slugRune_lt [of r] by (simp add: slugChar_def of_char_of)

lemma slugChar_not_dash: "slugChar c \<Longrightarrow> c \<noteq> CHR ''-''"
  by (auto simp: slugChar_def isSlugRune_def)

lemma utf8_runes_ascii: "\<forall>b \<in> set bs. b < 128 \<Longrightarrow> utf8_runes bs = bs"
  by (induction bs) auto

lemma runes_slug: "\<forall>c \<in> set s. slugChar c \<Longrightarrow> runes s = map of_char s"
  by (auto simp: runes_def slugChar_def slugRune_lt intro!: utf8_runes_ascii)

text \<open>A byte at or above 128 never decodes to a slug rune.\<close>

lemma utf8_runes_high: "utf8_runes (b # bs) = r # rs \<Longrightarrow> 128 \<le> b \<Longrightarrow> 128 \<le> r"
  by (auto simp: cont_def split: if_splits list.splits)

lemma utf8_runes_nonempty: "bs \<noteq> [] \<Longrightarrow> utf8_runes bs \<noteq> []"
  by (cases bs) (auto split: list.splits)

lemma runes_all_slug: "list_all isSlugRune (utf8_runes bs) \<Longrightarrow> \<forall>b \<in> set bs. isSlugRune b"
proof (induction bs)
  case (Cons b bs)
  obtain r rs where rs: "utf8_runes (b # bs) = r # rs"
    using utf8_runes_nonempty [of "b # bs"] by (cases "utf8_runes (b # bs)") auto
  with Cons.prems have "r < 128" using slugRune_lt by auto
  with rs have b: "b < 128" using utf8_runes_high [OF rs] by linarith
  with Cons show ?case by simp
qed simp

lemma validPart_iff: "list_all isSlugRune (runes part) \<longleftrightarrow> (\<forall>c \<in> set part. slugChar c)"
proof
  assume "list_all isSlugRune (runes part)"
  then show "\<forall>c \<in> set part. slugChar c"
    using runes_all_slug [of "map of_char part"] by (simp add: runes_def slugChar_def)
next
  assume "\<forall>c \<in> set part. slugChar c"
  then show "list_all isSlugRune (runes part)"
    using runes_slug by (simp add: list_all_iff slugChar_def)
qed

text \<open>
  \<open>IsValidSlug\<close> as a recogniser reading the string once: \<open>wf_slug d s\<close> accepts the rest
  \<open>s\<close> of a slug, \<open>d\<close> telling whether the last byte read was a slug character.
\<close>

fun wf_slug :: "bool \<Rightarrow> string \<Rightarrow> bool" where
  "wf_slug d [] \<longleftrightarrow> d"
| "wf_slug d (c # cs) \<longleftrightarrow> (if c = CHR ''-'' then d \<and> wf_slug False cs else slugChar c \<and> wf_slug True cs)"

lemma SplitDash_nonempty [simp]: "SplitDash s \<noteq> []"
  by (cases s) auto

lemma wf_slug_split:
  "wf_slug d s \<longleftrightarrow> (d \<or> hd (SplitDash s) \<noteq> []) \<and> (\<forall>c \<in> set (hd (SplitDash s)). slugChar c) \<and>
     (\<forall>part \<in> set (tl (SplitDash s)). part \<noteq> [] \<and> (\<forall>c \<in> set part. slugChar c))"
proof (induction s arbitrary: d)
  case (Cons c s)
  have "set (SplitDash s) = insert (hd (SplitDash s)) (set (tl (SplitDash s)))"
    by (cases "SplitDash s") auto
  with Cons show ?case by (auto simp: slugChar_not_dash)
qed simp

lemma IsValidSlug_wf: "IsValidSlug s \<longleftrightarrow> wf_slug False s"
proof -
  have "set (SplitDash s) = insert (hd (SplitDash s)) (set (tl (SplitDash s)))"
    by (cases "SplitDash s") auto
  moreover have "s = [] \<Longrightarrow> \<not> wf_slug False s" by simp
  ultimately show ?thesis
    unfolding IsValidSlug_def validPart_iff wf_slug_split unfolding list_all_iff by auto
qed

lemma wf_slug_append: "wf_slug d (s @ t) \<longleftrightarrow> (if t = [] then wf_slug d s else
    (if s = [] then wf_slug d t else if last s = CHR ''-'' then wf_slug False t \<and> wf_slug d (s @ ''a'') else wf_slug d s \<and> wf_slug True t))"
  by (induction s arbitrary: d) (auto simp: slugChar_def isSlugRune_def)

lemma routeSlugLoop_wf:
  assumes "b = [] \<or> wf_slug False b"
  shows "routeSlugLoop rs p b = [] \<or> wf_slug False (routeSlugLoop rs p b)"
  using assms
proof (induction rs p b rule: routeSlugLoop.induct)
  case (2 r rs p b)
  show ?case
  proof (cases "isSlugRune r")
    case True
    let ?c = "char_of r :: char"
    have c: "slugChar ?c" "?c \<noteq> CHR ''-''"
      using slugChar_char_of [OF True] slugChar_not_dash by auto
    have "wf_slug False (b @ [?c]) \<and> wf_slug False (b @ [CHR ''-'', ?c])" if "b \<noteq> []"
    proof -
      have w: "wf_slug False b" using 2 that by simp
      have "last b \<noteq> CHR ''-''"
      proof
        assume "last b = CHR ''-''"
        with that have "b = butlast b @ ''-''" by (metis append_butlast_last_id)
        with w wf_slug_append [of False "butlast b" "''-''"] show False
          by (auto split: if_splits)
      qed
      with w that c show ?thesis by (simp add: wf_slug_append)
    qed
    with True c 2 show ?thesis by (cases "b = []") (auto simp: encode_ascii [OF slugRune_lt])
  qed (use 2 in simp)
qed simp


lemma routeSlugLoop_slug:
  assumes "wf_slug d s" and "d \<Longrightarrow> b \<noteq> []"
  shows "routeSlugLoop (map of_char s) (\<not> d) b = (if d \<or> b = [] then b @ s else b @ ''-'' @ s)"
  using assms
proof (induction s arbitrary: d b)
  case (Cons c s)
  have dash: "\<not> isSlugRune (of_char CHR ''-'')" by (simp add: isSlugRune_def)
  have enc: "encode_rune (of_char c) = [c]" if "slugChar c"
    using that by (simp add: slugChar_def encode_ascii slugRune_lt)
  show ?case
  proof (cases "c = CHR ''-''")
    case True
    with Cons.prems dash Cons.IH [of False b] show ?thesis by simp
  next
    case False
    with Cons.prems have c: "slugChar c" "wf_slug True s" by auto
    with Cons.IH [OF c(2)] enc show ?thesis by (simp add: slugChar_def)
  qed
qed simp

lemma wf_slug_ascii: "wf_slug d s \<Longrightarrow> \<forall>c \<in> set s. slugChar c \<or> c = CHR ''-''"
  by (induction s arbitrary: d) (auto split: if_splits)

lemma runes_wf_slug: "wf_slug d s \<Longrightarrow> runes s = map of_char s"
proof -
  assume w: "wf_slug d s"
  have "of_char c < (128 :: nat)" if "c \<in> set s" for c
  proof -
    from bspec [OF wf_slug_ascii [OF w] that] show ?thesis
      by (elim disjE) (simp_all add: slugChar_def slugRune_lt)
  qed
  then show ?thesis unfolding runes_def by (intro utf8_runes_ascii) simp
qed

text \<open>What the slug functions rely on of \<open>unicode.ToLower\<close>: it leaves slug bytes alone.\<close>

definition ascii_lower_ok :: "unicode_tables \<Rightarrow> bool" where
  "ascii_lower_ok u \<longleftrightarrow> (\<forall>r < 128. isSlugRune r \<or> r = 45 \<longrightarrow> ToLower u r = r)"

lemma map_ToLower_slug:
  assumes "ascii_lower_ok u" and "wf_slug d s"
  shows "map (ToLower u) (map of_char s) = map of_char s"
proof -
  have "ToLower u (of_char c) = of_char c" if "c \<in> set s" for c
  proof -
    from bspec [OF wf_slug_ascii [OF assms(2)] that]
    have c: "isSlugRune (of_char c) \<or> of_char c = (45 :: nat)"
      by (elim disjE) (simp_all add: slugChar_def)
    then have "of_char c < (128 :: nat)" by (elim disjE) (simp_all add: slugRune_lt)
    with c assms(1) show ?thesis unfolding ascii_lower_ok_def by blast
  qed
  then show ?thesis by simp
qed

lemma route_Slugify_fixes:
  assumes "ascii_lower_ok u" and "IsValidSlug s"
  shows "route_Slugify u s = s"
proof -
  have w: "wf_slug False s" using assms(2) IsValidSlug_wf by simp
  then obtain c cs where s: "s = c # cs" "c \<noteq> CHR ''-''" by (cases s) (auto split: if_splits)
  have "routeSlugLoop (map of_char s) False [] = routeSlugLoop (map of_char s) True []"
    using w s by (simp add: slugChar_def)
  also have "\<dots> = s" using routeSlugLoop_slug [OF w, of "[]"] by simp
  finally show ?thesis
    by (simp add: route_Slugify_def runes_wf_slug [OF w] map_ToLower_slug [OF assms(1) w] del: map_map)
qed

text \<open>
  C20: A route slug minted from any name is empty or passes \<open>IsValidSlug\<close>, the check the same
  package applies to slugs a client supplies: lower-case ASCII words joined by single hyphens.
\<close>

theorem route_Slugify_valid: "route_Slugify u name = [] \<or> IsValidSlug (route_Slugify u name)"
  unfolding IsValidSlug_wf route_Slugify_def by (rule routeSlugLoop_wf) simp

subsection \<open>The transit slug\<close>

text \<open>
  The accumulated bytes never hold two hyphens in a row when runes encode without hyphens, and
  the result is a non-empty string of at most \<open>maxSlugLen\<close> bytes with no hyphen at its ends.
\<close>

lemma TrimDash_ends:
  "TrimDash s \<noteq> [] \<Longrightarrow> hd (TrimDash s) \<noteq> CHR ''-'' \<and> last (TrimDash s) \<noteq> CHR ''-''"
proof -
  let ?d = "\<lambda>c. c = CHR ''-''"
  assume ne: "TrimDash s \<noteq> []"
  define t where "t = dropWhile ?d s"
  have T: "TrimDash s = rev (dropWhile ?d (rev t))" by (simp add: TrimDash_def t_def)
  have l: "last (TrimDash s) \<noteq> CHR ''-''"
    using ne hd_dropWhile [of ?d "rev t"] unfolding T by (simp add: last_rev)
  have "t \<noteq> []" using ne T by auto
  then have "\<not> ?d (hd t)" using hd_dropWhile [of ?d s] by (simp add: t_def)
  moreover have "\<exists>u. t = TrimDash s @ u"
    unfolding T by (metis rev_append rev_rev_ident takeWhile_dropWhile_id)
  ultimately have "hd (TrimDash s) \<noteq> CHR ''-''" using ne by (auto simp: hd_append)
  with l show ?thesis by simp
qed

lemma length_TrimDash: "length (TrimDash s) \<le> length s"
  unfolding TrimDash_def using length_dropWhile_le le_trans by (metis length_rev)

lemma transit_Slugify_shape:
  "transit_Slugify u name \<noteq> [] \<and> length (transit_Slugify u name) \<le> maxSlugLen \<and>
     hd (transit_Slugify u name) \<noteq> CHR ''-'' \<and> last (transit_Slugify u name) \<noteq> CHR ''-''"
proof -
  define b where "b = slugLoop u (map (ToLower u) (TrimSpace u (runes name))) False []"
  have "length (TrimDash (take maxSlugLen (TrimDash b))) \<le> maxSlugLen"
    using length_TrimDash [of "take maxSlugLen (TrimDash b)"] by simp
  then show ?thesis
    using TrimDash_ends [of b] TrimDash_ends [of "take maxSlugLen (TrimDash b)"]
    by (simp add: transit_Slugify_def Let_def flip: b_def) (simp add: maxSlugLen_def)
qed

subsection \<open>Decimal suffixes and collision handling\<close>

text \<open>\<open>fmt\<close>'s \<open>%d\<close> of a non-negative number.\<close>

fun dec_string :: "nat \<Rightarrow> string" where
  "dec_string n = (if n < 10 then [char_of (48 + n)] else dec_string (n div 10) @ [char_of (48 + n mod 10)])"

declare dec_string.simps [simp del]

definition dec_value :: "string \<Rightarrow> nat" where
  "dec_value s = foldl (\<lambda>a c. a * 10 + (of_char c - 48)) 0 s"

lemma dec_value_dec_string: "dec_value (dec_string n) = n"
proof (induction n rule: dec_string.induct)
  case (1 n)
  then show ?case
    by (subst dec_string.simps) (simp add: dec_value_def of_char_of)
qed

lemma dec_string_inj: "dec_string m = dec_string n \<Longrightarrow> m = n"
  by (metis dec_value_dec_string)

lemma dec_string_chars: "c \<in> set (dec_string n) \<Longrightarrow> slugChar c"
proof (induction n rule: dec_string.induct)
  case (1 n)
  have d: "slugChar (char_of (48 + m))" if "m < 10" for m :: nat
    using that by (intro slugChar_char_of) (simp add: isSlugRune_def)
  have "c \<in> (if n < 10 then {char_of (48 + n)} else set (dec_string (n div 10)) \<union> {char_of (48 + n mod 10)})"
    using 1(2) by (subst (asm) dec_string.simps) (simp split: if_splits)
  then show ?case using 1(1) d [of n] d [of "n mod 10"] by (auto split: if_splits)
qed

lemma dec_string_nonempty [simp]: "dec_string n \<noteq> []"
  by (subst dec_string.simps) simp

definition suffixed :: "string \<Rightarrow> nat \<Rightarrow> string" where
  "suffixed base n = base @ ''-'' @ dec_string n"

lemma suffixed_inj: "suffixed base m = suffixed base n \<Longrightarrow> m = n"
  by (simp add: suffixed_def dec_string_inj)

lemma suffixed_neq: "suffixed base n \<noteq> base"
  by (simp add: suffixed_def)

text \<open>
  The slug-minting loop of the handlers (\<open>mintSlug\<close>, \<open>mintScenarioSlug\<close>,
  \<open>mintOwnedScenarioSlug\<close>, \<open>mintRouteSlug\<close>, \<open>mintStationSlug\<close>): the base, then the base
  with suffixes 2, 3, ... up to \<open>maxSlugAttempts\<close>, until the store has no row for one. The store
  lookup is a parameter: \<open>Inr taken\<close>, or its error.
\<close>

datatype 'e mint_error = StoreError 'e | NoFreeSlug string

definition maxSlugAttempts :: nat where "maxSlugAttempts = 100"

definition slug_candidate :: "string \<Rightarrow> nat \<Rightarrow> string" where
  "slug_candidate base attempt = (if attempt > 1 then suffixed base attempt else base)"

function mintLoop :: "(string \<Rightarrow> 'e + bool) \<Rightarrow> string \<Rightarrow> nat \<Rightarrow> 'e mint_error + string" where
  "mintLoop lookup base attempt =
     (if attempt > maxSlugAttempts then Inl (NoFreeSlug base)
      else (case lookup (slug_candidate base attempt) of
              Inl e \<Rightarrow> Inl (StoreError e)
            | Inr taken \<Rightarrow> if \<not> taken then Inr (slug_candidate base attempt)
                           else mintLoop lookup base (Suc attempt)))"
  by auto
termination by (relation "measure (\<lambda>(lookup, base, attempt). Suc maxSlugAttempts - attempt)") auto

declare mintLoop.simps [simp del]

definition mintSlug :: "unicode_tables \<Rightarrow> (string \<Rightarrow> 'e + bool) \<Rightarrow> string \<Rightarrow> 'e mint_error + string" where
  "mintSlug u getUserServiceBySlug name = mintLoop getUserServiceBySlug (transit_Slugify u name) 1"

definition mintScenarioSlug :: "unicode_tables \<Rightarrow> (string \<Rightarrow> 'e + bool) \<Rightarrow> string \<Rightarrow> 'e mint_error + string" where
  "mintScenarioSlug u getUserScenarioBySlug name = mintLoop getUserScenarioBySlug (transit_Slugify u name) 1"

definition mintRouteSlug :: "unicode_tables \<Rightarrow> (string \<Rightarrow> 'e + bool) \<Rightarrow> string \<Rightarrow> 'e mint_error + string" where
  "mintRouteSlug u getRouteBySlug name =
     (let base = route_Slugify u name in if base = [] then Inr [] else mintLoop getRouteBySlug base 1)"

definition mintOwnedScenarioSlug :: "unicode_tables \<Rightarrow> (string \<Rightarrow> 'e + bool) \<Rightarrow> string \<Rightarrow> 'e mint_error + string" where
  "mintOwnedScenarioSlug u getScenarioBySlug name =
     (let base = route_Slugify u name in if base = [] then Inr [] else mintLoop getScenarioBySlug base 1)"

definition mintStationSlug ::
  "unicode_tables \<Rightarrow> (string \<Rightarrow> string \<Rightarrow> 'e + bool) \<Rightarrow> string \<Rightarrow> string \<Rightarrow> 'e mint_error + string" where
  "mintStationSlug u getStationBySlug scenarioID name =
     (let base = route_Slugify u name in if base = [] then Inr [] else mintLoop (getStationBySlug scenarioID) base 1)"

lemma mintLoop_sound:
  assumes "mintLoop lookup base k = Inr slug"
  shows "\<exists>n. k \<le> n \<and> n \<le> maxSlugAttempts \<and> slug = slug_candidate base n \<and> lookup slug = Inr False \<and>
    (\<forall>m. k \<le> m \<and> m < n \<longrightarrow> lookup (slug_candidate base m) = Inr True)"
  using assms
proof (induction lookup base k rule: mintLoop.induct)
  case (1 lookup base k)
  from "1.prems" have k: "k \<le> maxSlugAttempts"
    by (subst (asm) mintLoop.simps) (auto split: if_splits)
  show ?case
  proof (cases "lookup (slug_candidate base k)")
    case (Inl e)
    with "1.prems" k show ?thesis by (subst (asm) mintLoop.simps) simp
  next
    case (Inr taken)
    show ?thesis
    proof (cases taken)
      case True
      with Inr k "1.prems" have rest: "mintLoop lookup base (Suc k) = Inr slug"
        by (subst (asm) mintLoop.simps) simp
      obtain n where n: "Suc k \<le> n" "n \<le> maxSlugAttempts" "slug = slug_candidate base n"
        "lookup slug = Inr False" "\<forall>m. Suc k \<le> m \<and> m < n \<longrightarrow> lookup (slug_candidate base m) = Inr True"
        using "1.IH" [OF _ Inr _ rest] k True by auto
      have "lookup (slug_candidate base m) = Inr True" if "k \<le> m" "m < n" for m
        using that Inr True n(5) by (cases "m = k") auto
      with n(1-4) show ?thesis by (intro exI [of _ n]) simp
    next
      case False
      with Inr k "1.prems" have "slug = slug_candidate base k"
        by (subst (asm) mintLoop.simps) simp
      with Inr False k show ?thesis by (intro exI [of _ k]) auto
    qed
  qed
qed

lemma mintLoop_complete:
  assumes "k \<le> n" "n \<le> maxSlugAttempts" "lookup (slug_candidate base n) = Inr False"
    and "\<forall>m. k \<le> m \<and> m < n \<longrightarrow> lookup (slug_candidate base m) = Inr True"
  shows "mintLoop lookup base k = Inr (slug_candidate base n)"
  using assms
proof (induction lookup base k rule: mintLoop.induct)
  case (1 lookup base k)
  show ?case
  proof (cases "k = n")
    case True
    with 1 show ?thesis by (subst mintLoop.simps) simp
  next
    case False
    with "1.prems" have "lookup (slug_candidate base k) = Inr True" "Suc k \<le> n" by auto
    with 1 show ?thesis by (subst mintLoop.simps) simp
  qed
qed

subsection \<open>No double hyphen\<close>

text \<open>
  Stop identities are \<open>service slug -- stop slug\<close>. A string without a double hyphen that does
  not end in one can be read back from in front of the first double hyphen.
\<close>

definition no_dd :: "string \<Rightarrow> bool" where
  "no_dd s \<longleftrightarrow> successively (\<lambda>a b. \<not> (a = CHR ''-'' \<and> b = CHR ''-'')) s"

lemma no_dd_short [simp]: "no_dd []" "no_dd [c]"
  by (simp_all add: no_dd_def)

definition clean_slug :: "string \<Rightarrow> bool" where
  "clean_slug s \<longleftrightarrow> s \<noteq> [] \<and> no_dd s \<and> hd s \<noteq> CHR ''-'' \<and> last s \<noteq> CHR ''-''"

lemma clean_prefix_unique:
  assumes "s @ ''--'' @ x = t @ ''--'' @ y" and "clean_slug s" "clean_slug t"
  shows "s = t"
proof -
  have no_prefix: "\<not> (\<exists>us. us \<noteq> [] \<and> t' = s' @ us)"
    if eq: "s' @ ''--'' @ x' = t' @ ''--'' @ y'" and "clean_slug s'" "clean_slug t'" for s' t' x' y' :: string
  proof
    assume "\<exists>us. us \<noteq> [] \<and> t' = s' @ us"
    then obtain us where us: "us \<noteq> []" "t' = s' @ us" by blast
    with eq have "''--'' @ x' = us @ ''--'' @ y'" by simp
    then obtain vs where "us = ''-'' \<or> us = ''--'' @ vs"
      using us(1) by (cases us; cases "tl us") auto
    with us that(3) show False by (auto simp: clean_slug_def no_dd_def successively_append_iff)
  qed
  from assms(1) obtain us where "s = t @ us \<or> t = s @ us"
    by (auto simp: append_eq_append_conv2)
  moreover note no_prefix [OF assms(1-3)] no_prefix [OF assms(1) [symmetric] assms(3,2)]
  ultimately show ?thesis by (cases "us = []") auto
qed

lemma no_dd_append:
  "no_dd (s @ t) \<longleftrightarrow> no_dd s \<and> no_dd t \<and>
     (s = [] \<or> t = [] \<or> last s \<noteq> CHR ''-'' \<or> hd t \<noteq> CHR ''-'')"
  by (auto simp: no_dd_def successively_append_iff)

definition dash_ok :: "unicode_tables \<Rightarrow> bool" where
  "dash_ok u \<longleftrightarrow> \<not> IsLetter u 45 \<and> \<not> IsDigit u 45"

lemma char_of_neq_dash: "n < 256 \<Longrightarrow> n \<noteq> 45 \<Longrightarrow> (char_of (n :: nat) :: char) \<noteq> CHR ''-''"
proof
  assume n: "n < 256" "n \<noteq> 45" and "char_of n = CHR ''-''"
  then have "of_char (char_of n :: char) = (45 :: nat)" by simp
  with n show False by (simp add: of_char_of)
qed

lemma char_of_bytes_dash:
  "\<forall>b \<in> set bs. b < 256 \<and> b \<noteq> 45 \<Longrightarrow> CHR ''-'' \<notin> set (map char_of (bs :: nat list))"
  by (induction bs) (use char_of_neq_dash in fastforce)+

lemma encode_rune_dash:
  assumes "r \<noteq> 45"
  shows "CHR ''-'' \<notin> set (encode_rune r)"
proof -
  define r' where "r' = (if 1114111 < r \<or> (55296 \<le> r \<and> r < 57344) then RuneError else r)"
  have r': "r' \<le> 1114111" "r' \<noteq> 45" using assms by (auto simp: r'_def)
  have "r' div 262144 \<le> 4" using r'(1) by (simp add: less_mult_imp_div_less flip: less_Suc_eq_le)
  moreover have "r' < 65536 \<Longrightarrow> r' div 4096 < 16" "r' < 2048 \<Longrightarrow> r' div 64 < 32"
    by (simp_all add: less_mult_imp_div_less)
  moreover have "r' mod 64 < 64" "r' div 64 mod 64 < 64" "r' div 4096 mod 64 < 64" by simp_all
  ultimately show ?thesis
    unfolding encode_rune_def Let_def r'_def [symmetric]
    by (intro char_of_bytes_dash) (use r'(2) in auto)
qed

lemma encode_rune_nonempty [simp]: "encode_rune r \<noteq> []"
  by (simp add: encode_rune_def Let_def)

lemma no_dash_no_dd: "CHR ''-'' \<notin> set s \<Longrightarrow> no_dd s"
  unfolding no_dd_def by (induction s rule: induct_list012) auto

lemma slugLoop_no_dd:
  assumes "dash_ok u" and "no_dd b" and "b \<noteq> [] \<and> last b = CHR ''-'' \<longrightarrow> lastDash"
  shows "no_dd (slugLoop u rs lastDash b)"
  using assms
proof (induction u rs lastDash b rule: slugLoop.induct)
  case (2 u r rs lastDash b)
  have d: "CHR ''-'' \<notin> set (encode_rune r)" if "IsLetter u r \<or> IsDigit u r"
    using that "2.prems"(1) by (intro encode_rune_dash) (auto simp: dash_ok_def)
  have "last (encode_rune r) \<noteq> CHR ''-'' \<and> hd (encode_rune r) \<noteq> CHR ''-'' \<and> no_dd (encode_rune r)"
    if "IsLetter u r \<or> IsDigit u r"
    using d [OF that] last_in_set [OF encode_rune_nonempty, of r] hd_in_set [OF encode_rune_nonempty, of r]
      no_dash_no_dd by metis
  with 2 show ?case by (auto simp: no_dd_append)
qed simp

lemma TrimDash_infix: "\<exists>xs ys. s = xs @ TrimDash s @ ys"
proof -
  let ?d = "\<lambda>c. c = CHR ''-''"
  define t where "t = dropWhile ?d s"
  have "s = takeWhile ?d s @ t" by (simp add: t_def)
  moreover have "t = TrimDash s @ rev (takeWhile ?d (rev t))"
    unfolding TrimDash_def t_def by (metis rev_append rev_rev_ident takeWhile_dropWhile_id)
  ultimately show ?thesis by metis
qed

lemma no_dd_TrimDash: "no_dd s \<Longrightarrow> no_dd (TrimDash s)"
  using TrimDash_infix [of s] by (metis no_dd_append)

lemma no_dd_take: "no_dd s \<Longrightarrow> no_dd (take n s)"
  by (metis append_take_drop_id no_dd_append)

lemma transit_Slugify_clean:
  assumes "dash_ok u"
  shows "clean_slug (transit_Slugify u name)"
proof -
  have "no_dd (slugLoop u (map (ToLower u) (TrimSpace u (runes name))) False [])"
    by (rule slugLoop_no_dd [OF assms]) simp_all
  then have "no_dd (transit_Slugify u name)"
    by (auto simp: transit_Slugify_def Let_def no_dd_TrimDash no_dd_take no_dd_def [of "''service''"])
  with transit_Slugify_shape [of u name] show ?thesis by (simp add: clean_slug_def)
qed

lemma last_dec_string: "last (dec_string n) \<noteq> CHR ''-''" "hd (dec_string n) \<noteq> CHR ''-''"
  using dec_string_chars [of _ n] slugChar_not_dash last_in_set hd_in_set dec_string_nonempty by metis+

lemma no_dd_dec_string: "no_dd (dec_string n)"
  using dec_string_chars slugChar_not_dash by (blast intro: no_dash_no_dd)

lemma clean_suffixed: "clean_slug base \<Longrightarrow> clean_slug (suffixed base n)"
  using no_dd_dec_string [of n] last_dec_string [of n]
  by (simp add: clean_slug_def suffixed_def no_dd_append [of base] no_dd_append [of "''-''" "dec_string n", simplified])

lemma clean_candidate: "clean_slug base \<Longrightarrow> clean_slug (slug_candidate base n)"
  by (simp add: slug_candidate_def clean_suffixed)

text \<open>
  C19: A service slug the handler mints was free when it was looked up, is non-empty, neither
  starts nor ends with a hyphen, and holds no double hyphen, so that it can serve as the prefix
  of a stop identity. The hypothesis is that a hyphen is neither a letter nor a digit.
\<close>

theorem mintSlug_free_clean:
  assumes "dash_ok u" and "mintSlug u getUserServiceBySlug name = Inr slug"
  shows "getUserServiceBySlug slug = Inr False \<and> clean_slug slug"
  using mintLoop_sound [OF assms(2) [unfolded mintSlug_def]]
    clean_candidate [OF transit_Slugify_clean [OF assms(1), of name]] by auto

text \<open>
  The Unicode tables restricted to ASCII and the Latin-1 letter U+00E9, enough for the concrete
  names below.
\<close>

definition sampleTables :: unicode_tables where
  "sampleTables =
     \<lparr>IsLetter = (\<lambda>r. (65 \<le> r \<and> r \<le> 90) \<or> (97 \<le> r \<and> r \<le> 122) \<or> r = 233),
      IsDigit = (\<lambda>r. 48 \<le> r \<and> r \<le> 57),
      IsSpace = (\<lambda>r. r = 32 \<or> (9 \<le> r \<and> r \<le> 13)),
      ToLower = (\<lambda>r. if 65 \<le> r \<and> r \<le> 90 then r + 32 else r)\<rparr>"

lemma sample_Slugify: "transit_Slugify sampleTables '' Red  Line!'' = ''red-line''"
  by (simp add: transit_Slugify_def runes_def sampleTables_def TrimSpace_def encode_rune_def TrimDash_def
      maxSlugLen_def Let_def char_of_def bit_0)

lemma mintSlug_free_clean_witness:
  "mintSlug sampleTables (\<lambda>s. Inr (s = ''red-line'') :: unit + bool) '' Red  Line!'' = Inr ''red-line-2'' \<and>
     clean_slug ''red-line-2''"
proof -
  have "mintSlug sampleTables (\<lambda>s. Inr (s = ''red-line'') :: unit + bool) '' Red  Line!'' = Inr ''red-line-2''"
    by (simp add: mintSlug_def sample_Slugify mintLoop.simps maxSlugAttempts_def slug_candidate_def
        suffixed_def dec_string.simps char_of_def bit_0)
  moreover have "dash_ok sampleTables" by (simp add: dash_ok_def sampleTables_def)
  ultimately show ?thesis using mintSlug_free_clean by blast
qed

text \<open>
  C21: On a valid slug \<open>Slugify\<close> of the route package is the identity, so a stored slug fed back
  in as a name keeps its value. The hypothesis is that \<open>unicode.ToLower\<close> fixes the lower-case
  ASCII letters, digits and the hyphen.
\<close>

theorem route_Slugify_idempotent:
  assumes "ascii_lower_ok u" and "IsValidSlug s"
  shows "route_Slugify u s = s"
  by (rule route_Slugify_fixes [OF assms])

lemma route_Slugify_idempotent_witness:
  "ascii_lower_ok sampleTables \<and> IsValidSlug ''harlem-line-2'' \<and>
     route_Slugify sampleTables ''harlem-line-2'' = ''harlem-line-2''"
proof -
  have "ascii_lower_ok sampleTables"
    by (auto simp: ascii_lower_ok_def sampleTables_def isSlugRune_def)
  moreover have "IsValidSlug ''harlem-line-2''" by code_simp
  ultimately show ?thesis using route_Slugify_idempotent by blast
qed

subsection \<open>Truncation at a byte boundary\<close>

text \<open>A name of one ASCII letter and forty letters U+00E9, each two bytes long.\<close>

definition splitName :: string where
  "splitName = CHR ''a'' # concat (replicate 40 [CHR 0xC3, CHR 0xA9])"

lemma utf8_runes_pairs: "utf8_runes (concat (replicate n [195, 169]) @ r) = replicate n 233 @ utf8_runes r"
  by (induction n) (simp_all add: cont_def)

lemma runes_pairs: "runes (CHR ''a'' # concat (replicate n [CHR 0xC3, CHR 0xA9]) @ r) = 97 # replicate n 233 @ runes r"
  using utf8_runes_pairs [of n "map of_char r"] by (simp add: runes_def map_concat)

lemma encode_sample: "encode_rune 233 = [CHR 0xC3, CHR 0xA9]" "encode_rune 97 = ''a''"
  by (simp_all add: encode_rune_def char_of_def bit_0)

lemma TrimDash_id: "CHR ''-'' \<notin> set s \<Longrightarrow> TrimDash s = s"
proof -
  have d: "dropWhile (\<lambda>c. c = CHR ''-'') t = t" if "CHR ''-'' \<notin> set t" for t
    using that by (cases t) auto
  show "CHR ''-'' \<notin> set s \<Longrightarrow> TrimDash s = s" by (simp add: TrimDash_def d)
qed

lemma slugLoop_pairs:
  "slugLoop sampleTables (replicate n 233) False b = b @ concat (replicate n [CHR 0xC3, CHR 0xA9])"
  by (induction n arbitrary: b) (simp_all add: encode_sample sampleTables_def)

lemma splitName_slug:
  "transit_Slugify sampleTables splitName = CHR ''a'' # concat (replicate 39 [CHR 0xC3, CHR 0xA9]) @ [CHR 0xC3]"
proof -
  let ?b = "CHR ''a'' # concat (replicate 40 [CHR 0xC3, CHR 0xA9])"
  have "runes splitName = 97 # replicate 40 233" using runes_pairs [of 40 "[]"] by (simp add: splitName_def runes_def)
  moreover have "TrimSpace sampleTables (97 # replicate 40 233) = 97 # replicate 40 233"
    by (simp add: TrimSpace_def sampleTables_def numeral_eq_Suc)
  moreover have "map (ToLower sampleTables) (97 # replicate 40 233) = 97 # replicate 40 233"
    by (simp add: sampleTables_def)
  moreover have "slugLoop sampleTables (97 # replicate 40 233) False [] = ?b"
    using slugLoop_pairs [of 40 "''a''"] by (simp add: sampleTables_def encode_sample)
  moreover have "TrimDash ?b = ?b" by (rule TrimDash_id) simp
  moreover have "length ?b > maxSlugLen" by (simp add: maxSlugLen_def length_concat sum_list_replicate)
  moreover have "take maxSlugLen ?b = CHR ''a'' # concat (replicate 39 [CHR 0xC3, CHR 0xA9]) @ [CHR 0xC3]"
    by (simp add: maxSlugLen_def numeral_eq_Suc)
  moreover have "TrimDash (CHR ''a'' # concat (replicate 39 [CHR 0xC3, CHR 0xA9]) @ [CHR 0xC3]) =
      CHR ''a'' # concat (replicate 39 [CHR 0xC3, CHR 0xA9]) @ [CHR 0xC3]" by (rule TrimDash_id) simp
  ultimately show ?thesis unfolding transit_Slugify_def Let_def by simp
qed

text \<open>
  C25: The transit slug is cut at \<open>maxSlugLen\<close> bytes, not runes: a valid UTF-8 name can yield a
  slug that ends in half a character and is no longer valid UTF-8.
\<close>

theorem transit_Slugify_splits_rune:
  "runes splitName = 97 # replicate 40 233 \<and>
     runes (transit_Slugify sampleTables splitName) = 97 # replicate 39 233 @ [RuneError]"
proof -
  have "runes [CHR 0xC3] = [RuneError]" by (simp add: runes_def)
  with runes_pairs [of 39 "[CHR 0xC3]"] runes_pairs [of 40 "[]"] show ?thesis
    unfolding splitName_slug by (simp add: splitName_def runes_def [of "[]"])
qed

end
