(* ===== verification/Compilable.thy ===== *)
theory Compilable
  imports Seeded_Compile Slug
begin

text \<open>
  \<open>internal/transit/compilable.go\<close>: the common form the physics compiler takes, its two
  adapters (a seeded service, an authored user service), and the identities an authored
  service mints for its stops.
\<close>

record Kinematics =
  kn_MaxSpeedKMH :: float64
  kn_AccelerationMS2 :: float64
  kn_DecelerationMS2 :: float64

record CompilableStop =
  cs_Slug :: string
  cs_Name :: string
  cs_Lat :: float64
  cs_Lng :: float64
  cs_DwellS :: int
  cs_OffsetM :: float64

record CompilableService =
  cp_ID :: string
  cp_Route :: Route
  cp_Vehicle :: Kinematics
  cp_Stops :: "CompilableStop list"
  cp_Windows :: "FrequencyWindow list"
  cp_BoardingWait :: "BoardingWaitOverride option"
  cp_ScenarioBoardingWait :: "BoardingWaitOverride option"

datatype compilable_error =
    CUnknownStation string string
  | CNoLocation string string
  | CRouteMismatch string string string

definition compilableStop ::
  "Service \<Rightarrow> VehicleType \<Rightarrow> (string \<rightharpoonup> Station) \<Rightarrow> ServiceStop \<Rightarrow> compilable_error + CompilableStop" where
  "compilableStop svc vt stationsByID stop =
     (case stationsByID (ss_StationID stop) of
        None \<Rightarrow> Inl (CUnknownStation (svc_ID svc) (ss_StationID stop))
      | Some st \<Rightarrow>
          (case gp_Coordinates (st_Location st) of
             lng # lat # _ \<Rightarrow>
               Inr \<lparr>cs_Slug = st_Slug st, cs_Name = st_Name st, cs_Lat = lat, cs_Lng = lng,
                    cs_DwellS = resolveDwell stop st vt, cs_OffsetM = 0\<rparr>
           | _ \<Rightarrow> Inl (CNoLocation (svc_ID svc) (st_Slug st))))"

definition compilableFromService ::
  "Route \<Rightarrow> Station list \<Rightarrow> Service \<Rightarrow> VehicleType \<Rightarrow> compilable_error + CompilableService" where
  "compilableFromService route stations svc vt =
     bind_res (map_res (compilableStop svc vt (index_by st_ID stations))
         (SliceStable (less_by ss_Sequence) (svc_Stops svc))) (\<lambda>compiled.
       Inr \<lparr>cp_ID = svc_ID svc, cp_Route = route,
            cp_Vehicle = \<lparr>kn_MaxSpeedKMH = vt_MaxSpeedKMH vt, kn_AccelerationMS2 = vt_AccelerationMS2 vt,
                          kn_DecelerationMS2 = vt_DecelerationMS2 vt\<rparr>,
            cp_Stops = compiled, cp_Windows = svc_FrequencyWindows svc,
            cp_BoardingWait = svc_BoardingWait svc, cp_ScenarioBoardingWait = None\<rparr>)"

subsection \<open>Stop identities\<close>

text \<open>
  The search for a free suffix runs while the candidate is taken. The map \<open>taken\<close> has one
  entry per stop already named, kept as the list of those slugs; since suffixes are pairwise
  different the search meets a free one, which is the termination measure.
\<close>

function freeSlug :: "string list \<Rightarrow> string \<Rightarrow> string \<Rightarrow> nat \<Rightarrow> string" where
  "freeSlug taken base slug n =
     (if slug \<in> set taken then freeSlug taken base (suffixed base n) (Suc n) else slug)"
  by auto
termination
proof (relation "measure (\<lambda>(taken, base, slug, n).
    card {m. n \<le> m \<and> suffixed base m \<in> set taken} + (if slug \<in> set taken then 1 else 0))")
  fix taken :: "string list" and base slug :: string and n :: nat
  assume slug: "slug \<in> set taken"
  let ?S = "\<lambda>n. {m. n \<le> m \<and> suffixed base m \<in> set taken}"
  have fin: "finite (?S k)" for k
  proof (rule finite_imageD)
    show "finite (suffixed base ` ?S k)" by (rule finite_subset [of _ "set taken"]) auto
    show "inj_on (suffixed base) (?S k)" by (auto intro!: inj_onI dest: suffixed_inj)
  qed
  have "?S n = (if suffixed base n \<in> set taken then insert n (?S (Suc n)) else ?S (Suc n))"
    by (auto simp: le_Suc_eq Suc_le_eq order_le_less)
  then have "card (?S n) = (if suffixed base n \<in> set taken then Suc (card (?S (Suc n))) else card (?S (Suc n)))"
    using fin [of "Suc n"] by (auto simp: card_insert_if)
  then show "((taken, base, suffixed base n, Suc n), (taken, base, slug, n)) \<in>
      measure (\<lambda>(taken, base, slug, n).
        card {m. n \<le> m \<and> suffixed base m \<in> set taken} + (if slug \<in> set taken then 1 else 0))"
    using slug by simp
qed simp

declare freeSlug.simps [simp del]

fun stopSlugsLoop :: "unicode_tables \<Rightarrow> string \<Rightarrow> string list \<Rightarrow> ServiceStopPoint list \<Rightarrow> string list" where
  "stopSlugsLoop u svcSlug taken [] = []"
| "stopSlugsLoop u svcSlug taken (stop # stops) =
     (let base = svcSlug @ ''--'' @ transit_Slugify u (sp_Name stop);
          slug = freeSlug taken base base 2
      in slug # stopSlugsLoop u svcSlug (slug # taken) stops)"

definition StopSlugs :: "unicode_tables \<Rightarrow> UserService \<Rightarrow> string list" where
  "StopSlugs u svc = stopSlugsLoop u (us_Slug svc) [] (us_Stops svc)"

definition MintStopSlugs :: "unicode_tables \<Rightarrow> UserService \<Rightarrow> UserService" where
  "MintStopSlugs u s =
     s\<lparr>us_Stops := map2 (\<lambda>stop slug. stop\<lparr>sp_Slug := slug\<rparr>) (us_Stops s) (StopSlugs u s)\<rparr>"

definition NormalizeStops :: "UserService \<Rightarrow> UserService" where
  "NormalizeStops s =
     s\<lparr>us_Stops := map2 (\<lambda>i stop. stop\<lparr>sp_Seq := int i\<rparr>) [0..<length (us_Stops s)] (us_Stops s)\<rparr>"

definition CompilableFromUserService ::
  "unicode_tables \<Rightarrow> Route \<Rightarrow> UserService \<Rightarrow> compilable_error + CompilableService" where
  "CompilableFromUserService u route svc =
     (if rt_ID route \<noteq> us_RouteID svc
      then Inl (CRouteMismatch (us_ID svc) (us_RouteID svc) (rt_ID route))
      else
        let slugs = StopSlugs u svc;
            order = SliceStable (\<lambda>a b. sp_Seq (us_Stops svc ! a) < sp_Seq (us_Stops svc ! b))
              [0..<length (us_Stops svc)];
            compiled = map (\<lambda>idx. let stop = us_Stops svc ! idx in
              \<lparr>cs_Slug = slugs ! idx, cs_Name = sp_Name stop, cs_Lat = sp_Lat stop, cs_Lng = sp_Lng stop,
               cs_DwellS = vp_DwellS (us_Vehicle svc), cs_OffsetM = sp_OffsetM stop\<rparr>) order
        in Inr \<lparr>cp_ID = us_ID svc, cp_Route = route,
                cp_Vehicle = \<lparr>kn_MaxSpeedKMH = vp_MaxSpeedKMH (us_Vehicle svc),
                              kn_AccelerationMS2 = vp_AccelerationMS2 (us_Vehicle svc),
                              kn_DecelerationMS2 = vp_DecelerationMS2 (us_Vehicle svc)\<rparr>,
                cp_Stops = compiled, cp_Windows = us_FrequencyWindows svc,
                cp_BoardingWait = us_BoardingWait svc, cp_ScenarioBoardingWait = None\<rparr>)"

subsection \<open>Minted identities are distinct\<close>

lemma freeSlug_fresh: "freeSlug taken base slug n \<notin> set taken"
  by (induction taken base slug n rule: freeSlug.induct) (subst freeSlug.simps, simp)

lemma freeSlug_shape:
  "freeSlug taken base slug n = slug \<or> (\<exists>m. n \<le> m \<and> freeSlug taken base slug n = suffixed base m)"
proof (induction taken base slug n rule: freeSlug.induct)
  case (1 taken base slug n)
  show ?case
  proof (cases "slug \<in> set taken")
    case True
    with 1 have "freeSlug taken base slug n = suffixed base n \<or>
        (\<exists>m. Suc n \<le> m \<and> freeSlug taken base slug n = suffixed base m)"
      by (subst (1 2) freeSlug.simps) simp
    then show ?thesis using Suc_leD by blast
  qed (subst freeSlug.simps, simp)
qed

lemma length_stopSlugsLoop [simp]: "length (stopSlugsLoop u s taken stops) = length stops"
  by (induction stops arbitrary: taken) (auto simp: Let_def)

lemma stopSlugsLoop_distinct:
  "distinct (stopSlugsLoop u s taken stops) \<and> set (stopSlugsLoop u s taken stops) \<inter> set taken = {}"
proof (induction stops arbitrary: taken)
  case (Cons stop stops)
  let ?base = "s @ ''--'' @ transit_Slugify u (sp_Name stop)"
  let ?slug = "freeSlug taken ?base ?base 2"
  from Cons.IH [of "?slug # taken"] freeSlug_fresh [of taken ?base ?base 2]
  show ?case by (auto simp: Let_def)
qed simp

lemma StopSlugs_distinct: "distinct (StopSlugs u svc)"
  unfolding StopSlugs_def using stopSlugsLoop_distinct by blast

lemma stopSlugsLoop_prefix:
  "slug \<in> set (stopSlugsLoop u s taken stops) \<Longrightarrow> \<exists>rest. slug = s @ ''--'' @ rest"
proof (induction stops arbitrary: taken)
  case (Cons stop stops)
  let ?base = "s @ ''--'' @ transit_Slugify u (sp_Name stop)"
  have "\<exists>rest. freeSlug taken ?base ?base 2 = s @ ''--'' @ rest"
    using freeSlug_shape [of taken ?base ?base 2] by (auto simp: suffixed_def)
  with Cons show ?case by (auto simp: Let_def)
qed simp

lemma stop_slugs_disjoint:
  assumes "us_Slug a \<noteq> us_Slug b" and "clean_slug (us_Slug a)" and "clean_slug (us_Slug b)"
  shows "set (StopSlugs u a) \<inter> set (StopSlugs u b) = {}"
proof (rule ccontr)
  assume "set (StopSlugs u a) \<inter> set (StopSlugs u b) \<noteq> {}"
  then obtain slug where "slug \<in> set (StopSlugs u a)" "slug \<in> set (StopSlugs u b)" by blast
  then obtain x y where "slug = us_Slug a @ ''--'' @ x" "slug = us_Slug b @ ''--'' @ y"
    unfolding StopSlugs_def using stopSlugsLoop_prefix by meson
  with assms clean_prefix_unique [of "us_Slug a" x "us_Slug b" y] show False by simp
qed

text \<open>
  C17: The stop identities of one service are pairwise distinct, one per stop, whatever its
  stops are called; the search for a free suffix always ends.
\<close>

theorem StopSlugs_injective: "distinct (StopSlugs u svc) \<and> length (StopSlugs u svc) = length (us_Stops svc)"
  using StopSlugs_distinct by (simp add: StopSlugs_def)

text \<open>
  C18: Two services with different minted slugs never share a stop identity: the service slug
  can be read off in front of the first double hyphen.
\<close>

theorem StopSlugs_disjoint:
  assumes "us_Slug a \<noteq> us_Slug b" and "clean_slug (us_Slug a)" and "clean_slug (us_Slug b)"
  shows "set (StopSlugs u a) \<inter> set (StopSlugs u b) = {}"
  by (rule stop_slugs_disjoint [OF assms])

subsection \<open>A sample authored service\<close>

definition sampleStopPoint :: "string \<Rightarrow> float64 \<Rightarrow> int \<Rightarrow> ServiceStopPoint" where
  "sampleStopPoint name lng seq =
     \<lparr>sp_Name = name, sp_Slug = [], sp_Lat = 0, sp_Lng = lng, sp_Seq = seq, sp_ChainageM = 0, sp_OffsetM = 0\<rparr>"

definition sampleUserService :: "string \<Rightarrow> ServiceStopPoint list \<Rightarrow> UserService" where
  "sampleUserService slug stops =
     \<lparr>us_ID = slug, us_Slug = slug, us_RouteID = ''r'', us_RouteSlug = ''r'', us_RouteName = ''r'',
      us_OwnerID = ''o'', us_Name = slug, us_Subtext = [], us_Description = [],
      us_Vehicle = \<lparr>vp_MaxSpeedKMH = 100, vp_AccelerationMS2 = 1, vp_DecelerationMS2 = 1, vp_DwellS = 20\<rparr>,
      us_Stops = stops, us_FrequencyWindows = [], us_CreatedAt = 0, us_UpdatedAt = 0, us_PublishedAt = None,
      us_BoardingWait = None, us_BoardingWaitPolicy = [], us_BoardingWaitSecs = 0, us_BoardingWaitSource = []\<rparr>"

lemma StopSlugs_disjoint_witness:
  "set (StopSlugs sampleTables (sampleUserService ''red'' [sampleStopPoint ''Main St'' 0 0])) \<inter>
     set (StopSlugs sampleTables (sampleUserService ''blue'' [sampleStopPoint ''Main St'' 0 0])) = {}"
  by (rule StopSlugs_disjoint) (simp_all add: sampleUserService_def clean_slug_def no_dd_def)

subsection \<open>The compilable form of an authored service\<close>

lemma compilable_user_stops:
  assumes "CompilableFromUserService u route svc = Inr cs"
  shows "mset (map cs_Slug (cp_Stops cs)) = mset (StopSlugs u svc)"
    and "cp_ID cs = us_ID svc" and "cp_Route cs = route" and "length (cp_Stops cs) = length (us_Stops svc)"
    and "cp_BoardingWait cs = us_BoardingWait svc"
    and "cp_Vehicle cs = \<lparr>kn_MaxSpeedKMH = vp_MaxSpeedKMH (us_Vehicle svc),
      kn_AccelerationMS2 = vp_AccelerationMS2 (us_Vehicle svc),
      kn_DecelerationMS2 = vp_DecelerationMS2 (us_Vehicle svc)\<rparr>"
proof -
  define lt where "lt = (\<lambda>a b. sp_Seq (us_Stops svc ! a) < sp_Seq (us_Stops svc ! b))"
  have "map cs_Slug (cp_Stops cs) = map ((!) (StopSlugs u svc)) (SliceStable lt [0..<length (us_Stops svc)])"
    using assms by (auto simp: CompilableFromUserService_def Let_def lt_def split: if_splits)
  then have "mset (map cs_Slug (cp_Stops cs)) = mset (map ((!) (StopSlugs u svc)) [0..<length (us_Stops svc)])"
    by simp
  also have "map ((!) (StopSlugs u svc)) [0..<length (us_Stops svc)] = StopSlugs u svc"
    by (rule nth_equalityI) (simp_all add: StopSlugs_def)
  finally show "mset (map cs_Slug (cp_Stops cs)) = mset (StopSlugs u svc)" .
qed (use assms in \<open>auto simp: CompilableFromUserService_def Let_def split: if_splits\<close>)

end
