(* ===== verification/Union_Find.thy ===== *)
theory Union_Find
  imports Prelude
begin

text \<open>
  The disjoint-set forest of \<open>internal/transit/interchange.go\<close>: \<open>findCluster\<close> (with path
  halving, mutating the parent array) and \<open>unionClusters\<close>. The loop of \<open>findCluster\<close> need
  not end on an arbitrary array, so it is a partial function, \<open>None\<close> standing for divergence;
  on a forest it is proved to return. The locale \<open>union_find\<close> is the contract the fold of the
  declared interchanges relies on.
\<close>

partial_function (option) findCluster :: "nat list \<Rightarrow> nat \<Rightarrow> (nat list \<times> nat) option" where
  "findCluster parent x =
     (if parent ! x \<noteq> x
      then (let parent' = parent[x := parent ! (parent ! x)] in findCluster parent' (parent' ! x))
      else Some (parent, x))"

definition unionClusters :: "nat list \<Rightarrow> nat \<Rightarrow> nat \<Rightarrow> nat list option" where
  "unionClusters parent a b =
     Option.bind (findCluster parent a) (\<lambda>(parent1, ra).
     Option.bind (findCluster parent1 b) (\<lambda>(parent2, rb).
       Some (if ra \<noteq> rb then parent2[ra := rb] else parent2)))"

declare findCluster.simps [code]

subsection \<open>The interface\<close>

text \<open>The equivalence a set of links generates.\<close>

definition linked :: "(nat \<times> nat) set \<Rightarrow> (nat \<times> nat) set" where
  "linked Q = (Q \<union> Q\<inverse>)\<^sup>*"

lemma linked_sym: "(x, y) \<in> linked Q \<Longrightarrow> (y, x) \<in> linked Q"
  unfolding linked_def by (metis converse_Un converse_converse rtrancl_converseI sup_commute)

lemma linked_trans: "(x, y) \<in> linked Q \<Longrightarrow> (y, z) \<in> linked Q \<Longrightarrow> (x, z) \<in> linked Q"
  unfolding linked_def by (rule rtrancl_trans)

lemma linked_refl [simp]: "(x, x) \<in> linked Q"
  by (simp add: linked_def)

lemma linked_empty [simp]: "(x, y) \<in> linked {} \<longleftrightarrow> x = y"
  by (auto simp: linked_def)

lemma linked_mono: "Q \<subseteq> Q' \<Longrightarrow> (x, y) \<in> linked Q \<Longrightarrow> (x, y) \<in> linked Q'"
  unfolding linked_def by (meson Un_mono converse_mono rtrancl_mono subsetD)

lemma linked_link: "(a, b) \<in> Q \<Longrightarrow> (a, b) \<in> linked Q"
  by (auto simp: linked_def)

lemma linked_insert:
  "(x, y) \<in> linked (insert (a, b) Q) \<longleftrightarrow>
     (x, y) \<in> linked Q \<or> ((x, a) \<in> linked Q \<and> (b, y) \<in> linked Q) \<or> ((x, b) \<in> linked Q \<and> (a, y) \<in> linked Q)"
  (is "?L = ?R")
proof
  have one: "(u, v) \<in> linked Q \<or> (u = a \<and> v = b) \<or> (u = b \<and> v = a)"
    if "(u, v) \<in> insert (a, b) Q \<union> (insert (a, b) Q)\<inverse>" for u v
    using that linked_link linked_sym by blast
  show "?L \<Longrightarrow> ?R"
    unfolding linked_def [of "insert (a, b) Q"]
  proof (induction rule: rtrancl_induct)
    case (step y z)
    from one [OF step(2)] step(3) show ?case by (meson linked_refl linked_trans)
  qed simp
next
  have m: "(u, v) \<in> linked Q \<Longrightarrow> (u, v) \<in> linked (insert (a, b) Q)" for u v
    by (rule linked_mono) auto
  have ab: "(a, b) \<in> linked (insert (a, b) Q)" by (rule linked_link) simp
  show "?R \<Longrightarrow> ?L"
    using m ab linked_sym [OF ab] linked_trans by meson
qed

text \<open>Sequences of unions and of finds, over any implementation.\<close>

fun unions :: "('s \<Rightarrow> nat \<Rightarrow> nat \<Rightarrow> 's option) \<Rightarrow> 's \<Rightarrow> (nat \<times> nat) list \<Rightarrow> 's option" where
  "unions join s [] = Some s"
| "unions join s ((a, b) # qs) = Option.bind (join s a b) (\<lambda>s'. unions join s' qs)"

fun find_all :: "('s \<Rightarrow> nat \<Rightarrow> ('s \<times> nat) option) \<Rightarrow> 's \<Rightarrow> nat list \<Rightarrow> nat list option" where
  "find_all fnd s [] = Some []"
| "find_all fnd s (x # xs) =
     Option.bind (fnd s x) (\<lambda>(s', r). Option.bind (find_all fnd s' xs) (\<lambda>rs. Some (r # rs)))"

locale union_find =
  fixes find :: "'s \<Rightarrow> nat \<Rightarrow> ('s \<times> nat) option"
    and union :: "'s \<Rightarrow> nat \<Rightarrow> nat \<Rightarrow> 's option"
    and inv :: "nat \<Rightarrow> 's \<Rightarrow> bool"
    and rep :: "'s \<Rightarrow> nat \<Rightarrow> nat"
  assumes find_ok: "inv n s \<Longrightarrow> x < n \<Longrightarrow>
      \<exists>s'. find s x = Some (s', rep s x) \<and> inv n s' \<and> (\<forall>y < n. rep s' y = rep s y)"
    and union_ok: "inv n s \<Longrightarrow> a < n \<Longrightarrow> b < n \<Longrightarrow>
      \<exists>s'. union s a b = Some s' \<and> inv n s' \<and>
        (\<forall>x < n. rep s' x = (if rep s x = rep s a then rep s b else rep s x))"
begin



lemma find_all_ok:
  "inv n s \<Longrightarrow> \<forall>x \<in> set xs. x < n \<Longrightarrow> find_all find s xs = Some (map (rep s) xs)"
proof (induction xs arbitrary: s)
  case (Cons x xs)
  then obtain s' where "find s x = Some (s', rep s x)" "inv n s'" "\<forall>y < n. rep s' y = rep s y"
    using find_ok [of n s x] by auto
  with Cons show ?case by simp
qed simp

text \<open>A sequence of unions returns, and joins exactly what its links generate, in any order.\<close>

lemma unions_ok:
  assumes "inv n s" and "\<forall>(a, b) \<in> set qs. a < n \<and> b < n"
    and "\<forall>x < n. \<forall>y < n. rep s x = rep s y \<longleftrightarrow> (x, y) \<in> linked Q"
  shows "\<exists>s'. unions union s qs = Some s' \<and> inv n s' \<and>
    (\<forall>x < n. \<forall>y < n. rep s' x = rep s' y \<longleftrightarrow> (x, y) \<in> linked (Q \<union> set qs))"
  using assms
proof (induction qs arbitrary: s Q)
  case (Cons q qs)
  obtain a b where q: "q = (a, b)" by (cases q)
  with Cons.prems have ab: "a < n" "b < n" by auto
  from union_ok [OF Cons.prems(1) this] obtain s' where s': "union s a b = Some s'" "inv n s'"
    "\<forall>x < n. rep s' x = (if rep s x = rep s a then rep s b else rep s x)" by blast
  note E = Cons.prems(3)
  have "rep s' x = rep s' y \<longleftrightarrow> (x, y) \<in> linked (insert (a, b) Q)" if "x < n" "y < n" for x y
  proof -
    have "rep s x = rep s a \<longleftrightarrow> (x, a) \<in> linked Q" "rep s y = rep s a \<longleftrightarrow> (a, y) \<in> linked Q"
      using E that ab linked_sym by blast+
    then have rx: "rep s' x = (if (x, a) \<in> linked Q then rep s b else rep s x)"
      and ry: "rep s' y = (if (a, y) \<in> linked Q then rep s b else rep s y)"
      using s'(3) that by simp_all
    have "rep s x = rep s y \<longleftrightarrow> (x, y) \<in> linked Q" "rep s b = rep s y \<longleftrightarrow> (b, y) \<in> linked Q"
      "rep s x = rep s b \<longleftrightarrow> (x, b) \<in> linked Q"
      using E that ab by blast+
    then show ?thesis
      unfolding rx ry linked_insert
      by (cases "(x, a) \<in> linked Q"; cases "(a, y) \<in> linked Q") (simp_all, (meson linked_sym linked_trans)+)
  qed
  with Cons.IH [of s' "insert (a, b) Q"] Cons.prems(2) s' q show ?case by simp
qed simp

end

subsection \<open>Forests\<close>

inductive uf_path :: "nat list \<Rightarrow> nat \<Rightarrow> nat \<Rightarrow> nat \<Rightarrow> bool" for p where
  here: "p ! x = x \<Longrightarrow> uf_path p x x 0"
| up: "p ! x \<noteq> x \<Longrightarrow> uf_path p (p ! x) r k \<Longrightarrow> uf_path p x r (Suc k)"

inductive_cases uf_path_elim: "uf_path p x r k"

lemma path_root: "uf_path p x r k \<Longrightarrow> p ! r = r"
  by (induction rule: uf_path.induct)

lemma path_unique: "uf_path p x r k \<Longrightarrow> uf_path p x r' k' \<Longrightarrow> r' = r \<and> k' = k"
proof (induction arbitrary: k' rule: uf_path.induct)
  case (here x)
  then show ?case by (auto elim: uf_path_elim)
next
  case (up x r k)
  from up.prems up.hyps(1) obtain j where "k' = Suc j" "uf_path p (p ! x) r' j" by (auto elim: uf_path_elim)
  with up.IH show ?case by blast
qed

lemma path_no_cycle: "uf_path p y r k \<Longrightarrow> p ! x = z \<Longrightarrow> p ! z = x \<Longrightarrow> x \<noteq> z \<Longrightarrow> y \<noteq> x \<and> y \<noteq> z"
  by (induction rule: uf_path.induct) auto

text \<open>Path halving only shortens paths.\<close>

lemma path_halve:
  assumes "uf_path p y r k" and "x < length p"
  shows "\<exists>k' \<le> k. uf_path (p[x := p ! (p ! x)]) y r k'"
  using assms
proof (induction rule: uf_path.induct)
  case (here y)
  then have "p[x := p ! (p ! x)] ! y = y" by (cases "y = x") auto
  then show ?case using uf_path.here by blast
next
  case (up y r k)
  let ?p = "p[x := p ! (p ! x)]" and ?z = "p ! y"
  from up obtain k' where k': "k' \<le> k" "uf_path ?p ?z r k'" by blast
  show ?case
  proof (cases "y = x")
    case False
    then have "?p ! y = ?z" by simp
    with up.hyps(1) k' show ?thesis using uf_path.up [of ?p y r k'] by (metis Suc_le_mono)
  next
    case True
    then have px: "?p ! x = p ! ?z" using up.prems by simp
    show ?thesis
    proof (cases "p ! ?z = ?z")
      case root: True
      with px True up.hyps(1) k' show ?thesis using uf_path.up [of ?p y r k'] by (metis Suc_le_mono)
    next
      case False
      have zx: "?z \<noteq> x" using True up.hyps(1) by simp
      then have "?p ! ?z = p ! ?z" by simp
      with False k'(2) obtain j where j: "k' = Suc j" "uf_path ?p (p ! ?z) r j"
        by (auto elim: uf_path_elim)
      have "p ! ?z \<noteq> x" using path_no_cycle [OF up.hyps(2), of x ?z] True zx by auto
      with px True j k' show ?thesis using uf_path.up [of ?p x r j] by (metis Suc_leD Suc_le_mono)
    qed
  qed
qed

lemma path_union:
  assumes "uf_path p y r k" and "p ! a = a" "p ! b = b" "a \<noteq> b" "a < length p"
  shows "\<exists>k'. uf_path (p[a := b]) y (if r = a then b else r) k'"
  using assms
proof (induction rule: uf_path.induct)
  case (here y)
  have "uf_path (p[a := b]) b b 0" using here by (intro uf_path.here) simp
  then show ?case
  proof (cases "y = a")
    case True
    with here \<open>uf_path (p[a := b]) b b 0\<close> show ?thesis using uf_path.up [of "p[a := b]" a b 0] by auto
  next
    case False
    with here show ?thesis using uf_path.here [of "p[a := b]" y] by auto
  qed
next
  case (up y r k)
  then have "y \<noteq> a" by auto
  then have "p[a := b] ! y = p ! y" by simp
  with up show ?case using uf_path.up [of "p[a := b]" y] by metis
qed

definition forest :: "nat \<Rightarrow> nat list \<Rightarrow> bool" where
  "forest n p \<longleftrightarrow> length p = n \<and> (\<forall>x < n. p ! x < n \<and> (\<exists>r k. uf_path p x r k))"

definition root_of :: "nat list \<Rightarrow> nat \<Rightarrow> nat" where
  "root_of p x = (THE r. \<exists>k. uf_path p x r k)"

lemma root_of_eq: "uf_path p x r k \<Longrightarrow> root_of p x = r"
  unfolding root_of_def using path_unique by blast

lemma forest_path: "forest n p \<Longrightarrow> x < n \<Longrightarrow> \<exists>k. uf_path p x (root_of p x) k"
  unfolding forest_def using root_of_eq by metis

lemma path_bound: "uf_path p x r k \<Longrightarrow> forest n p \<Longrightarrow> x < n \<Longrightarrow> r < n"
  by (induction rule: uf_path.induct) (auto simp: forest_def)

lemma forest_halve:
  assumes "forest n p" and "x < n"
  shows "forest n (p[x := p ! (p ! x)])" and "\<forall>y < n. root_of (p[x := p ! (p ! x)]) y = root_of p y"
proof -
  let ?p = "p[x := p ! (p ! x)]"
  have len: "length p = n" using assms(1) by (simp add: forest_def)
  have uf_path: "\<exists>k. uf_path ?p y (root_of p y) k" if "y < n" for y
    using forest_path [OF assms(1) that] path_halve assms(2) len by blast
  then show "\<forall>y < n. root_of ?p y = root_of p y" using root_of_eq by blast
  have "?p ! y < n" if "y < n" for y
    using assms that by (cases "y = x") (auto simp: forest_def)
  moreover have "\<exists>r k. uf_path ?p y r k" if "y < n" for y using uf_path [OF that] by blast
  ultimately show "forest n ?p" using len by (simp add: forest_def)
qed

lemma findCluster_ok:
  assumes "uf_path p x r k" and "forest n p" and "x < n"
  shows "\<exists>p'. findCluster p x = Some (p', r) \<and> forest n p' \<and> (\<forall>y < n. root_of p' y = root_of p y)"
  using assms
proof (induction k arbitrary: p x rule: less_induct)
  case (less k)
  show ?case
  proof (cases "p ! x = x")
    case True
    with less.prems(1) have "r = x" by (auto elim: uf_path_elim)
    with True less.prems show ?thesis by (subst findCluster.simps) simp
  next
    case False
    let ?p = "p[x := p ! (p ! x)]" and ?x = "p ! (p ! x)"
    have len: "length p = n" using less.prems(2) by (simp add: forest_def)
    from False less.prems(1) obtain j where j: "k = Suc j" "uf_path p (p ! x) r j" by (auto elim: uf_path_elim)
    have "\<exists>i \<le> j. uf_path p ?x r i"
      using j(2) by (cases rule: uf_path_elim) (auto intro: le_SucI)
    then obtain i where "i < k" "uf_path ?p ?x r i"
      using path_halve [of p ?x r _ x] less.prems(3) len j(1) by (metis le_imp_less_Suc le_trans)
    moreover have "?x < n" using less.prems(2,3) by (simp add: forest_def)
    moreover note forest_halve [OF less.prems(2,3)]
    ultimately obtain p' where "findCluster ?p ?x = Some (p', r)" "forest n p'"
      "\<forall>y < n. root_of p' y = root_of p y" using less.IH [of i ?p ?x] by auto
    moreover have "?p ! x = ?x" using less.prems(3) len by simp
    ultimately show ?thesis using False by (subst findCluster.simps) (simp add: Let_def)
  qed
qed

lemma unionClusters_ok:
  assumes "forest n p" and "a < n" "b < n"
  shows "\<exists>p'. unionClusters p a b = Some p' \<and> forest n p' \<and>
    (\<forall>x < n. root_of p' x = (if root_of p x = root_of p a then root_of p b else root_of p x))"
proof -
  obtain p1 where p1: "findCluster p a = Some (p1, root_of p a)" "forest n p1"
    "\<forall>y < n. root_of p1 y = root_of p y"
    using findCluster_ok forest_path [OF assms(1,2)] assms by metis
  obtain p2 where p2: "findCluster p1 b = Some (p2, root_of p b)" "forest n p2"
    "\<forall>y < n. root_of p2 y = root_of p y"
    using findCluster_ok [of p1 b _ _ n] forest_path [OF p1(2) assms(3)] p1 assms by metis
  let ?ra = "root_of p a" and ?rb = "root_of p b"
  have eq: "unionClusters p a b = Some (if ?ra \<noteq> ?rb then p2[?ra := ?rb] else p2)"
    using p1 p2 by (simp add: unionClusters_def)
  show ?thesis
  proof (cases "?ra = ?rb")
    case True
    with eq p2 show ?thesis by auto
  next
    case False
    have rts: "p2 ! ?ra = ?ra" "p2 ! ?rb = ?rb" "?ra < n" "?rb < n"
      using forest_path [OF p2(2) assms(2)] forest_path [OF p2(2) assms(3)] p2(3) assms path_root path_bound p2(2)
      by metis+
    have len: "length p2 = n" using p2(2) by (simp add: forest_def)
    have uf_path: "\<exists>k. uf_path (p2[?ra := ?rb]) x (if root_of p x = ?ra then ?rb else root_of p x) k" if "x < n" for x
      using forest_path [OF p2(2) that] path_union [OF _ rts(1,2) False] rts(3) len p2(3) that by metis
    have "p2[?ra := ?rb] ! x < n" if "x < n" for x
      using p2(2) that rts len by (cases "x = ?ra") (auto simp: forest_def)
    moreover have "\<exists>r k. uf_path (p2[?ra := ?rb]) x r k" if "x < n" for x using uf_path [OF that] by blast
    ultimately have "forest n (p2[?ra := ?rb])" using len by (simp add: forest_def)
    moreover have "root_of (p2[?ra := ?rb]) x = (if root_of p x = ?ra then ?rb else root_of p x)" if "x < n" for x
      using uf_path [OF that] root_of_eq by blast
    ultimately show ?thesis using eq False by simp
  qed
qed

lemma forest_init: "forest n [0..<n]" "x < n \<Longrightarrow> root_of [0..<n] x = x"
proof -
  have "uf_path [0..<n] x x 0" if "x < n" for x using that by (intro uf_path.here) simp
  then show "forest n [0..<n]" "x < n \<Longrightarrow> root_of [0..<n] x = x"
    using root_of_eq [of "[0..<n]" x x 0] by (auto simp: forest_def)
qed

interpretation clusters: union_find findCluster unionClusters forest root_of
proof
  show "\<exists>s'. findCluster s x = Some (s', root_of s x) \<and> forest n s' \<and> (\<forall>y < n. root_of s' y = root_of s y)"
    if "forest n s" "x < n" for n s x
    using findCluster_ok forest_path [OF that] that by metis
qed (rule unionClusters_ok)

end
