(* ===== verification/Cluster.thy ===== *)
theory Cluster
  imports Compilable Union_Find
begin

text \<open>
  \<open>internal/transit/cluster.go\<close> and \<open>internal/transit/interchange.go\<close>: stops of different
  services that lie close together are merged onto one graph node, then the interchanges an
  author declared are folded in. Indices into the source's slices are \<open>nat\<close>. The fold runs the
  disjoint-set forest of theory \<open>Union_Find\<close>, so its result is an option whose \<open>None\<close> is
  divergence; it is proved to return.
\<close>

definition MergeRadiusM :: float64 where "MergeRadiusM = 50"
definition MaxMergeRadiusM :: float64 where "MaxMergeRadiusM = 500"
definition NearMissRadiusM :: float64 where "NearMissRadiusM = 5 * MergeRadiusM"

definition effectiveMergeRadius :: "float64 \<Rightarrow> float64 \<Rightarrow> float64" where
  "effectiveMergeRadius offsetA offsetB =
     (let r = MergeRadiusM + offsetA + offsetB in if r > MaxMergeRadiusM then MaxMergeRadiusM else r)"

record mergeStop =
  ms_svcIdx :: nat
  ms_stopIdx :: nat
  ms_ref :: StopRef
  ms_at :: Point
  ms_offsetM :: float64

abbreviation ms_Slug :: "mergeStop \<Rightarrow> string" where "ms_Slug s \<equiv> sr_Slug (ms_ref s)"
abbreviation ms_ServiceID :: "mergeStop \<Rightarrow> string" where "ms_ServiceID s \<equiv> sr_ServiceID (ms_ref s)"

definition stop_lt :: "mergeStop \<Rightarrow> mergeStop \<Rightarrow> bool" where
  "stop_lt a b =
     (if ms_Slug a \<noteq> ms_Slug b then ms_Slug a < ms_Slug b else ms_ServiceID a < ms_ServiceID b)"

definition mergeStopOf :: "nat \<Rightarrow> nat \<Rightarrow> string \<Rightarrow> CompilableStop \<Rightarrow> mergeStop" where
  "mergeStopOf i j svcID s =
     \<lparr>ms_svcIdx = i, ms_stopIdx = j,
      ms_ref = \<lparr>sr_ServiceID = svcID, sr_Slug = cs_Slug s, sr_Name = cs_Name s\<rparr>,
      ms_at = \<lparr>pt_Lng = cs_Lng s, pt_Lat = cs_Lat s\<rparr>, ms_offsetM = cs_OffsetM s\<rparr>"

definition allStops :: "CompilableService list \<Rightarrow> mergeStop list" where
  "allStops svcs =
     concat (map (\<lambda>(i, svc). map (\<lambda>(j, s). mergeStopOf i j (cp_ID svc) s) (enumerate 0 (cp_Stops svc)))
       (enumerate 0 svcs))"

definition flattenStops :: "CompilableService list \<Rightarrow> mergeStop list" where
  "flattenStops svcs = SliceStable stop_lt (allStops svcs)"

record pendingCluster =
  pc_members :: "mergeStop list"
  pc_services :: "string set"

definition pc_key :: "pendingCluster \<Rightarrow> string" where "pc_key c = ms_Slug (hd (pc_members c))"
definition pc_anchor :: "pendingCluster \<Rightarrow> Point" where "pc_anchor c = ms_at (hd (pc_members c))"
definition pc_anchorOffsetM :: "pendingCluster \<Rightarrow> float64" where
  "pc_anchorOffsetM c = ms_offsetM (hd (pc_members c))"

definition canJoin :: "pendingCluster \<Rightarrow> mergeStop \<Rightarrow> bool" where
  "canJoin c s \<longleftrightarrow> ms_ServiceID s \<notin> pc_services c \<and>
     DistanceM (pc_anchor c) (ms_at s) \<le> effectiveMergeRadius (pc_anchorOffsetM c) (ms_offsetM s)"

fun joinIndex :: "nat \<Rightarrow> pendingCluster list \<Rightarrow> mergeStop \<Rightarrow> nat option" where
  "joinIndex ci [] s = None"
| "joinIndex ci (c # cs) s = (if canJoin c s then Some ci else joinIndex (Suc ci) cs s)"

definition newCluster :: "mergeStop \<Rightarrow> pendingCluster" where
  "newCluster s = \<lparr>pc_members = [s], pc_services = {ms_ServiceID s}\<rparr>"

definition addMember :: "pendingCluster \<Rightarrow> mergeStop \<Rightarrow> pendingCluster" where
  "addMember c s = c\<lparr>pc_members := pc_members c @ [s], pc_services := insert (ms_ServiceID s) (pc_services c)\<rparr>"

fun clusterLoop ::
  "mergeStop list \<Rightarrow> pendingCluster list \<Rightarrow> nat list \<Rightarrow> pendingCluster list \<times> nat list" where
  "clusterLoop [] clusters clusterOf = (clusters, clusterOf)"
| "clusterLoop (s # stops) clusters clusterOf =
     (case joinIndex 0 clusters s of
        None \<Rightarrow> clusterLoop stops (clusters @ [newCluster s]) (clusterOf @ [length clusters])
      | Some joined \<Rightarrow>
          clusterLoop stops (clusters[joined := addMember (clusters ! joined) s]) (clusterOf @ [joined]))"

definition clusterStops :: "mergeStop list \<Rightarrow> pendingCluster list \<times> nat list" where
  "clusterStops stops = clusterLoop stops [] []"

fun namesLoop :: "string set \<Rightarrow> mergeStop list \<Rightarrow> string list" where
  "namesLoop seen [] = []"
| "namesLoop seen (m # ms) =
     (let name = sr_Name (ms_ref m) in
      if name \<in> seen then namesLoop seen ms else name # namesLoop (insert name seen) ms)"

definition clusterNames :: "pendingCluster \<Rightarrow> string list" where
  "clusterNames c = namesLoop {} (pc_members c)"

definition pc_node :: "pendingCluster \<Rightarrow> GraphNode" where
  "pc_node c =
     \<lparr>gn_Slug = pc_key c, gn_Lat = pt_Lat (pc_anchor c), gn_Lng = pt_Lng (pc_anchor c),
      gn_RoutingLat = None, gn_RoutingLng = None, gn_Names = clusterNames c\<rparr>"

definition clusterNodes :: "pendingCluster list \<Rightarrow> GraphNode list" where
  "clusterNodes clusters = map pc_node clusters"

definition realisedClusters :: "pendingCluster list \<Rightarrow> StopCluster list" where
  "realisedClusters clusters =
     map (\<lambda>c. \<lparr>scl_Key = pc_key c, scl_Names = clusterNames c, scl_Members = map ms_ref (pc_members c)\<rparr>)
       (filter (\<lambda>c. \<not> length (pc_members c) < 2) clusters)"

definition nearMiss :: "mergeStop \<times> nat \<Rightarrow> mergeStop \<times> nat \<Rightarrow> NearMiss list" where
  "nearMiss a b =
     (if ms_ServiceID (fst a) = ms_ServiceID (fst b) then []
      else if snd a = snd b then []
      else let d = DistanceM (ms_at (fst a)) (ms_at (fst b)) in
        if d > NearMissRadiusM then []
        else [\<lparr>nm_A = ms_ref (fst a), nm_B = ms_ref (fst b), nm_DistanceM = d\<rparr>])"

fun nearMissLoop :: "(mergeStop \<times> nat) list \<Rightarrow> NearMiss list" where
  "nearMissLoop [] = []"
| "nearMissLoop (a # rest) = concat (map (nearMiss a) rest) @ nearMissLoop rest"

definition nearMisses :: "mergeStop list \<Rightarrow> nat list \<Rightarrow> NearMiss list" where
  "nearMisses stops clusterOf = nearMissLoop (zip stops clusterOf)"

subsection \<open>Declared interchanges\<close>

datatype pair_error =
    SameServicePair nat string
  | UnknownPairStop nat StopIdentity

definition knownStops :: "CompilableService list \<Rightarrow> StopIdentity set" where
  "knownStops svcs =
     (\<Union>svc \<in> set svcs. (\<lambda>s. \<lparr>si_ServiceID = cp_ID svc, si_Slug = cs_Slug s\<rparr>) ` set (cp_Stops svc))"

fun checkPairs :: "StopIdentity set \<Rightarrow> nat \<Rightarrow> InterchangePair list \<Rightarrow> pair_error option" where
  "checkPairs known i [] = None"
| "checkPairs known i (p # ps) =
     (if si_ServiceID (ip_A p) = si_ServiceID (ip_B p) then Some (SameServicePair i (si_ServiceID (ip_A p)))
      else if ip_A p \<notin> known then Some (UnknownPairStop i (ip_A p))
      else if ip_B p \<notin> known then Some (UnknownPairStop i (ip_B p))
      else checkPairs known (Suc i) ps)"

definition validateInterchangePairs ::
  "CompilableService list \<Rightarrow> InterchangePair list \<Rightarrow> pair_error option" where
  "validateInterchangePairs svcs pairs = (if pairs = [] then None else checkPairs (knownStops svcs) 0 pairs)"

definition stopIdentity :: "mergeStop \<Rightarrow> StopIdentity" where
  "stopIdentity s = \<lparr>si_ServiceID = ms_ServiceID s, si_Slug = ms_Slug s\<rparr>"

definition stopIndex :: "mergeStop list \<Rightarrow> StopIdentity \<rightharpoonup> nat" where
  "stopIndex stops = map_option fst \<circ> index_by (\<lambda>(i, s). stopIdentity s) (enumerate 0 stops)"

text \<open>The links the pairs contribute: pairs naming an unknown stop are skipped.\<close>

definition pairLink :: "(StopIdentity \<rightharpoonup> nat) \<Rightarrow> nat list \<Rightarrow> InterchangePair \<Rightarrow> (nat \<times> nat) list" where
  "pairLink index clusterOf p =
     (case index (ip_A p) of
        None \<Rightarrow> []
      | Some ia \<Rightarrow>
          (case index (ip_B p) of
             None \<Rightarrow> []
           | Some ib \<Rightarrow> [(clusterOf ! ia, clusterOf ! ib)]))"

fun unionPairs ::
  "(StopIdentity \<rightharpoonup> nat) \<Rightarrow> nat list \<Rightarrow> nat list \<Rightarrow> InterchangePair list \<Rightarrow> nat list option" where
  "unionPairs index clusterOf parent [] = Some parent"
| "unionPairs index clusterOf parent (p # ps) =
     (case pairLink index clusterOf p of
        (a, b) # _ \<Rightarrow> Option.bind (unionClusters parent a b) (\<lambda>parent'. unionPairs index clusterOf parent' ps)
      | [] \<Rightarrow> unionPairs index clusterOf parent ps)"

definition foldGroup :: "pendingCluster list \<Rightarrow> nat list \<Rightarrow> nat \<Rightarrow> pendingCluster" where
  "foldGroup clusters rootOf rootc =
     (let grp = map fst (filter (\<lambda>(c, r). r = rootc) (zip clusters rootOf))
      in \<lparr>pc_members = SliceStable stop_lt (concat (map pc_members grp)),
          pc_services = \<Union> (set (map pc_services grp))\<rparr>)"

fun foldLoop ::
  "pendingCluster list \<Rightarrow> nat list \<Rightarrow> nat list \<Rightarrow> (nat \<rightharpoonup> nat) \<Rightarrow> pendingCluster list
    \<Rightarrow> pendingCluster list \<times> (nat \<rightharpoonup> nat)" where
  "foldLoop clusters rootOf [] foldedIndexOf folded = (folded, foldedIndexOf)"
| "foldLoop clusters rootOf (rootc # rest) foldedIndexOf folded =
     (if foldedIndexOf rootc \<noteq> None then foldLoop clusters rootOf rest foldedIndexOf folded
      else foldLoop clusters rootOf rest (foldedIndexOf(rootc \<mapsto> length folded))
             (folded @ [foldGroup clusters rootOf rootc]))"

definition foldDeclaredPairs ::
  "mergeStop list \<Rightarrow> pendingCluster list \<Rightarrow> nat list \<Rightarrow> InterchangePair list
    \<Rightarrow> (pendingCluster list \<times> nat list) option" where
  "foldDeclaredPairs stops clusters clusterOf pairs =
     (if pairs = [] then Some (clusters, clusterOf)
      else
        Option.bind (unionPairs (stopIndex stops) clusterOf [0..<length clusters] pairs) (\<lambda>parent.
        Option.bind (find_all findCluster parent [0..<length clusters]) (\<lambda>rootOf.
          let (folded, foldedIndexOf) = foldLoop clusters rootOf rootOf Map.empty []
          in Some (folded,
               map (\<lambda>ci. case foldedIndexOf (rootOf ! ci) of None \<Rightarrow> 0 | Some k \<Rightarrow> k) clusterOf))))"

definition setSlug :: "CompilableService list \<Rightarrow> mergeStop \<times> string \<Rightarrow> CompilableService list" where
  "setSlug svcs sk =
     (let i = ms_svcIdx (fst sk); j = ms_stopIdx (fst sk); svc = svcs ! i in
      svcs[i := svc\<lparr>cp_Stops := (cp_Stops svc)[j := (cp_Stops svc ! j)\<lparr>cs_Slug := snd sk\<rparr>]\<rparr>])"

definition MergeColocatedStops ::
  "CompilableService list \<Rightarrow> InterchangePair list
    \<Rightarrow> (CompilableService list \<times> MergeReport \<times> GraphNode list) option" where
  "MergeColocatedStops svcs pairs =
     (let stops = flattenStops svcs;
          (clusters0, clusterOf0) = clusterStops stops
      in Option.bind (foldDeclaredPairs stops clusters0 clusterOf0 pairs) (\<lambda>(clusters, clusterOf).
           let merged = foldl setSlug svcs (zip stops (map (\<lambda>ci. pc_key (clusters ! ci)) clusterOf))
           in Some (merged,
                \<lparr>mr_Clusters = realisedClusters clusters, mr_NearMisses = nearMisses stops clusterOf\<rparr>,
                clusterNodes clusters)))"

subsection \<open>The stop order\<close>

interpretation stops: slice_order stop_lt
proof
  show "stop_lt x z" if a: "stop_lt x y" "stop_lt y z" for x y z
  proof (cases "ms_Slug x = ms_Slug z")
    case True
    have "ms_Slug x \<le> ms_Slug y" "ms_Slug y \<le> ms_Slug z" using a by (auto simp: stop_lt_def split: if_splits)
    with True have "ms_Slug x = ms_Slug y" "ms_Slug y = ms_Slug z" by auto
    with a show ?thesis by (auto simp: stop_lt_def)
  next
    case False
    have "ms_Slug x \<le> ms_Slug y" "ms_Slug y \<le> ms_Slug z" using a by (auto simp: stop_lt_def split: if_splits)
    with False have "ms_Slug x < ms_Slug z" by order
    with False show ?thesis by (simp add: stop_lt_def)
  qed
  show "\<not> stop_lt x z" if a: "\<not> stop_lt x y" "\<not> stop_lt y z" for x y z
  proof
    assume xz: "stop_lt x z"
    have "ms_Slug y \<le> ms_Slug x" "ms_Slug z \<le> ms_Slug y" "ms_Slug x \<le> ms_Slug z"
      using a xz by (auto simp: stop_lt_def split: if_splits)
    then have eq: "ms_Slug x = ms_Slug y" "ms_Slug y = ms_Slug z" by auto
    with a xz have "ms_ServiceID y \<le> ms_ServiceID x" "ms_ServiceID z \<le> ms_ServiceID y"
      "ms_ServiceID x < ms_ServiceID z" by (auto simp: stop_lt_def)
    then show False by order
  qed
qed (simp add: stop_lt_def)

abbreviation stops_sorted :: "mergeStop list \<Rightarrow> bool" where
  "stops_sorted \<equiv> sorted_wrt (\<lambda>a b. \<not> stop_lt b a)"

lemma not_stop_lt_slug: "\<not> stop_lt b a \<Longrightarrow> ms_Slug a \<le> ms_Slug b"
  by (auto simp: stop_lt_def split: if_splits)

lemma sorted_flattenStops: "stops_sorted (flattenStops svcs)"
  unfolding flattenStops_def by (rule stops.sorted_SliceStable)

subsection \<open>Clusters partition the stops\<close>

text \<open>The stops filed under one cluster index, in order.\<close>

definition cell :: "mergeStop list \<Rightarrow> nat list \<Rightarrow> nat \<Rightarrow> mergeStop list" where
  "cell stops clusterOf j = map fst (filter (\<lambda>(s, ci). ci = j) (zip stops clusterOf))"

lemma cell_snoc:
  "length ss = length cof \<Longrightarrow> cell (ss @ [s]) (cof @ [c]) j = cell ss cof j @ (if c = j then [s] else [])"
  by (simp add: cell_def)

lemma set_cell:
  "length cof = length ss \<Longrightarrow> set (cell ss cof j) = {ss ! i | i. i < length ss \<and> cof ! i = j}"
  by (auto simp: cell_def set_zip image_iff)

text \<open>What holds of every pending cluster list, before and after the fold.\<close>

definition partitioned :: "mergeStop list \<Rightarrow> pendingCluster list \<Rightarrow> nat list \<Rightarrow> bool" where
  "partitioned stops clusters clusterOf \<longleftrightarrow>
     length clusterOf = length stops \<and> (\<forall>ci \<in> set clusterOf. ci < length clusters) \<and>
     (\<forall>j < length clusters.
        mset (pc_members (clusters ! j)) = mset (cell stops clusterOf j) \<and>
        pc_members (clusters ! j) \<noteq> [] \<and> stops_sorted (pc_members (clusters ! j)) \<and>
        pc_services (clusters ! j) = ms_ServiceID ` set (pc_members (clusters ! j)))"

text \<open>What the first-fit clustering adds: one stop per service, all near the anchor.\<close>

definition near_anchor :: "pendingCluster \<Rightarrow> bool" where
  "near_anchor c \<longleftrightarrow>
     (\<forall>m \<in> set (tl (pc_members c)). DistanceM (pc_anchor c) (ms_at m) \<le>
        effectiveMergeRadius (pc_anchorOffsetM c) (ms_offsetM m))"

definition first_fit :: "pendingCluster \<Rightarrow> bool" where
  "first_fit c \<longleftrightarrow> distinct (map ms_ServiceID (pc_members c)) \<and> near_anchor c"

lemma joinIndex_Some: "joinIndex k cs s = Some j \<Longrightarrow> k \<le> j \<and> j - k < length cs \<and> canJoin (cs ! (j - k)) s"
proof (induction k cs s rule: joinIndex.induct)
  case (2 k c cs s)
  show ?case
  proof (cases "canJoin c s")
    case False
    with 2 have "Suc k \<le> j \<and> j - Suc k < length cs \<and> canJoin (cs ! (j - Suc k)) s" by simp
    then show ?thesis by (auto simp: nth_Cons split: nat.split) (metis Suc_diff_Suc Suc_le_lessD nat.inject)+
  qed (use 2 in simp)
qed simp

definition cl_inv :: "mergeStop list \<Rightarrow> pendingCluster list \<Rightarrow> nat list \<Rightarrow> bool" where
  "cl_inv done cs cof \<longleftrightarrow> length cof = length done \<and> (\<forall>ci \<in> set cof. ci < length cs) \<and>
     (\<forall>j < length cs. pc_members (cs ! j) = cell done cof j \<and> cell done cof j \<noteq> [] \<and>
        pc_services (cs ! j) = ms_ServiceID ` set (pc_members (cs ! j)) \<and> first_fit (cs ! j))"

lemma cl_inv_new:
  assumes "cl_inv done cs cof"
  shows "cl_inv (done @ [s]) (cs @ [newCluster s]) (cof @ [length cs])"
proof -
  have empty: "cell done cof (length cs) = []"
    using assms by (auto simp: cl_inv_def cell_def filter_empty_conv dest!: set_zip_rightD)
  have "\<forall>ci \<in> set cof. ci < length (cs @ [newCluster s])" using assms by (auto simp: cl_inv_def less_Suc_eq)
  then show ?thesis using assms empty
    by (auto simp: cl_inv_def cell_snoc nth_append newCluster_def first_fit_def near_anchor_def less_Suc_eq)
qed

lemma first_fit_add:
  assumes "first_fit c" "canJoin c s" "pc_members c \<noteq> []" "pc_services c = ms_ServiceID ` set (pc_members c)"
  shows "first_fit (addMember c s)"
  using assms
  by (auto simp: first_fit_def near_anchor_def addMember_def canJoin_def pc_anchor_def pc_anchorOffsetM_def hd_append)

lemma cl_inv_join:
  assumes "cl_inv done cs cof" and "j < length cs" and "canJoin (cs ! j) s"
  shows "cl_inv (done @ [s]) (cs[j := addMember (cs ! j) s]) (cof @ [j])"
proof -
  have "first_fit (addMember (cs ! j) s)"
    using assms by (intro first_fit_add) (auto simp: cl_inv_def)
  with assms show ?thesis
    by (auto simp: cl_inv_def cell_snoc nth_list_update addMember_def [of "cs ! j"])
qed

lemma clusterLoop_inv:
  "cl_inv done cs cof \<Longrightarrow> clusterLoop ss cs cof = (cs', cof') \<Longrightarrow> cl_inv (done @ ss) cs' cof'"
proof (induction ss cs cof arbitrary: "done" rule: clusterLoop.induct)
  case (2 s ss cs cof)
  show ?case
  proof (cases "joinIndex 0 cs s")
    case None
    with 2 cl_inv_new [of "done" cs cof s] show ?thesis by fastforce
  next
    case (Some j)
    with joinIndex_Some [of 0 cs s j] 2 cl_inv_join [of "done" cs cof j s] show ?thesis by fastforce
  qed
qed simp

lemma clusterStops_inv: "clusterStops stops = (cs, cof) \<Longrightarrow> cl_inv stops cs cof"
  using clusterLoop_inv [of "[]" "[]" "[]" stops cs cof] by (simp add: clusterStops_def cl_inv_def)

lemma cell_sorted: "stops_sorted stops \<Longrightarrow> stops_sorted (cell stops cof j)"
proof (induction stops arbitrary: cof)
  case (Cons s stops)
  show ?case
  proof (cases cof)
    case (Cons c cof')
    have "set (cell stops cof' j) \<subseteq> set stops" by (auto simp: cell_def dest: set_zip_leftD)
    moreover have "cell (s # stops) cof j = (if c = j then s # cell stops cof' j else cell stops cof' j)"
      using Cons by (simp add: cell_def)
    ultimately show ?thesis using Cons.IH [of cof'] Cons.prems by auto
  qed (simp add: cell_def)
qed (simp add: cell_def)

lemma clusterStops_partitioned:
  assumes "clusterStops stops = (cs, cof)" and "stops_sorted stops"
  shows "partitioned stops cs cof"
  using clusterStops_inv [OF assms(1)] cell_sorted [OF assms(2)] by (auto simp: cl_inv_def partitioned_def)

lemma clusterStops_first_fit:
  assumes "clusterStops stops = (cs, cof)" and "c \<in> set cs"
  shows "first_fit c"
  using clusterStops_inv [OF assms(1)] assms(2) by (auto simp: cl_inv_def in_set_conv_nth)

subsection \<open>Folding the declared pairs\<close>

definition pairLinks :: "mergeStop list \<Rightarrow> nat list \<Rightarrow> InterchangePair list \<Rightarrow> (nat \<times> nat) list" where
  "pairLinks stops clusterOf prs = concat (map (pairLink (stopIndex stops) clusterOf) prs)"

lemma unionPairs_unions:
  "unionPairs index clusterOf parent prs =
     unions unionClusters parent (concat (map (pairLink index clusterOf) prs))"
proof (induction prs arbitrary: parent)
  case (Cons p prs)
  have "pairLink index clusterOf p = [] \<or> (\<exists>a b. pairLink index clusterOf p = [(a, b)])"
    by (auto simp: pairLink_def split: option.splits)
  with Cons show ?case by auto
qed simp

lemma stopIndex_Some:
  assumes "stopIndex stops sid = Some i"
  shows "i < length stops \<and> stopIdentity (stops ! i) = sid"
proof -
  obtain s where "index_by (\<lambda>(i, s). stopIdentity s) (enumerate 0 stops) sid = Some (i, s)"
    using assms by (auto simp: stopIndex_def)
  from index_by_Some [OF this] show ?thesis by (auto simp: in_set_enumerate_eq)
qed

lemma pairLinks_bound:
  assumes "length cof = length stops" "\<forall>ci \<in> set cof. ci < n"
  shows "\<forall>(a, b) \<in> set (pairLinks stops cof prs). a < n \<and> b < n"
proof -
  have "cof ! i < n" if "stopIndex stops sid = Some i" for sid i
    using stopIndex_Some [OF that] assms by (metis nth_mem)
  then show ?thesis by (auto simp: pairLinks_def pairLink_def split: option.splits)
qed

text \<open>The roots the fold groups by: defined, and equal exactly for linked clusters.\<close>

definition rootsOf :: "mergeStop list \<Rightarrow> nat \<Rightarrow> nat list \<Rightarrow> InterchangePair list \<Rightarrow> nat list option" where
  "rootsOf stops n clusterOf prs =
     Option.bind (unionPairs (stopIndex stops) clusterOf [0..<n] prs) (\<lambda>parent.
       find_all findCluster parent [0..<n])"

lemma rootsOf_ok:
  assumes "length cof = length stops" "\<forall>ci \<in> set cof. ci < n"
  obtains R where "rootsOf stops n cof prs = Some R" "length R = n"
    "\<forall>x < n. \<forall>y < n. R ! x = R ! y \<longleftrightarrow> (x, y) \<in> linked (set (pairLinks stops cof prs))"
proof -
  have "\<forall>x < n. \<forall>y < n. root_of [0..<n] x = root_of [0..<n] y \<longleftrightarrow> (x, y) \<in> linked {}"
    by (simp add: forest_init)
  from clusters.unions_ok [OF forest_init(1) pairLinks_bound [OF assms] this, of prs]
  obtain p where p: "unions unionClusters [0..<n] (pairLinks stops cof prs) = Some p" "forest n p"
    "\<forall>x < n. \<forall>y < n. root_of p x = root_of p y \<longleftrightarrow> (x, y) \<in> linked (set (pairLinks stops cof prs))"
    by auto
  have "find_all findCluster p [0..<n] = Some (map (root_of p) [0..<n])"
    by (rule clusters.find_all_ok [OF p(2)]) simp
  with p that show thesis
    by (simp add: rootsOf_def unionPairs_unions flip: pairLinks_def)
qed

text \<open>The emission loop lists each root once, in order of first appearance.\<close>

definition fold_state :: "pendingCluster list \<Rightarrow> nat list \<Rightarrow> nat list \<Rightarrow> (nat \<rightharpoonup> nat) \<Rightarrow> pendingCluster list \<Rightarrow> bool" where
  "fold_state clusters R rs m folded \<longleftrightarrow> distinct rs \<and> folded = map (foldGroup clusters R) rs \<and>
     (\<forall>r k. m r = Some k \<longleftrightarrow> k < length rs \<and> rs ! k = r)"

lemma foldLoop_state:
  assumes "fold_state clusters R rs m folded" and "foldLoop clusters R todo m folded = (folded', m')"
  shows "\<exists>rs'. fold_state clusters R rs' m' folded' \<and> set rs' = set rs \<union> set todo"
  using assms
proof (induction todo arbitrary: rs m folded)
  case (Cons r todo)
  note st = Cons.prems(1)
  show ?case
  proof (cases "m r")
    case (Some k)
    then have "r \<in> set rs" using st by (auto simp: fold_state_def)
    with Some Cons.prems Cons.IH [OF st] show ?thesis by (auto simp: insert_absorb)
  next
    case None
    have "r \<notin> set rs"
    proof
      assume "r \<in> set rs"
      then obtain k where "k < length rs" "rs ! k = r" by (auto simp: in_set_conv_nth)
      with st have "m r = Some k" by (simp add: fold_state_def)
      with None show False by simp
    qed
    have "fold_state clusters R (rs @ [r]) (m(r \<mapsto> length folded)) (folded @ [foldGroup clusters R r])"
      unfolding fold_state_def
    proof (intro conjI allI)
      have len: "length folded = length rs" using st by (simp add: fold_state_def)
      show "(m(r \<mapsto> length folded)) r' = Some k \<longleftrightarrow> k < length (rs @ [r]) \<and> (rs @ [r]) ! k = r'" for r' k
      proof (cases "r' = r")
        case True
        with \<open>r \<notin> set rs\<close> len show ?thesis by (auto simp: nth_append less_Suc_eq)
      next
        case False
        then have "(m(r \<mapsto> length folded)) r' = Some k \<longleftrightarrow> k < length rs \<and> rs ! k = r'"
          using st unfolding fold_state_def by simp
        with False show ?thesis by (auto simp: nth_append less_Suc_eq)
      qed
    qed (use st \<open>r \<notin> set rs\<close> in \<open>auto simp: fold_state_def\<close>)
    moreover have "foldLoop clusters R todo (m(r \<mapsto> length folded)) (folded @ [foldGroup clusters R r]) = (folded', m')"
      using Cons.prems(2) None by simp
    ultimately obtain rs' where "fold_state clusters R rs' m' folded'" "set rs' = set (rs @ [r]) \<union> set todo"
      using Cons.IH by blast
    then show ?thesis by auto
  qed
qed auto

lemma foldLoop_start:
  assumes "foldLoop clusters R R Map.empty [] = (folded, m)"
  obtains rs where "fold_state clusters R rs m folded" "set rs = set R"
proof -
  have "fold_state clusters R [] Map.empty []" by (simp add: fold_state_def)
  from foldLoop_state [OF this assms] that show thesis by auto
qed

text \<open>Unfolding of \<open>foldDeclaredPairs\<close> when there are pairs to fold.\<close>

lemma foldDeclaredPairs_unfold:
  assumes "rootsOf stops (length clusters) clusterOf prs = Some R" and "prs \<noteq> []"
  shows "foldDeclaredPairs stops clusters clusterOf prs =
    (let (folded, m) = foldLoop clusters R R Map.empty []
     in Some (folded, map (\<lambda>ci. case m (R ! ci) of None \<Rightarrow> 0 | Some k \<Rightarrow> k) clusterOf))"
  using assms by (auto simp: foldDeclaredPairs_def rootsOf_def bind_eq_Some_conv)

lemma cell_Cons: "cell (s # ss) (c # cof) j = (if c = j then s # cell ss cof j else cell ss cof j)"
  by (simp add: cell_def)

lemma mset_concat_insert_one:
  "distinct js \<Longrightarrow> mset (concat (map (\<lambda>j. if c = j then s # f j else f j) js)) =
     (if c \<in> set js then {#s#} else {#}) + mset (concat (map f js))"
  by (induction js) auto

lemma cells_mset:
  assumes "length stops = length cof" "\<forall>ci \<in> set cof. ci < n"
  shows "mset (concat (map (cell stops cof) (filter P [0..<n]))) =
    mset (map fst (filter (\<lambda>(s, ci). P ci) (zip stops cof)))"
  using assms
proof (induction stops cof rule: list_induct2)
  case Nil
  have "concat (map (\<lambda>j. []) js) = []" for js :: "nat list" by simp
  then show ?case by (simp add: cell_def)
next
  case (Cons s ss c cof)
  then show ?case by (simp add: cell_Cons mset_concat_insert_one)
qed

lemma foldGroup_grp:
  assumes "length R = length clusters"
  shows "map fst (filter (\<lambda>(c, r). r = rootc) (zip clusters R)) =
    map ((!) clusters) (filter (\<lambda>j. R ! j = rootc) [0..<length clusters])"
proof -
  have "zip clusters R = map (\<lambda>j. (clusters ! j, R ! j)) [0..<length clusters]"
    using assms by (auto intro: nth_equalityI)
  then show ?thesis by (simp add: filter_map o_def)
qed

lemma mset_concat_cong:
  "(\<And>x. x \<in> set xs \<Longrightarrow> mset (f x) = mset (g x)) \<Longrightarrow> mset (concat (map f xs)) = mset (concat (map g xs))"
  by (induction xs) auto

lemma foldGroup_mset:
  assumes "partitioned stops clusters cof" and "length R = length clusters"
  shows "mset (pc_members (foldGroup clusters R rootc)) =
    mset (map fst (filter (\<lambda>(s, ci). R ! ci = rootc) (zip stops cof)))"
proof -
  let ?js = "filter (\<lambda>j. R ! j = rootc) [0..<length clusters]"
  have "mset (pc_members (foldGroup clusters R rootc)) = mset (concat (map (\<lambda>j. pc_members (clusters ! j)) ?js))"
    by (simp add: foldGroup_def foldGroup_grp [OF assms(2)] o_def)
  also have "\<dots> = mset (concat (map (cell stops cof) ?js))"
    by (rule mset_concat_cong) (use assms(1) in \<open>auto simp: partitioned_def\<close>)
  also have "\<dots> = mset (map fst (filter (\<lambda>(s, ci). R ! ci = rootc) (zip stops cof)))"
    by (rule cells_mset) (use assms(1) in \<open>auto simp: partitioned_def\<close>)
  finally show ?thesis .
qed

lemma foldGroup_shape:
  assumes "partitioned stops clusters cof" and "length R = length clusters" and "rootc \<in> set R"
  shows "pc_members (foldGroup clusters R rootc) \<noteq> []"
    and "stops_sorted (pc_members (foldGroup clusters R rootc))"
    and "pc_services (foldGroup clusters R rootc) = ms_ServiceID ` set (pc_members (foldGroup clusters R rootc))"
proof -
  let ?js = "filter (\<lambda>j. R ! j = rootc) [0..<length clusters]"
  have set_eq: "set (pc_members (foldGroup clusters R rootc)) = (\<Union>j \<in> set ?js. set (pc_members (clusters ! j)))"
    by (simp add: foldGroup_def foldGroup_grp [OF assms(2)])
  obtain j where j: "j \<in> set ?js" using assms(2,3) by (auto simp: in_set_conv_nth)
  then have "pc_members (clusters ! j) \<noteq> []" using assms(1) by (simp add: partitioned_def)
  with j set_eq show "pc_members (foldGroup clusters R rootc) \<noteq> []" by fastforce
  show "stops_sorted (pc_members (foldGroup clusters R rootc))"
    by (simp add: foldGroup_def stops.sorted_SliceStable)
  have "pc_services (foldGroup clusters R rootc) = (\<Union>j \<in> set ?js. pc_services (clusters ! j))"
    by (simp add: foldGroup_def foldGroup_grp [OF assms(2)])
  also have "\<dots> = (\<Union>j \<in> set ?js. ms_ServiceID ` set (pc_members (clusters ! j)))"
    using assms(1) by (auto simp: partitioned_def)
  finally show "pc_services (foldGroup clusters R rootc) = ms_ServiceID ` set (pc_members (foldGroup clusters R rootc))"
    unfolding set_eq by blast
qed

text \<open>The index the fold files a stop's old cluster under.\<close>

lemma folded_index:
  assumes "fold_state clusters R rs m folded" "set rs = set R" "ci < length R" "k < length rs"
  shows "(case m (R ! ci) of None \<Rightarrow> 0 | Some k' \<Rightarrow> k') = k \<longleftrightarrow> R ! ci = rs ! k"
    and "(case m (R ! ci) of None \<Rightarrow> 0 | Some k' \<Rightarrow> k') < length rs"
proof -
  have mm: "\<And>r k. m r = Some k \<longleftrightarrow> k < length rs \<and> rs ! k = r" and d: "distinct rs"
    using assms(1) by (auto simp: fold_state_def)
  obtain k' where k': "k' < length rs" "rs ! k' = R ! ci"
    using assms(2,3) by (metis in_set_conv_nth nth_mem)
  then have "m (R ! ci) = Some k'" using mm by blast
  then show "(case m (R ! ci) of None \<Rightarrow> 0 | Some k' \<Rightarrow> k') = k \<longleftrightarrow> R ! ci = rs ! k"
    and "(case m (R ! ci) of None \<Rightarrow> 0 | Some k' \<Rightarrow> k') < length rs"
    using k' assms(4) d by (auto simp: nth_eq_iff_index_eq)
qed

lemma cell_map:
  assumes "length cof = length stops"
  shows "cell stops (map f cof) k = map fst (filter (\<lambda>(s, ci). f ci = k) (zip stops cof))"
  using assms by (induction stops cof rule: list_induct2') (auto simp: cell_def)

lemma foldDeclaredPairs_ok:
  assumes part: "partitioned stops clusters cof"
  obtains clusters' cof' where
    "foldDeclaredPairs stops clusters cof prs = Some (clusters', cof')"
    "partitioned stops clusters' cof'"
    "\<And>i j. i < length stops \<Longrightarrow> j < length stops \<Longrightarrow>
       cof' ! i = cof' ! j \<longleftrightarrow> (cof ! i, cof ! j) \<in> linked (set (pairLinks stops cof prs))"
proof (cases "prs = []")
  case True
  then show thesis using that [of clusters cof] part by (simp add: foldDeclaredPairs_def pairLinks_def)
next
  case False
  let ?n = "length clusters"
  have len: "length cof = length stops" and bound: "\<forall>ci \<in> set cof. ci < ?n"
    using part by (auto simp: partitioned_def)
  obtain R where R: "rootsOf stops ?n cof prs = Some R" "length R = ?n"
    and same: "\<forall>x < ?n. \<forall>y < ?n. R ! x = R ! y \<longleftrightarrow> (x, y) \<in> linked (set (pairLinks stops cof prs))"
    using rootsOf_ok [OF len bound] by blast
  obtain folded m where loop: "foldLoop clusters R R Map.empty [] = (folded, m)"
    by (cases "foldLoop clusters R R Map.empty []")
  obtain rs where rs: "fold_state clusters R rs m folded" "set rs = set R" by (rule foldLoop_start [OF loop])
  define f where "f ci = (case m (R ! ci) of None \<Rightarrow> 0 | Some k \<Rightarrow> k)" for ci
  have f_iff: "f ci = k \<longleftrightarrow> R ! ci = rs ! k" and f_lt: "f ci < length rs" if "ci < ?n" "k < length rs" for ci k
    using folded_index [OF rs, of ci k] that R(2) by (simp_all add: f_def)
  have folded: "folded = map (foldGroup clusters R) rs" using rs(1) by (simp add: fold_state_def)
  have cof_lt: "cof ! i < ?n" if "i < length stops" for i using that bound len by simp
  have f_lt': "f ci < length rs" if "ci < ?n" for ci
  proof -
    have "R ! ci \<in> set rs" using that R(2) rs(2) by simp
    then have "0 < length rs" by (cases rs) auto
    with f_lt [OF that] show ?thesis by blast
  qed
  show thesis
  proof (rule that [of folded "map f cof"])
    show "foldDeclaredPairs stops clusters cof prs = Some (folded, map f cof)"
      using foldDeclaredPairs_unfold [OF R(1) False] loop by (simp add: f_def)
    show "map f cof ! i = map f cof ! j \<longleftrightarrow> (cof ! i, cof ! j) \<in> linked (set (pairLinks stops cof prs))"
      if "i < length stops" "j < length stops" for i j
    proof -
      have "f (cof ! i) = f (cof ! j) \<longleftrightarrow> R ! (cof ! i) = rs ! f (cof ! j)"
        using f_iff cof_lt f_lt' that by blast
      moreover have "R ! (cof ! j) = rs ! f (cof ! j)" using f_iff [OF _ f_lt'] cof_lt that by blast
      ultimately have "f (cof ! i) = f (cof ! j) \<longleftrightarrow> R ! (cof ! i) = R ! (cof ! j)" by simp
      also have "\<dots> \<longleftrightarrow> (cof ! i, cof ! j) \<in> linked (set (pairLinks stops cof prs))"
        using same cof_lt that by blast
      finally show ?thesis using that len by simp
    qed
    have cells: "cell stops (map f cof) k = map fst (filter (\<lambda>(s, ci). R ! ci = rs ! k) (zip stops cof))"
      if "k < length rs" for k
      unfolding cell_map [OF len]
      using f_iff that bound by (intro arg_cong [of _ _ "map fst"] filter_cong) (auto dest: set_zip_rightD)
    have "rs ! k \<in> set R" if "k < length rs" for k using that rs(2) nth_mem by blast
    note shape = foldGroup_shape [OF part R(2) this]
    have lt: "\<forall>ci \<in> set (map f cof). ci < length folded" using bound f_lt' folded by auto
    show "partitioned stops folded (map f cof)"
      unfolding partitioned_def
    proof (intro conjI allI impI)
      fix k assume "k < length folded"
      then have k: "k < length rs" "folded ! k = foldGroup clusters R (rs ! k)" using folded by simp_all
      show "mset (pc_members (folded ! k)) = mset (cell stops (map f cof) k)"
        unfolding k(2) cells [OF k(1)] by (rule foldGroup_mset [OF part R(2)])
      show "pc_members (folded ! k) \<noteq> []" "stops_sorted (pc_members (folded ! k))"
        "pc_services (folded ! k) = ms_ServiceID ` set (pc_members (folded ! k))"
        unfolding k(2) using shape [OF k(1)] by blast+
    qed (use len lt in auto)
  qed
qed

subsection \<open>The declaration order does not matter\<close>

definition same_kernel :: "nat \<Rightarrow> nat list \<Rightarrow> nat list \<Rightarrow> bool" where
  "same_kernel n R R' \<longleftrightarrow> length R = n \<and> length R' = n \<and>
     (\<forall>x < n. \<forall>y < n. R ! x = R ! y \<longleftrightarrow> R' ! x = R' ! y)"

lemma foldGroup_kernel:
  assumes "same_kernel (length clusters) R R'" and "i < length clusters"
  shows "foldGroup clusters R (R ! i) = foldGroup clusters R' (R' ! i)"
proof -
  have len: "length R = length clusters" "length R' = length clusters" using assms(1) by (auto simp: same_kernel_def)
  have "filter (\<lambda>j. R ! j = R ! i) [0..<length clusters] = filter (\<lambda>j. R' ! j = R' ! i) [0..<length clusters]"
    by (rule filter_cong) (use assms in \<open>auto simp: same_kernel_def\<close>)
  then show ?thesis unfolding foldGroup_def foldGroup_grp [OF len(1)] foldGroup_grp [OF len(2)] by simp
qed

lemma foldLoop_kernel:
  assumes "same_kernel (length clusters) R R'" and "\<forall>i \<in> set is. i < length clusters"
    and "\<forall>i < length clusters. m (R ! i) = m' (R' ! i)"
  shows "fst (foldLoop clusters R (map ((!) R) is) m folded) = fst (foldLoop clusters R' (map ((!) R') is) m' folded) \<and>
    (\<forall>i < length clusters. snd (foldLoop clusters R (map ((!) R) is) m folded) (R ! i) =
       snd (foldLoop clusters R' (map ((!) R') is) m' folded) (R' ! i))"
  using assms(2,3)
proof (induction "is" arbitrary: m m' folded)
  case (Cons i "is")
  then have i: "i < length clusters" "m (R ! i) = m' (R' ! i)" by auto
  show ?case
  proof (cases "m (R ! i)")
    case None
    have "\<forall>j < length clusters. (m(R ! i \<mapsto> length folded)) (R ! j) = (m'(R' ! i \<mapsto> length folded)) (R' ! j)"
      using Cons.prems(2) assms(1) i(1) by (auto simp: same_kernel_def)
    with Cons.IH [of "m(R ! i \<mapsto> length folded)" "m'(R' ! i \<mapsto> length folded)"
        "folded @ [foldGroup clusters R (R ! i)]"] Cons.prems(1)
    show ?thesis using None i foldGroup_kernel [OF assms(1) i(1)] by (simp del: fun_upd_apply)
  next
    case (Some k)
    with i have "m' (R' ! i) = Some k" by simp
    with Some Cons show ?thesis by simp
  qed
qed simp

lemma foldDeclaredPairs_set:
  assumes "length cof = length stops" "\<forall>ci \<in> set cof. ci < length clusters" and "set prs = set prs'"
  shows "foldDeclaredPairs stops clusters cof prs = foldDeclaredPairs stops clusters cof prs'"
proof (cases "prs = []")
  case True
  with assms(3) show ?thesis by simp
next
  case False
  then have ne: "prs' \<noteq> []" using assms(3) by auto
  let ?n = "length clusters"
  obtain R where R: "rootsOf stops ?n cof prs = Some R" "length R = ?n"
    "\<forall>x < ?n. \<forall>y < ?n. R ! x = R ! y \<longleftrightarrow> (x, y) \<in> linked (set (pairLinks stops cof prs))"
    using rootsOf_ok [OF assms(1,2)] by blast
  obtain R' where R': "rootsOf stops ?n cof prs' = Some R'" "length R' = ?n"
    "\<forall>x < ?n. \<forall>y < ?n. R' ! x = R' ! y \<longleftrightarrow> (x, y) \<in> linked (set (pairLinks stops cof prs'))"
    using rootsOf_ok [OF assms(1,2)] by blast
  have "set (pairLinks stops cof prs) = set (pairLinks stops cof prs')" using assms(3) by (simp add: pairLinks_def)
  with R R' have ker: "same_kernel ?n R R'" by (simp add: same_kernel_def)
  have maps: "map ((!) R) [0..<?n] = R" "map ((!) R') [0..<?n] = R'" using R(2) R'(2) by (auto intro: nth_equalityI)
  have loops: "fst (foldLoop clusters R R Map.empty []) = fst (foldLoop clusters R' R' Map.empty [])"
    "\<forall>i < ?n. snd (foldLoop clusters R R Map.empty []) (R ! i) = snd (foldLoop clusters R' R' Map.empty []) (R' ! i)"
    using foldLoop_kernel [OF ker, of "[0..<?n]" Map.empty Map.empty "[]"] by (simp_all add: maps)
  have "map (\<lambda>ci. case snd (foldLoop clusters R R Map.empty []) (R ! ci) of None \<Rightarrow> 0 | Some k \<Rightarrow> k) cof =
      map (\<lambda>ci. case snd (foldLoop clusters R' R' Map.empty []) (R' ! ci) of None \<Rightarrow> 0 | Some k \<Rightarrow> k) cof"
    using loops(2) assms(2) by (intro map_cong) auto
  with loops(1) show ?thesis
    unfolding foldDeclaredPairs_unfold [OF R(1) False] foldDeclaredPairs_unfold [OF R'(1) ne]
    by (simp add: case_prod_beta Let_def)
qed

subsection \<open>Rewriting the slugs\<close>

text \<open>
  The loop that writes the cluster keys into the copied services, as one relabelling by a
  function of the stop's position.
\<close>

type_synonym labelling = "nat \<Rightarrow> nat \<Rightarrow> string \<Rightarrow> string"

definition relabelStops :: "(nat \<Rightarrow> string \<Rightarrow> string) \<Rightarrow> CompilableStop list \<Rightarrow> CompilableStop list" where
  "relabelStops g stops = map (\<lambda>(j, s). s\<lparr>cs_Slug := g j (cs_Slug s)\<rparr>) (enumerate 0 stops)"

definition relabel :: "labelling \<Rightarrow> CompilableService list \<Rightarrow> CompilableService list" where
  "relabel g svcs = map (\<lambda>(i, svc). svc\<lparr>cp_Stops := relabelStops (g i) (cp_Stops svc)\<rparr>) (enumerate 0 svcs)"

definition label_upd :: "labelling \<Rightarrow> mergeStop \<times> string \<Rightarrow> labelling" where
  "label_upd g sk = (\<lambda>i j old. if i = ms_svcIdx (fst sk) \<and> j = ms_stopIdx (fst sk) then snd sk else g i j old)"

lemma length_relabel [simp]: "length (relabel g svcs) = length svcs"
  by (simp add: relabel_def)

lemma relabelStops_nth [simp]:
  "length (relabelStops g stops) = length stops"
  "j < length stops \<Longrightarrow> relabelStops g stops ! j = (stops ! j)\<lparr>cs_Slug := g j (cs_Slug (stops ! j))\<rparr>"
  by (simp_all add: relabelStops_def nth_enumerate_eq)

lemma relabel_nth:
  "i < length svcs \<Longrightarrow> relabel g svcs ! i = (svcs ! i)\<lparr>cp_Stops := relabelStops (g i) (cp_Stops (svcs ! i))\<rparr>"
  by (simp add: relabel_def nth_enumerate_eq)

lemma relabel_id: "relabel (\<lambda>i j old. old) svcs = svcs"
proof (rule nth_equalityI)
  fix i assume "i < length (relabel (\<lambda>i j old. old) svcs)"
  moreover have "relabelStops (\<lambda>j old. old) stops = stops" for stops
    by (rule nth_equalityI) simp_all
  ultimately show "relabel (\<lambda>i j old. old) svcs ! i = svcs ! i" by (simp add: relabel_nth)
qed simp

lemma setSlug_relabel:
  assumes "ms_svcIdx s < length svcs" "ms_stopIdx s < length (cp_Stops (svcs ! ms_svcIdx s))"
  shows "setSlug (relabel g svcs) (s, k) = relabel (label_upd g (s, k)) svcs"
proof (rule nth_equalityI)
  let ?i = "ms_svcIdx s" and ?j = "ms_stopIdx s"
  show "length (setSlug (relabel g svcs) (s, k)) = length (relabel (label_upd g (s, k)) svcs)"
    by (simp add: setSlug_def Let_def)
  fix i assume "i < length (setSlug (relabel g svcs) (s, k))"
  then have i: "i < length svcs" by (simp add: setSlug_def Let_def)
  show "setSlug (relabel g svcs) (s, k) ! i = relabel (label_upd g (s, k)) svcs ! i"
  proof (cases "i = ?i")
    case False
    then have "label_upd g (s, k) i = g i" by (intro ext) (simp add: label_upd_def)
    with False i show ?thesis by (simp add: setSlug_def Let_def relabel_nth)
  next
    case True
    have "(relabelStops (g ?i) (cp_Stops (svcs ! ?i)))
        [?j := (relabelStops (g ?i) (cp_Stops (svcs ! ?i)) ! ?j)\<lparr>cs_Slug := k\<rparr>] =
        relabelStops (label_upd g (s, k) ?i) (cp_Stops (svcs ! ?i))"
      by (rule nth_equalityI) (use assms(2) in \<open>auto simp: nth_list_update label_upd_def\<close>)
    with True i show ?thesis by (simp add: setSlug_def Let_def relabel_nth)
  qed
qed

lemma foldl_setSlug:
  assumes "\<forall>sk \<in> set sks. ms_svcIdx (fst sk) < length svcs \<and>
      ms_stopIdx (fst sk) < length (cp_Stops (svcs ! ms_svcIdx (fst sk)))"
  shows "foldl setSlug svcs sks = relabel (foldl label_upd (\<lambda>i j old. old) sks) svcs"
  using assms
proof (induction sks rule: rev_induct)
  case (snoc sk sks)
  then show ?case using setSlug_relabel [of "fst sk" svcs _ "snd sk"] by simp
qed (simp add: relabel_id)

lemma foldl_label_upd:
  assumes "distinct (map (\<lambda>sk. (ms_svcIdx (fst sk), ms_stopIdx (fst sk))) sks)" "sk \<in> set sks"
  shows "foldl label_upd g sks (ms_svcIdx (fst sk)) (ms_stopIdx (fst sk)) old = snd sk"
  using assms
proof (induction sks rule: rev_induct)
  case (snoc x sks)
  then show ?case by (cases "sk = x") (auto simp: label_upd_def rev_image_eqI image_iff)
qed simp

text \<open>The flattened stops are the stops of the services, one entry per position.\<close>

lemma set_allStops:
  "set (allStops svcs) = {mergeStopOf i j (cp_ID (svcs ! i)) (cp_Stops (svcs ! i) ! j) | i j.
     i < length svcs \<and> j < length (cp_Stops (svcs ! i))}"
proof -
  have "set (map (\<lambda>(j, s). mergeStopOf i j c s) (enumerate 0 xs)) = (\<lambda>j. mergeStopOf i j c (xs ! j)) ` {..<length xs}"
    for i c xs by (simp add: set_enumerate0 image_image)
  then have "set (allStops svcs) = (\<Union>i < length svcs.
      (\<lambda>j. mergeStopOf i j (cp_ID (svcs ! i)) (cp_Stops (svcs ! i) ! j)) ` {..<length (cp_Stops (svcs ! i))})"
    by (simp add: allStops_def set_enumerate0)
  then show ?thesis by blast
qed

lemma distinct_map_concat:
  assumes "distinct (map fst xs)" "\<And>x y. x \<in> set xs \<Longrightarrow> y \<in> set (f x) \<Longrightarrow> fst (pos y) = fst x"
    "\<And>x. x \<in> set xs \<Longrightarrow> distinct (map pos (f x))"
  shows "distinct (map pos (concat (map f xs)))"
  using assms
proof (induction xs)
  case (Cons x xs)
  have "set (map pos (f x)) \<inter> set (map pos (concat (map f xs))) = {}"
  proof -
    have False if "y \<in> set (f x)" "x' \<in> set xs" "y' \<in> set (f x')" "pos y = pos y'" for y x' y'
    proof -
      have "fst x = fst x'" using Cons.prems(2) [of x y] Cons.prems(2) [of x' y'] that by simp
      with Cons.prems(1) that(2) show False by (auto simp: image_iff)
    qed
    then show ?thesis by (fastforce simp: image_iff)
  qed
  with Cons show ?case by simp
qed simp

lemma distinct_positions: "distinct (map (\<lambda>s. (ms_svcIdx s, ms_stopIdx s)) (allStops svcs))"
  unfolding allStops_def
proof (rule distinct_map_concat)
  fix x assume "x \<in> set (enumerate 0 svcs)"
  have eq: "map (\<lambda>s. (ms_svcIdx s, ms_stopIdx s)) (map (\<lambda>(j, s). mergeStopOf i j (cp_ID svc) s) (enumerate 0 (cp_Stops svc))) =
      map (Pair i) [0..<length (cp_Stops svc)]" for i svc
    by (rule nth_equalityI) (simp_all add: nth_enumerate_eq mergeStopOf_def)
  obtain i svc where x: "x = (i, svc)" by (cases x)
  show "distinct (map (\<lambda>s. (ms_svcIdx s, ms_stopIdx s)) (case x of (i, svc) \<Rightarrow>
      map (\<lambda>(j, s). mergeStopOf i j (cp_ID svc) s) (enumerate 0 (cp_Stops svc))))"
    unfolding x prod.case eq by (simp add: distinct_map inj_on_def)
qed (auto simp: mergeStopOf_def)

lemma flattenStops_facts:
  shows "set (flattenStops svcs) = set (allStops svcs)"
    and "distinct (map (\<lambda>s. (ms_svcIdx s, ms_stopIdx s)) (flattenStops svcs))"
proof -
  have m: "mset (flattenStops svcs) = mset (allStops svcs)" by (simp add: flattenStops_def)
  then show "set (flattenStops svcs) = set (allStops svcs)" by (rule mset_eq_setD)
  have "mset (map (\<lambda>s. (ms_svcIdx s, ms_stopIdx s)) (flattenStops svcs)) =
      mset (map (\<lambda>s. (ms_svcIdx s, ms_stopIdx s)) (allStops svcs))" using m by simp
  then show "distinct (map (\<lambda>s. (ms_svcIdx s, ms_stopIdx s)) (flattenStops svcs))"
    using distinct_positions mset_eq_imp_distinct_iff by blast
qed

text \<open>
  The abstract result of a merge: a partition of the stops into clusters, the services
  relabelled with the key of each stop's cluster, and one node per cluster. The stop at position
  \<open>(i, j)\<close> is found at some index of the flattened list.
\<close>

definition merge_spec ::
  "CompilableService list \<Rightarrow> pendingCluster list \<Rightarrow> nat list \<Rightarrow> CompilableService list \<Rightarrow> bool" where
  "merge_spec svcs clusters clusterOf merged \<longleftrightarrow>
     partitioned (flattenStops svcs) clusters clusterOf \<and>
     (\<exists>g. merged = relabel g svcs \<and>
        (\<forall>k < length (flattenStops svcs).
           let s = flattenStops svcs ! k
           in \<forall>old. g (ms_svcIdx s) (ms_stopIdx s) old = pc_key (clusters ! (clusterOf ! k))))"

lemma MergeColocatedStops_spec:
  obtains clusters0 cof0 clusters cof merged where
    "clusterStops (flattenStops svcs) = (clusters0, cof0)"
    "partitioned (flattenStops svcs) clusters0 cof0"
    "foldDeclaredPairs (flattenStops svcs) clusters0 cof0 prs = Some (clusters, cof)"
    "\<And>i j. i < length (flattenStops svcs) \<Longrightarrow> j < length (flattenStops svcs) \<Longrightarrow>
       cof ! i = cof ! j \<longleftrightarrow> (cof0 ! i, cof0 ! j) \<in> linked (set (pairLinks (flattenStops svcs) cof0 prs))"
    "merge_spec svcs clusters cof merged"
    "MergeColocatedStops svcs prs = Some (merged,
       \<lparr>mr_Clusters = realisedClusters clusters, mr_NearMisses = nearMisses (flattenStops svcs) cof\<rparr>,
       clusterNodes clusters)"
proof -
  let ?stops = "flattenStops svcs"
  obtain clusters0 cof0 where c0: "clusterStops ?stops = (clusters0, cof0)" by (cases "clusterStops ?stops")
  have p0: "partitioned ?stops clusters0 cof0"
    by (rule clusterStops_partitioned [OF c0 sorted_flattenStops])
  obtain clusters cof where f: "foldDeclaredPairs ?stops clusters0 cof0 prs = Some (clusters, cof)"
    and p: "partitioned ?stops clusters cof"
    and same: "\<And>i j. i < length ?stops \<Longrightarrow> j < length ?stops \<Longrightarrow>
       cof ! i = cof ! j \<longleftrightarrow> (cof0 ! i, cof0 ! j) \<in> linked (set (pairLinks ?stops cof0 prs))"
    by (rule foldDeclaredPairs_ok [OF p0]) blast
  let ?sks = "zip ?stops (map (\<lambda>ci. pc_key (clusters ! ci)) cof)"
  have len: "length cof = length ?stops" using p by (simp add: partitioned_def)
  have fst: "map fst ?sks = ?stops" using len by simp
  have range: "\<forall>sk \<in> set ?sks. ms_svcIdx (fst sk) < length svcs \<and>
      ms_stopIdx (fst sk) < length (cp_Stops (svcs ! ms_svcIdx (fst sk)))"
  proof
    fix sk assume "sk \<in> set ?sks"
    then have "fst sk \<in> set (map fst ?sks)" by (simp only: set_map) (rule imageI)
    then have "fst sk \<in> set (allStops svcs)" unfolding fst flattenStops_facts(1) .
    then show "ms_svcIdx (fst sk) < length svcs \<and> ms_stopIdx (fst sk) < length (cp_Stops (svcs ! ms_svcIdx (fst sk)))"
      by (auto simp: set_allStops mergeStopOf_def)
  qed
  have "map (\<lambda>sk. (ms_svcIdx (fst sk), ms_stopIdx (fst sk))) ?sks =
      map (\<lambda>s. (ms_svcIdx s, ms_stopIdx s)) (map fst ?sks)" by simp
  then have dist: "distinct (map (\<lambda>sk. (ms_svcIdx (fst sk), ms_stopIdx (fst sk))) ?sks)"
    using flattenStops_facts(2) fst by metis
  let ?g = "foldl label_upd (\<lambda>i j old. old) ?sks"
  have "?g (ms_svcIdx (?stops ! k)) (ms_stopIdx (?stops ! k)) old = pc_key (clusters ! (cof ! k))"
    if "k < length ?stops" for k old
  proof -
    have "(?stops ! k, pc_key (clusters ! (cof ! k))) \<in> set ?sks"
      using that len by (auto simp: set_zip)
    from foldl_label_upd [OF dist this] show ?thesis by simp
  qed
  then have "merge_spec svcs clusters cof (foldl setSlug svcs ?sks)"
    unfolding merge_spec_def Let_def foldl_setSlug [OF range] using p by blast
  note spec = this
  show thesis
  proof (rule that [OF c0 p0 f _ spec])
    show "cof ! i = cof ! j \<longleftrightarrow> (cof0 ! i, cof0 ! j) \<in> linked (set (pairLinks ?stops cof0 prs))"
      if "i < length ?stops" "j < length ?stops" for i j
      by (rule same [OF that])
  qed (simp add: MergeColocatedStops_def c0 f Let_def)
qed

lemma merge_spec_slug:
  assumes "merge_spec svcs clusters cof merged" and "i < length svcs" "j < length (cp_Stops (svcs ! i))"
  obtains k where "k < length (flattenStops svcs)"
    "flattenStops svcs ! k = mergeStopOf i j (cp_ID (svcs ! i)) (cp_Stops (svcs ! i) ! j)"
    "length merged = length svcs" "length (cp_Stops (merged ! i)) = length (cp_Stops (svcs ! i))"
    "cp_Stops (merged ! i) ! j = (cp_Stops (svcs ! i) ! j)\<lparr>cs_Slug := pc_key (clusters ! (cof ! k))\<rparr>"
    "merged ! i = (svcs ! i)\<lparr>cp_Stops := cp_Stops (merged ! i)\<rparr>"
proof -
  let ?s = "mergeStopOf i j (cp_ID (svcs ! i)) (cp_Stops (svcs ! i) ! j)"
  have "?s \<in> set (flattenStops svcs)" using assms(2,3) by (auto simp: flattenStops_facts(1) set_allStops)
  then obtain k where k: "k < length (flattenStops svcs)" "flattenStops svcs ! k = ?s" by (auto simp: in_set_conv_nth)
  obtain g where g: "merged = relabel g svcs"
    "\<forall>k < length (flattenStops svcs). let s = flattenStops svcs ! k
       in \<forall>old. g (ms_svcIdx s) (ms_stopIdx s) old = pc_key (clusters ! (cof ! k))"
    using assms(1) by (auto simp: merge_spec_def)
  have pos: "ms_svcIdx ?s = i" "ms_stopIdx ?s = j" by (simp_all add: mergeStopOf_def)
  have "g i j old = pc_key (clusters ! (cof ! k))" for old
    using g(2) k pos unfolding Let_def by metis
  with that [OF k] g(1) assms(2,3) show thesis by (simp add: relabel_nth)
qed

subsection \<open>Keys and nodes\<close>

lemma partitioned_key:
  assumes "partitioned stops clusters cof" "j < length clusters"
  shows "\<exists>k < length stops. cof ! k = j \<and> pc_key (clusters ! j) = ms_Slug (stops ! k)"
    and "\<forall>m \<in> set (pc_members (clusters ! j)). pc_key (clusters ! j) \<le> ms_Slug m"
proof -
  have len: "length cof = length stops" using assms(1) by (simp add: partitioned_def)
  have set_eq: "set (pc_members (clusters ! j)) = set (cell stops cof j)"
    using assms by (intro mset_eq_setD) (simp add: partitioned_def)
  obtain m ms where m: "pc_members (clusters ! j) = m # ms"
    using assms by (cases "pc_members (clusters ! j)") (auto simp: partitioned_def)
  then have "m \<in> set (cell stops cof j)" using set_eq by auto
  with m show "\<exists>k < length stops. cof ! k = j \<and> pc_key (clusters ! j) = ms_Slug (stops ! k)"
    by (auto simp: set_cell [OF len] pc_key_def)
  have "stops_sorted (m # ms)" using assms m by (metis partitioned_def)
  with m show "\<forall>m \<in> set (pc_members (clusters ! j)). pc_key (clusters ! j) \<le> ms_Slug m"
    by (auto simp: pc_key_def intro: not_stop_lt_slug)
qed

lemma partitioned_member:
  assumes "partitioned stops clusters cof" "k < length stops"
  shows "cof ! k < length clusters" and "stops ! k \<in> set (pc_members (clusters ! (cof ! k)))"
proof -
  have len: "length cof = length stops" using assms(1) by (simp add: partitioned_def)
  then show lt: "cof ! k < length clusters" using assms by (simp add: partitioned_def)
  have "set (pc_members (clusters ! (cof ! k))) = set (cell stops cof (cof ! k))"
    using assms lt by (intro mset_eq_setD) (simp add: partitioned_def)
  then show "stops ! k \<in> set (pc_members (clusters ! (cof ! k)))"
    using assms(2) by (auto simp: set_cell [OF len])
qed

lemma partitioned_keys_inj:
  assumes "partitioned stops clusters cof" "distinct (map ms_Slug stops)" "i < length clusters" "j < length clusters"
  shows "pc_key (clusters ! i) = pc_key (clusters ! j) \<longleftrightarrow> i = j"
proof
  assume eq: "pc_key (clusters ! i) = pc_key (clusters ! j)"
  obtain k where k: "k < length stops" "cof ! k = i" "pc_key (clusters ! i) = ms_Slug (stops ! k)"
    using partitioned_key(1) [OF assms(1,3)] by blast
  obtain l where l: "l < length stops" "cof ! l = j" "pc_key (clusters ! j) = ms_Slug (stops ! l)"
    using partitioned_key(1) [OF assms(1,4)] by blast
  have "map ms_Slug stops ! k = map ms_Slug stops ! l" using eq k l by simp
  with assms(2) k(1) l(1) have "k = l" by (simp only: nth_eq_iff_index_eq length_map)
  with k l show "i = j" by simp
qed simp

lemma set_namesLoop: "set (namesLoop seen ms) = (\<lambda>m. sr_Name (ms_ref m)) ` set ms - seen"
  by (induction seen ms rule: namesLoop.induct) (auto simp: Let_def)

lemma distinct_namesLoop: "distinct (namesLoop seen ms)"
  by (induction seen ms rule: namesLoop.induct) (auto simp: Let_def set_namesLoop)

subsection \<open>Properties\<close>

text \<open>
  C15: Merging co-located stops always returns, and changes nothing but stop slugs: every stop
  keeps its position and data and is given the slug of a graph node that lists the stop's name,
  that slug being at most the stop's own in byte order.
\<close>

theorem MergeColocatedStops_relabels:
  "\<exists>merged report nodes. MergeColocatedStops svcs prs = Some (merged, report, nodes) \<and>
     length merged = length svcs \<and>
     (\<forall>i < length svcs. \<forall>j < length (cp_Stops (svcs ! i)).
        merged ! i = (svcs ! i)\<lparr>cp_Stops := cp_Stops (merged ! i)\<rparr> \<and>
        length (cp_Stops (merged ! i)) = length (cp_Stops (svcs ! i)) \<and>
        (\<exists>node \<in> set nodes.
           cp_Stops (merged ! i) ! j = (cp_Stops (svcs ! i) ! j)\<lparr>cs_Slug := gn_Slug node\<rparr> \<and>
           cs_Name (cp_Stops (svcs ! i) ! j) \<in> set (gn_Names node) \<and>
           gn_Slug node \<le> cs_Slug (cp_Stops (svcs ! i) ! j)))"
proof (rule MergeColocatedStops_spec [of svcs prs])
  fix clusters0 cof0 clusters cof merged
  assume spec: "merge_spec svcs clusters cof merged"
    and run: "MergeColocatedStops svcs prs = Some (merged,
       \<lparr>mr_Clusters = realisedClusters clusters, mr_NearMisses = nearMisses (flattenStops svcs) cof\<rparr>,
       clusterNodes clusters)"
  have part: "partitioned (flattenStops svcs) clusters cof" and len: "length merged = length svcs"
    using spec by (auto simp: merge_spec_def)
  have "merged ! i = (svcs ! i)\<lparr>cp_Stops := cp_Stops (merged ! i)\<rparr> \<and>
      length (cp_Stops (merged ! i)) = length (cp_Stops (svcs ! i)) \<and>
      (\<exists>node \<in> set (clusterNodes clusters).
         cp_Stops (merged ! i) ! j = (cp_Stops (svcs ! i) ! j)\<lparr>cs_Slug := gn_Slug node\<rparr> \<and>
         cs_Name (cp_Stops (svcs ! i) ! j) \<in> set (gn_Names node) \<and>
         gn_Slug node \<le> cs_Slug (cp_Stops (svcs ! i) ! j))"
    if i: "i < length svcs" and j: "j < length (cp_Stops (svcs ! i))" for i j
  proof (rule merge_spec_slug [OF spec i j])
    fix k
    let ?c = "clusters ! (cof ! k)"
    assume k: "k < length (flattenStops svcs)"
      and stop: "flattenStops svcs ! k = mergeStopOf i j (cp_ID (svcs ! i)) (cp_Stops (svcs ! i) ! j)"
      and merged: "length (cp_Stops (merged ! i)) = length (cp_Stops (svcs ! i))"
        "cp_Stops (merged ! i) ! j = (cp_Stops (svcs ! i) ! j)\<lparr>cs_Slug := pc_key ?c\<rparr>"
        "merged ! i = (svcs ! i)\<lparr>cp_Stops := cp_Stops (merged ! i)\<rparr>"
    note mem = partitioned_member [OF part k]
    have "pc_node ?c \<in> set (clusterNodes clusters)" using mem(1) by (simp add: clusterNodes_def)
    moreover have "cs_Name (cp_Stops (svcs ! i) ! j) \<in> set (gn_Names (pc_node ?c))"
      using mem(2) stop by (force simp: pc_node_def clusterNames_def set_namesLoop mergeStopOf_def)
    moreover have "gn_Slug (pc_node ?c) \<le> cs_Slug (cp_Stops (svcs ! i) ! j)"
      using partitioned_key(2) [OF part mem(1)] mem(2) stop by (force simp: pc_node_def mergeStopOf_def)
    moreover have "gn_Slug (pc_node ?c) = pc_key ?c" by (simp add: pc_node_def)
    ultimately show ?thesis using merged by metis
  qed
  with run len show ?thesis by blast
qed

text \<open>
  C8: The result of a merge is a function of the set of declared interchanges: neither their
  order nor repetitions change the merged services, the report or the nodes.
\<close>

theorem MergeColocatedStops_pair_order:
  assumes "set prs = set prs'"
  shows "MergeColocatedStops svcs prs = MergeColocatedStops svcs prs'"
proof -
  let ?stops = "flattenStops svcs"
  obtain clusters cof where c: "clusterStops ?stops = (clusters, cof)" by (cases "clusterStops ?stops")
  have "partitioned ?stops clusters cof" by (rule clusterStops_partitioned [OF c sorted_flattenStops])
  then have "foldDeclaredPairs ?stops clusters cof prs = foldDeclaredPairs ?stops clusters cof prs'"
    using assms by (intro foldDeclaredPairs_set) (auto simp: partitioned_def)
  with c show ?thesis by (simp add: MergeColocatedStops_def)
qed

lemma merge_slug_at:
  assumes "merge_spec svcs clusters cof merged" and "k < length (flattenStops svcs)"
  shows "cs_Slug (cp_Stops (merged ! ms_svcIdx (flattenStops svcs ! k)) ! ms_stopIdx (flattenStops svcs ! k)) =
    pc_key (clusters ! (cof ! k))"
proof -
  let ?s = "flattenStops svcs ! k"
  have "?s \<in> set (allStops svcs)" using assms(2) flattenStops_facts(1) nth_mem by blast
  then obtain i j where ij: "i < length svcs" "j < length (cp_Stops (svcs ! i))"
    and s: "?s = mergeStopOf i j (cp_ID (svcs ! i)) (cp_Stops (svcs ! i) ! j)"
    by (auto simp: set_allStops)
  obtain k' where k': "k' < length (flattenStops svcs)" "flattenStops svcs ! k' = ?s"
    "cp_Stops (merged ! i) ! j = (cp_Stops (svcs ! i) ! j)\<lparr>cs_Slug := pc_key (clusters ! (cof ! k'))\<rparr>"
    by (rule merge_spec_slug [OF assms(1) ij]) (use s in simp)
  have "distinct (flattenStops svcs)" using flattenStops_facts(2) by (simp add: distinct_map)
  with k' assms(2) have "k' = k" by (simp add: nth_eq_iff_index_eq)
  with k'(3) s show ?thesis by (simp add: mergeStopOf_def)
qed

text \<open>
  C4: When no two stops share a slug, two stops are put on one node exactly when their
  proximity clusters are equal or connected through declared interchanges, and the node slugs
  are pairwise distinct.
\<close>

theorem MergeColocatedStops_same_node:
  assumes "distinct (map ms_Slug (flattenStops svcs))"
    and "clusterStops (flattenStops svcs) = (clusters, clusterOf)"
    and "MergeColocatedStops svcs prs = Some (merged, report, nodes)"
    and "k < length (flattenStops svcs)" and "l < length (flattenStops svcs)"
  shows "(cs_Slug (cp_Stops (merged ! ms_svcIdx (flattenStops svcs ! k)) ! ms_stopIdx (flattenStops svcs ! k)) =
      cs_Slug (cp_Stops (merged ! ms_svcIdx (flattenStops svcs ! l)) ! ms_stopIdx (flattenStops svcs ! l)) \<longleftrightarrow>
      (clusterOf ! k, clusterOf ! l) \<in> linked (set (pairLinks (flattenStops svcs) clusterOf prs))) \<and>
    distinct (map gn_Slug nodes)"
proof (rule MergeColocatedStops_spec [of svcs prs])
  fix clusters0 cof0 clusters' cof merged'
  assume c0: "clusterStops (flattenStops svcs) = (clusters0, cof0)"
    and same: "\<And>i j. i < length (flattenStops svcs) \<Longrightarrow> j < length (flattenStops svcs) \<Longrightarrow>
       cof ! i = cof ! j \<longleftrightarrow> (cof0 ! i, cof0 ! j) \<in> linked (set (pairLinks (flattenStops svcs) cof0 prs))"
    and spec: "merge_spec svcs clusters' cof merged'"
    and run: "MergeColocatedStops svcs prs = Some (merged',
       \<lparr>mr_Clusters = realisedClusters clusters', mr_NearMisses = nearMisses (flattenStops svcs) cof\<rparr>,
       clusterNodes clusters')"
  have eqs: "merged = merged'" "nodes = clusterNodes clusters'" "clusterOf = cof0"
    using run assms(2,3) c0 by simp_all
  have part: "partitioned (flattenStops svcs) clusters' cof" using spec by (simp add: merge_spec_def)
  have lt: "cof ! k < length clusters'" "cof ! l < length clusters'"
    using partitioned_member(1) [OF part] assms(4,5) by blast+
  note inj = partitioned_keys_inj [OF part assms(1)]
  have "distinct (map pc_key clusters')" using inj by (simp add: distinct_conv_nth)
  then have "distinct (map gn_Slug nodes)" using eqs(2) by (simp add: clusterNodes_def o_def pc_node_def)
  with same [OF assms(4,5)] inj [OF lt] show ?thesis
    unfolding eqs(1,3) merge_slug_at [OF spec assms(4)] merge_slug_at [OF spec assms(5)] by simp
qed

text \<open>
  C16: A proximity cluster holds at most one stop of each service, and every member lies within
  the merge radius of its anchor, widened by the two snap offsets but never past the maximum.
\<close>

theorem clusterStops_radius:
  assumes "clusterStops (flattenStops svcs) = (clusters, clusterOf)" and "c \<in> set clusters"
  shows "distinct (map ms_ServiceID (pc_members c)) \<and>
    (\<forall>m \<in> set (tl (pc_members c)). DistanceM (pc_anchor c) (ms_at m) \<le> MaxMergeRadiusM \<and>
       DistanceM (pc_anchor c) (ms_at m) \<le> MergeRadiusM + pc_anchorOffsetM c + ms_offsetM m)"
  using clusterStops_first_fit [OF assms]
  by (fastforce simp: first_fit_def near_anchor_def effectiveMergeRadius_def Let_def split: if_splits)

lemma checkPairs_None:
  "checkPairs known i prs = None \<longleftrightarrow>
     (\<forall>p \<in> set prs. si_ServiceID (ip_A p) \<noteq> si_ServiceID (ip_B p) \<and> ip_A p \<in> known \<and> ip_B p \<in> known)"
  by (induction known i prs rule: checkPairs.induct) auto

text \<open>
  C23: Declared interchanges are accepted exactly when each joins two known stops of different
  services.
\<close>

theorem validateInterchangePairs_accepts:
  "validateInterchangePairs svcs prs = None \<longleftrightarrow>
     (\<forall>p \<in> set prs. si_ServiceID (ip_A p) \<noteq> si_ServiceID (ip_B p) \<and>
        ip_A p \<in> knownStops svcs \<and> ip_B p \<in> knownStops svcs)"
  by (simp add: validateInterchangePairs_def checkPairs_None)

lemma nearMiss_set:
  "nm \<in> set (nearMiss a b) \<longleftrightarrow> ms_ServiceID (fst a) \<noteq> ms_ServiceID (fst b) \<and> snd a \<noteq> snd b \<and>
     DistanceM (ms_at (fst a)) (ms_at (fst b)) \<le> NearMissRadiusM \<and>
     nm = \<lparr>nm_A = ms_ref (fst a), nm_B = ms_ref (fst b), nm_DistanceM = DistanceM (ms_at (fst a)) (ms_at (fst b))\<rparr>"
  by (auto simp: nearMiss_def Let_def)

lemma nearMissLoop_set:
  "nm \<in> set (nearMissLoop xs) \<longleftrightarrow> (\<exists>i j. i < j \<and> j < length xs \<and> nm \<in> set (nearMiss (xs ! i) (xs ! j)))"
proof (induction xs)
  case (Cons x xs)
  have "(\<exists>i j. i < j \<and> j < length (x # xs) \<and> nm \<in> set (nearMiss ((x # xs) ! i) ((x # xs) ! j))) \<longleftrightarrow>
      (\<exists>j < length xs. nm \<in> set (nearMiss x (xs ! j))) \<or>
      (\<exists>i j. i < j \<and> j < length xs \<and> nm \<in> set (nearMiss (xs ! i) (xs ! j)))" (is "?L \<longleftrightarrow> ?A \<or> ?B")
  proof
    assume ?L
    then obtain i j where ij: "i < j" "j < length (x # xs)" "nm \<in> set (nearMiss ((x # xs) ! i) ((x # xs) ! j))" by blast
    then obtain j' where "j = Suc j'" by (cases j) auto
    with ij show "?A \<or> ?B" by (cases i) auto
  next
    assume "?A \<or> ?B"
    then show ?L by (elim disjE exE conjE) (metis length_Cons not_less_eq nth_Cons_0 nth_Cons_Suc zero_less_Suc)+
  qed
  moreover have "nm \<in> set (concat (map (nearMiss x) xs)) \<longleftrightarrow> (\<exists>j < length xs. nm \<in> set (nearMiss x (xs ! j)))"
    by (simp, metis in_set_conv_nth)
  ultimately show ?case using Cons.IH by simp
qed simp

text \<open>
  C22: The reported near misses are exactly the pairs of stops of different services that ended up
  on different nodes no more than the near-miss radius apart, with their distance.
\<close>

theorem nearMisses_exact:
  assumes "length clusterOf = length stops"
  shows "nm \<in> set (nearMisses stops clusterOf) \<longleftrightarrow>
    (\<exists>i j. i < j \<and> j < length stops \<and> ms_ServiceID (stops ! i) \<noteq> ms_ServiceID (stops ! j) \<and>
       clusterOf ! i \<noteq> clusterOf ! j \<and> DistanceM (ms_at (stops ! i)) (ms_at (stops ! j)) \<le> NearMissRadiusM \<and>
       nm = \<lparr>nm_A = ms_ref (stops ! i), nm_B = ms_ref (stops ! j),
             nm_DistanceM = DistanceM (ms_at (stops ! i)) (ms_at (stops ! j))\<rparr>)"
proof -
  have eq: "nm \<in> set (nearMiss (zip stops clusterOf ! i) (zip stops clusterOf ! j)) \<longleftrightarrow>
      ms_ServiceID (stops ! i) \<noteq> ms_ServiceID (stops ! j) \<and>
       clusterOf ! i \<noteq> clusterOf ! j \<and> DistanceM (ms_at (stops ! i)) (ms_at (stops ! j)) \<le> NearMissRadiusM \<and>
       nm = \<lparr>nm_A = ms_ref (stops ! i), nm_B = ms_ref (stops ! j),
             nm_DistanceM = DistanceM (ms_at (stops ! i)) (ms_at (stops ! j))\<rparr>"
    if "i < j" "j < length stops" for i j
    using that assms by (simp add: nearMiss_set)
  have "length (zip stops clusterOf) = length stops" using assms by simp
  then show ?thesis unfolding nearMisses_def nearMissLoop_set using eq by (metis (no_types, lifting))
qed

subsection \<open>A sample interchange\<close>

text \<open>
  Service \<open>A\<close> calls at \<open>a1\<close> and, one degree of longitude away, at \<open>a2\<close>; service \<open>B\<close> calls
  where \<open>a1\<close> is. The author declares \<open>a2\<close> and \<open>b1\<close> an interchange.
\<close>

definition sampleStop :: "string \<Rightarrow> float64 \<Rightarrow> CompilableStop" where
  "sampleStop slug lng =
     \<lparr>cs_Slug = slug, cs_Name = slug, cs_Lat = 0, cs_Lng = lng, cs_DwellS = 20, cs_OffsetM = 0\<rparr>"

definition sampleRoute :: Route where
  "sampleRoute =
     \<lparr>rt_ID = ''r'', rt_ScenarioID = None, rt_OwnerID = None, rt_Slug = ''r'', rt_Name = ''r'', rt_Description = [],
      rt_Mode = ''rail'', rt_Geometry = \<lparr>gl_Type = ''LineString'', gl_Coordinates = [[0, 0], [2, 0]]\<rparr>,
      rt_Bidirectional = True, rt_Segments = []\<rparr>"

definition sampleCompilable :: "string \<Rightarrow> CompilableStop list \<Rightarrow> CompilableService" where
  "sampleCompilable svcID stops =
     \<lparr>cp_ID = svcID, cp_Route = sampleRoute,
      cp_Vehicle = \<lparr>kn_MaxSpeedKMH = 100, kn_AccelerationMS2 = 1, kn_DecelerationMS2 = 1\<rparr>,
      cp_Stops = stops, cp_Windows = [], cp_BoardingWait = None, cp_ScenarioBoardingWait = None\<rparr>"

definition sampleCompilables :: "CompilableService list" where
  "sampleCompilables =
     [sampleCompilable ''A'' [sampleStop ''a1'' 0, sampleStop ''a2'' 1],
      sampleCompilable ''B'' [sampleStop ''b1'' 0]]"

definition samplePairs :: "InterchangePair list" where
  "samplePairs =
     [\<lparr>ip_A = \<lparr>si_ServiceID = ''A'', si_Slug = ''a2''\<rparr>, ip_B = \<lparr>si_ServiceID = ''B'', si_Slug = ''b1''\<rparr>\<rparr>]"

definition sampleMergeStops :: "mergeStop list" where
  "sampleMergeStops =
     [mergeStopOf 0 0 ''A'' (sampleStop ''a1'' 0), mergeStopOf 0 1 ''A'' (sampleStop ''a2'' 1),
      mergeStopOf 1 0 ''B'' (sampleStop ''b1'' 0)]"

lemmas sample_merge_defs = sampleStop_def sampleRoute_def sampleCompilable_def sampleCompilables_def
  samplePairs_def sampleMergeStops_def mergeStopOf_def

lemma sample_flatten: "flattenStops sampleCompilables = sampleMergeStops"
  by (simp add: sample_merge_defs flattenStops_def allStops_def stop_lt_def enumerate_eq_zip)

lemma sample_cluster:
  "clusterStops sampleMergeStops =
     ([\<lparr>pc_members = [sampleMergeStops ! 0, sampleMergeStops ! 2], pc_services = {''A'', ''B''}\<rparr>,
       \<lparr>pc_members = [sampleMergeStops ! 1], pc_services = {''A''}\<rparr>], [0, 1, 0])"
  by (simp add: clusterStops_def sample_merge_defs newCluster_def addMember_def canJoin_def pc_anchor_def
      pc_anchorOffsetM_def effectiveMergeRadius_def MergeRadiusM_def MaxMergeRadiusM_def insert_commute)

lemma sample_index:
  "stopIndex sampleMergeStops = [\<lparr>si_ServiceID = ''A'', si_Slug = ''a1''\<rparr> \<mapsto> 0,
     \<lparr>si_ServiceID = ''A'', si_Slug = ''a2''\<rparr> \<mapsto> 1, \<lparr>si_ServiceID = ''B'', si_Slug = ''b1''\<rparr> \<mapsto> 2]"
  by (rule ext) (simp add: stopIndex_def index_by_def sample_merge_defs stopIdentity_def enumerate_eq_zip)

lemma sample_links: "pairLinks sampleMergeStops [0, 1, 0] samplePairs = [(1, 0)]"
  by (simp add: pairLinks_def pairLink_def sample_index samplePairs_def)

subsection \<open>Witnesses\<close>

lemma MergeColocatedStops_relabels_witness:
  "\<exists>merged report nodes. MergeColocatedStops sampleCompilables samplePairs = Some (merged, report, nodes) \<and>
     length merged = 2 \<and>
     (\<exists>node \<in> set nodes. cp_Stops (merged ! 0) ! 1 = (sampleStop ''a2'' 1)\<lparr>cs_Slug := gn_Slug node\<rparr> \<and>
        ''a2'' \<in> set (gn_Names node) \<and> gn_Slug node \<le> ''a2'')"
proof -
  obtain merged report nodes where run: "MergeColocatedStops sampleCompilables samplePairs = Some (merged, report, nodes)"
    "length merged = length sampleCompilables"
    and all: "\<forall>i < length sampleCompilables. \<forall>j < length (cp_Stops (sampleCompilables ! i)).
        merged ! i = (sampleCompilables ! i)\<lparr>cp_Stops := cp_Stops (merged ! i)\<rparr> \<and>
        length (cp_Stops (merged ! i)) = length (cp_Stops (sampleCompilables ! i)) \<and>
        (\<exists>node \<in> set nodes.
           cp_Stops (merged ! i) ! j = (cp_Stops (sampleCompilables ! i) ! j)\<lparr>cs_Slug := gn_Slug node\<rparr> \<and>
           cs_Name (cp_Stops (sampleCompilables ! i) ! j) \<in> set (gn_Names node) \<and>
           gn_Slug node \<le> cs_Slug (cp_Stops (sampleCompilables ! i) ! j))"
    using MergeColocatedStops_relabels [of sampleCompilables samplePairs] by blast
  have size: "0 < length sampleCompilables" "1 < length (cp_Stops (sampleCompilables ! 0))" "length sampleCompilables = 2"
    and stop: "cp_Stops (sampleCompilables ! 0) ! 1 = sampleStop ''a2'' 1"
    by (simp_all add: sampleCompilables_def sampleCompilable_def)
  have "cs_Name (sampleStop ''a2'' 1) = ''a2''" "cs_Slug (sampleStop ''a2'' 1) = ''a2''" by (simp_all add: sampleStop_def)
  with all [rule_format, OF size(1,2)] run size(3) stop show ?thesis by metis
qed

lemma MergeColocatedStops_pair_order_witness:
  "MergeColocatedStops sampleCompilables (samplePairs @ samplePairs) = MergeColocatedStops sampleCompilables samplePairs"
  by (rule MergeColocatedStops_pair_order) simp

lemma MergeColocatedStops_same_node_witness:
  "\<exists>merged report nodes. MergeColocatedStops sampleCompilables samplePairs = Some (merged, report, nodes) \<and>
     cs_Slug (cp_Stops (merged ! 0) ! 0) = cs_Slug (cp_Stops (merged ! 0) ! 1) \<and> distinct (map gn_Slug nodes)"
proof -
  obtain merged report nodes where run: "MergeColocatedStops sampleCompilables samplePairs = Some (merged, report, nodes)"
    by (rule MergeColocatedStops_spec [of sampleCompilables samplePairs]) blast
  have "distinct (map ms_Slug sampleMergeStops)" "length sampleMergeStops = 3"
    "ms_svcIdx (sampleMergeStops ! 0) = 0" "ms_stopIdx (sampleMergeStops ! 0) = 0"
    "ms_svcIdx (sampleMergeStops ! 1) = 0" "ms_stopIdx (sampleMergeStops ! 1) = 1"
    by (simp_all add: sampleMergeStops_def mergeStopOf_def sampleStop_def)
  moreover have "(1, 0) \<in> linked (set (pairLinks sampleMergeStops [0, 1, 0] samplePairs))"
    by (rule linked_link) (subst sample_links, simp)
  then have "(0, 1) \<in> linked (set (pairLinks sampleMergeStops [0, 1, 0] samplePairs))" by (rule linked_sym)
  ultimately show ?thesis
    using MergeColocatedStops_same_node [of sampleCompilables, unfolded sample_flatten, OF _ sample_cluster run, of 0 1] run
    by auto
qed

lemma clusterStops_radius_witness:
  "DistanceM (ms_at (sampleMergeStops ! 0)) (ms_at (sampleMergeStops ! 2)) \<le> MaxMergeRadiusM"
  using clusterStops_radius [of sampleCompilables, unfolded sample_flatten, OF sample_cluster,
      of "\<lparr>pc_members = [sampleMergeStops ! 0, sampleMergeStops ! 2], pc_services = {''A'', ''B''}\<rparr>"]
  by (simp add: pc_anchor_def)

lemma validateInterchangePairs_accepts_witness:
  "validateInterchangePairs sampleCompilables samplePairs = None"
proof -
  have "\<forall>p \<in> set samplePairs. si_ServiceID (ip_A p) \<noteq> si_ServiceID (ip_B p) \<and>
      ip_A p \<in> knownStops sampleCompilables \<and> ip_B p \<in> knownStops sampleCompilables"
    by (auto simp: samplePairs_def knownStops_def sampleCompilables_def sampleCompilable_def sampleStop_def)
  then show ?thesis using validateInterchangePairs_accepts by blast
qed

lemma nearMisses_exact_witness:
  "\<exists>nm. nm \<in> set (nearMisses sampleMergeStops [0, 1, 2]) \<and> nm_DistanceM nm = 0"
proof -
  let ?nm = "\<lparr>nm_A = ms_ref (sampleMergeStops ! 0), nm_B = ms_ref (sampleMergeStops ! 2), nm_DistanceM = 0\<rparr>"
  have "length [0, 1, 2 :: nat] = length sampleMergeStops" by (simp add: sampleMergeStops_def)
  note exact = nearMisses_exact [OF this, of ?nm]
  have "0 < (2 :: nat) \<and> 2 < length sampleMergeStops \<and>
      ms_ServiceID (sampleMergeStops ! 0) \<noteq> ms_ServiceID (sampleMergeStops ! 2) \<and>
      [0, 1, 2 :: nat] ! 0 \<noteq> [0, 1, 2] ! 2 \<and>
      DistanceM (ms_at (sampleMergeStops ! 0)) (ms_at (sampleMergeStops ! 2)) \<le> NearMissRadiusM \<and>
      ?nm = \<lparr>nm_A = ms_ref (sampleMergeStops ! 0), nm_B = ms_ref (sampleMergeStops ! 2),
             nm_DistanceM = DistanceM (ms_at (sampleMergeStops ! 0)) (ms_at (sampleMergeStops ! 2))\<rparr>"
    by (simp add: sample_merge_defs NearMissRadiusM_def MergeRadiusM_def)
  then have "?nm \<in> set (nearMisses sampleMergeStops [0, 1, 2])" unfolding exact by blast
  then show ?thesis by auto
qed

end
