(* ===== verification/Speed_Limit.thy ===== *)
theory Speed_Limit
  imports Prelude
begin

text \<open>
  \<open>internal/physics/speedlimit.go\<close>: the speed limit of a track segment from its curve,
  cant and grade and the vehicle's ceiling. The function guards against NaN and infinite
  inputs, so its floats are a type with those values as constructors; finite arithmetic is
  exact. The operations follow IEEE 754 and the Go \<open>math\<close> package on the special values.
\<close>

datatype fl = Fin real | PosInf | NegInf | NaN

fun fl_lt :: "fl \<Rightarrow> fl \<Rightarrow> bool" where
  "fl_lt (Fin a) (Fin b) = (a < b)"
| "fl_lt NegInf (Fin b) = True"
| "fl_lt NegInf PosInf = True"
| "fl_lt (Fin a) PosInf = True"
| "fl_lt _ _ = False"

definition fl_le :: "fl \<Rightarrow> fl \<Rightarrow> bool" where
  "fl_le x y \<longleftrightarrow> fl_lt x y \<or> (x = y \<and> x \<noteq> NaN)"

fun fl_neg :: "fl \<Rightarrow> fl" where
  "fl_neg (Fin a) = Fin (- a)"
| "fl_neg PosInf = NegInf"
| "fl_neg NegInf = PosInf"
| "fl_neg NaN = NaN"

fun fl_add :: "fl \<Rightarrow> fl \<Rightarrow> fl" where
  "fl_add (Fin a) (Fin b) = Fin (a + b)"
| "fl_add NaN _ = NaN"
| "fl_add _ NaN = NaN"
| "fl_add PosInf NegInf = NaN"
| "fl_add NegInf PosInf = NaN"
| "fl_add PosInf _ = PosInf"
| "fl_add _ PosInf = PosInf"
| "fl_add NegInf _ = NegInf"
| "fl_add _ NegInf = NegInf"

definition fl_inf :: "real \<Rightarrow> fl" where
  "fl_inf s = (if s > 0 then PosInf else if s < 0 then NegInf else NaN)"

fun fl_mul :: "fl \<Rightarrow> fl \<Rightarrow> fl" where
  "fl_mul (Fin a) (Fin b) = Fin (a * b)"
| "fl_mul NaN _ = NaN"
| "fl_mul _ NaN = NaN"
| "fl_mul PosInf (Fin b) = fl_inf b"
| "fl_mul (Fin a) PosInf = fl_inf a"
| "fl_mul NegInf (Fin b) = fl_inf (- b)"
| "fl_mul (Fin a) NegInf = fl_inf (- a)"
| "fl_mul PosInf PosInf = PosInf"
| "fl_mul NegInf NegInf = PosInf"
| "fl_mul _ _ = NegInf"

text \<open>Division by a positive constant, the only division of this file.\<close>

definition fl_divc :: "fl \<Rightarrow> real \<Rightarrow> fl" where
  "fl_divc x c = fl_mul x (Fin (1 / c))"

fun math_Sqrt :: "fl \<Rightarrow> fl" where
  "math_Sqrt (Fin a) = (if a < 0 then NaN else Fin (sqrt a))"
| "math_Sqrt PosInf = PosInf"
| "math_Sqrt _ = NaN"

definition math_Min :: "fl \<Rightarrow> fl \<Rightarrow> fl" where
  "math_Min x y =
     (if x = NegInf \<or> y = NegInf then NegInf
      else if x = NaN \<or> y = NaN then NaN
      else if fl_lt x y then x else y)"

definition math_Max :: "fl \<Rightarrow> fl \<Rightarrow> fl" where
  "math_Max x y =
     (if x = PosInf \<or> y = PosInf then PosInf
      else if x = NaN \<or> y = NaN then NaN
      else if fl_lt y x then x else y)"

subsection \<open>The speed limit\<close>

abbreviation gaugeMM :: real where "gaugeMM \<equiv> 1500"
abbreviation gravityMS2 :: real where "gravityMS2 \<equiv> 9.81"
abbreviation defaultMaxCantDeficiencyMM :: real where "defaultMaxCantDeficiencyMM \<equiv> 150"
abbreviation gradeDerateThreshold :: real where "gradeDerateThreshold \<equiv> 0.02"
abbreviation (input) gradeDerateCoeff :: real where "gradeDerateCoeff \<equiv> 5"
abbreviation minGradeFactor :: real where "minGradeFactor \<equiv> 0.5"
abbreviation (input) msToKMH :: real where "msToKMH \<equiv> 3.6"

record SpeedLimitInputs =
  sl_CurveRadiusM :: fl
  sl_AppliedCantMM :: fl
  sl_MaxCantDeficiencyMM :: fl
  sl_Grade :: fl
  sl_VehicleMaxKMH :: fl

definition isCurved :: "fl \<Rightarrow> bool" where
  "isCurved radiusM \<longleftrightarrow> fl_lt (Fin 0) radiusM \<and> radiusM \<noteq> PosInf"

definition gradeFactor :: "fl \<Rightarrow> fl" where
  "gradeFactor grade =
     (if fl_le (Fin 0) grade then Fin 1
      else let d = fl_neg grade in
        if fl_le d (Fin gradeDerateThreshold) then Fin 1
        else math_Max (Fin minGradeFactor)
               (fl_add (Fin 1)
                 (fl_neg (fl_mul (Fin gradeDerateCoeff) (fl_add d (Fin (- gradeDerateThreshold)))))))"

definition SpeedLimit :: "SpeedLimitInputs \<Rightarrow> fl" where
  "SpeedLimit inp =
     (if \<not> fl_lt (Fin 0) (sl_VehicleMaxKMH inp) \<or> sl_VehicleMaxKMH inp = PosInf then Fin 0
      else
        let appliedCantMM =
              (if sl_AppliedCantMM inp = NaN \<or> fl_lt (sl_AppliedCantMM inp) (Fin 0) then Fin 0
               else sl_AppliedCantMM inp);
            cantDeficiencyMM =
              (if sl_MaxCantDeficiencyMM inp = NaN \<or> fl_le (sl_MaxCantDeficiencyMM inp) (Fin 0)
               then Fin defaultMaxCantDeficiencyMM else sl_MaxCantDeficiencyMM inp);
            grade = (if sl_Grade inp = NaN then Fin 0 else sl_Grade inp);
            vCurveKMH =
              (if isCurved (sl_CurveRadiusM inp) then
                 let effectiveCantMM = fl_add appliedCantMM cantDeficiencyMM;
                     vCurveMS = math_Sqrt (fl_mul (fl_mul (fl_divc effectiveCantMM gaugeMM)
                                  (Fin gravityMS2)) (sl_CurveRadiusM inp))
                 in fl_mul vCurveMS (Fin msToKMH)
               else PosInf);
            speed = math_Min vCurveKMH (sl_VehicleMaxKMH inp)
        in fl_mul speed (gradeFactor grade))"

subsection \<open>Bounds\<close>

lemma gradeFactor_bounds: "grade \<noteq> NaN \<Longrightarrow> \<exists>g. gradeFactor grade = Fin g \<and> 1/2 \<le> g \<and> g \<le> 1"
  by (cases grade)
    (auto simp: gradeFactor_def fl_le_def Let_def math_Max_def fl_inf_def, (rule exI [of _ "1/2"], simp)+)

lemma gradeFactor_level: "fl_le (Fin 0) grade \<Longrightarrow> gradeFactor grade = Fin 1"
  by (simp add: gradeFactor_def)

text \<open>The lateral limit is positive: a finite positive speed, or none at all.\<close>

definition pos_fl :: "fl \<Rightarrow> bool" where
  "pos_fl x \<longleftrightarrow> fl_lt (Fin 0) x"

lemma pos_fl_simps [simp]:
  "pos_fl (Fin a) \<longleftrightarrow> 0 < a" "pos_fl PosInf" "\<not> pos_fl NegInf" "\<not> pos_fl NaN"
  by (auto simp: pos_fl_def)

lemma pos_fl_mul: "pos_fl x \<Longrightarrow> pos_fl y \<Longrightarrow> pos_fl (fl_mul x y)"
  by (cases x; cases y) (auto simp: fl_inf_def)

lemma pos_fl_add: "pos_fl y \<Longrightarrow> fl_le (Fin 0) x \<Longrightarrow> pos_fl (fl_add x y)"
  by (cases x; cases y) (auto simp: fl_le_def)

lemma pos_fl_sqrt: "pos_fl x \<Longrightarrow> pos_fl (math_Sqrt x)"
  by (cases x) auto

lemma math_Min_pos: "pos_fl x \<Longrightarrow> 0 < m \<Longrightarrow> \<exists>s. math_Min x (Fin m) = Fin s \<and> 0 < s \<and> s \<le> m"
  by (cases x) (auto simp: math_Min_def)

lemma SpeedLimit_positive:
  assumes "sl_VehicleMaxKMH inp = Fin m" and "0 < m"
  shows "\<exists>v. SpeedLimit inp = Fin v \<and> 0 < v \<and> v \<le> m"
proof -
  define cant where "cant = (if sl_AppliedCantMM inp = NaN \<or> fl_lt (sl_AppliedCantMM inp) (Fin 0)
    then Fin 0 else sl_AppliedCantMM inp)"
  define defi where "defi = (if sl_MaxCantDeficiencyMM inp = NaN \<or> fl_le (sl_MaxCantDeficiencyMM inp) (Fin 0)
    then Fin defaultMaxCantDeficiencyMM else sl_MaxCantDeficiencyMM inp)"
  define grade where "grade = (if sl_Grade inp = NaN then Fin 0 else sl_Grade inp)"
  define curve where "curve = (if isCurved (sl_CurveRadiusM inp) then
    fl_mul (math_Sqrt (fl_mul (fl_mul (fl_divc (fl_add cant defi) gaugeMM) (Fin gravityMS2))
      (sl_CurveRadiusM inp))) (Fin msToKMH) else PosInf)"
  have eq: "SpeedLimit inp = fl_mul (math_Min curve (Fin m)) (gradeFactor grade)"
    using assms by (simp add: SpeedLimit_def Let_def cant_def defi_def grade_def curve_def)
  have "fl_le (Fin 0) cant"
    by (cases "sl_AppliedCantMM inp") (auto simp: cant_def fl_le_def)
  moreover have "pos_fl defi"
    by (cases "sl_MaxCantDeficiencyMM inp") (auto simp: defi_def fl_le_def)
  ultimately have "pos_fl (fl_add cant defi)" by (rule pos_fl_add [rotated])
  then have "pos_fl curve"
    by (auto simp: curve_def isCurved_def fl_divc_def pos_fl_def [symmetric]
        intro!: pos_fl_mul pos_fl_sqrt)
  from math_Min_pos [OF this assms(2)] obtain s where s: "math_Min curve (Fin m) = Fin s" "0 < s" "s \<le> m"
    by blast
  have "grade \<noteq> NaN" by (simp add: grade_def)
  then obtain g where g: "gradeFactor grade = Fin g" "1/2 \<le> g" "g \<le> 1"
    using gradeFactor_bounds by blast
  have "s * g \<le> m * 1" using s g by (intro mult_mono) auto
  with s g eq show ?thesis by auto
qed

end
