(* ===== verification/Run_Time.thy ===== *)
theory Run_Time
  imports Projection Speed_Limit
begin

text \<open>
  \<open>internal/physics/runtime.go\<close>: the run time of one inter-stop span, from rest to rest,
  under the speed caps of its track segments and the vehicle's acceleration limits.
\<close>

record VehicleLimits =
  vl_MaxSpeedKMH :: float64
  vl_AccelerationMS2 :: float64
  vl_DecelerationMS2 :: float64

datatype run_error =
    BadMaxSpeed float64
  | BadAcceleration float64
  | BadDeceleration float64
  | NoSegments float64
  | BadSpeedCap nat fl

definition kmhToMS :: "fl \<Rightarrow> fl" where
  "kmhToMS kmh = fl_divc kmh msToKMH"

definition segmentCap :: "VehicleLimits \<Rightarrow> Segment \<Rightarrow> fl" where
  "segmentCap vehicle seg =
     kmhToMS (SpeedLimit
       \<lparr>sl_CurveRadiusM = Fin (sgm_CurveRadiusM seg), sl_AppliedCantMM = Fin (sgm_CantMM seg),
        sl_MaxCantDeficiencyMM = Fin 0, sl_Grade = Fin (sgm_GradePct seg / 100),
        sl_VehicleMaxKMH = Fin (vl_MaxSpeedKMH vehicle)\<rparr>)"

fun capsMS :: "VehicleLimits \<Rightarrow> nat \<Rightarrow> SpanSegment list \<Rightarrow> run_error + float64 list" where
  "capsMS vehicle i [] = Inr []"
| "capsMS vehicle i (seg # segs) =
     (case segmentCap vehicle (sps_Physics seg) of
        Fin c \<Rightarrow> if \<not> 0 < c then Inl (BadSpeedCap i (Fin c))
                 else bind_res (capsMS vehicle (Suc i) segs) (\<lambda>cs. Inr (c # cs))
      | bad \<Rightarrow> Inl (BadSpeedCap i bad))"

fun fwdSpeeds :: "float64 \<Rightarrow> float64 \<Rightarrow> float64 list \<Rightarrow> float64 list \<Rightarrow> float64 list" where
  "fwdSpeeds accel v (d # ds) (c # cs) =
     v # fwdSpeeds accel (min c (sqrt (v * v + 2 * accel * d))) ds cs"
| "fwdSpeeds accel v ds cs = [v]"

fun bwdSpeeds :: "float64 \<Rightarrow> float64 list \<Rightarrow> float64 list \<Rightarrow> float64 list" where
  "bwdSpeeds decel (d # ds) (c # cs) =
     (let rest = bwdSpeeds decel ds cs
      in min c (sqrt (hd rest * hd rest + 2 * decel * d)) # rest)"
| "bwdSpeeds decel ds cs = [0]"

definition boundedNodeSpeeds ::
  "float64 list \<Rightarrow> float64 list \<Rightarrow> float64 \<Rightarrow> float64 \<Rightarrow> float64 list" where
  "boundedNodeSpeeds distsM caps accel decel =
     map2 min (fwdSpeeds accel 0 distsM caps) (bwdSpeeds decel distsM caps)"

definition segmentSeconds ::
  "float64 \<Rightarrow> float64 \<Rightarrow> float64 \<Rightarrow> float64 \<Rightarrow> float64 \<Rightarrow> float64 \<Rightarrow> float64" where
  "segmentSeconds entryMS exitMS distM capMS accel decel =
     (if distM \<le> 0 then 0
      else
        let accelDist = (capMS * capMS - entryMS * entryMS) / (2 * accel);
            decelDist = (capMS * capMS - exitMS * exitMS) / (2 * decel)
        in if accelDist + decelDist \<le> distM then
             let cruiseDist = distM - accelDist - decelDist;
                 accelSecs = (capMS - entryMS) / accel;
                 decelSecs = (capMS - exitMS) / decel;
                 cruiseSecs = cruiseDist / capMS
             in accelSecs + decelSecs + cruiseSecs
           else
             let peakSq = (2 * accel * decel * distM + decel * entryMS * entryMS + accel * exitMS * exitMS)
                            / (accel + decel);
                 peak = sqrt (max peakSq (max (entryMS * entryMS) (exitMS * exitMS)))
             in (peak - entryMS) / accel + (peak - exitMS) / decel)"

fun sumSegments ::
  "float64 \<Rightarrow> float64 \<Rightarrow> float64 list \<Rightarrow> float64 list \<Rightarrow> float64 list \<Rightarrow> float64" where
  "sumSegments accel decel (v # v' # vs) (d # ds) (c # cs) =
     segmentSeconds v v' d c accel decel + sumSegments accel decel (v' # vs) ds cs"
| "sumSegments accel decel vs ds cs = 0"

definition SpanRunSeconds :: "InterStopSpan \<Rightarrow> VehicleLimits \<Rightarrow> run_error + float64" where
  "SpanRunSeconds sp vehicle =
     (if \<not> vl_MaxSpeedKMH vehicle > 0 then Inl (BadMaxSpeed (vl_MaxSpeedKMH vehicle))
      else if \<not> vl_AccelerationMS2 vehicle > 0 then Inl (BadAcceleration (vl_AccelerationMS2 vehicle))
      else if \<not> vl_DecelerationMS2 vehicle > 0 then Inl (BadDeceleration (vl_DecelerationMS2 vehicle))
      else if sn_DistanceM sp \<le> 0 then Inr 0
      else if sn_Segments sp = [] then Inl (NoSegments (sn_DistanceM sp))
      else
        bind_res (capsMS vehicle 0 (sn_Segments sp)) (\<lambda>caps.
          let distsM = map sps_DistanceM (sn_Segments sp);
              nodeSpeeds = boundedNodeSpeeds distsM caps (vl_AccelerationMS2 vehicle) (vl_DecelerationMS2 vehicle)
          in Inr (sumSegments (vl_AccelerationMS2 vehicle) (vl_DecelerationMS2 vehicle) nodeSpeeds distsM caps)))"

subsection \<open>Speed caps\<close>

lemma segmentCap_pos:
  assumes "0 < vl_MaxSpeedKMH v"
  shows "\<exists>c. segmentCap v seg = Fin c \<and> 0 < c \<and> c \<le> vl_MaxSpeedKMH v / msToKMH"
proof -
  let ?inp = "\<lparr>sl_CurveRadiusM = Fin (sgm_CurveRadiusM seg), sl_AppliedCantMM = Fin (sgm_CantMM seg),
        sl_MaxCantDeficiencyMM = Fin 0, sl_Grade = Fin (sgm_GradePct seg / 100),
        sl_VehicleMaxKMH = Fin (vl_MaxSpeedKMH v)\<rparr>"
  obtain x where x: "SpeedLimit ?inp = Fin x" "0 < x" "x \<le> vl_MaxSpeedKMH v"
    using SpeedLimit_positive [of ?inp "vl_MaxSpeedKMH v"] assms by auto
  have "0 < msToKMH" by simp
  with x have "segmentCap v seg = Fin (x / msToKMH)" "0 < x / msToKMH" "x / msToKMH \<le> vl_MaxSpeedKMH v / msToKMH"
    by (simp_all add: segmentCap_def kmhToMS_def fl_divc_def divide_right_mono)
  then show ?thesis by blast
qed

lemma capsMS_total:
  assumes "0 < vl_MaxSpeedKMH v"
  shows "\<exists>cs. capsMS v i segs = Inr cs \<and> length cs = length segs \<and>
    (\<forall>c \<in> set cs. 0 < c \<and> c \<le> vl_MaxSpeedKMH v / msToKMH)"
proof (induction segs arbitrary: i)
  case (Cons seg segs)
  obtain c where c: "segmentCap v (sps_Physics seg) = Fin c" "0 < c" "c \<le> vl_MaxSpeedKMH v / msToKMH"
    using segmentCap_pos [OF assms] by blast
  obtain cs where "capsMS v (Suc i) segs = Inr cs" "length cs = length segs"
    "\<forall>c \<in> set cs. 0 < c \<and> c \<le> vl_MaxSpeedKMH v / msToKMH"
    using Cons.IH by blast
  with c show ?case by auto
qed simp

subsection \<open>Node speeds are kinematically feasible\<close>

fun feasible ::
  "float64 \<Rightarrow> float64 \<Rightarrow> float64 list \<Rightarrow> float64 list \<Rightarrow> float64 list \<Rightarrow> bool" where
  "feasible accel decel (v # v' # vs) (d # ds) (c # cs) \<longleftrightarrow>
     0 \<le> v \<and> v \<le> c \<and> 0 \<le> v' \<and> v' \<le> c \<and>
     v' * v' \<le> v * v + 2 * accel * d \<and> v * v \<le> v' * v' + 2 * decel * d \<and>
     feasible accel decel (v' # vs) ds cs"
| "feasible accel decel [v] [] [] \<longleftrightarrow> 0 \<le> v"
| "feasible accel decel vs ds cs \<longleftrightarrow> False"

lemma bwdSpeeds_nonempty [simp]: "bwdSpeeds decel ds cs \<noteq> []"
  by (induction decel ds cs rule: bwdSpeeds.induct) (auto simp: Let_def)

lemma hd_bwdSpeeds_nonneg:
  "\<forall>d \<in> set ds. 0 \<le> d \<Longrightarrow> \<forall>c \<in> set cs. 0 \<le> c \<Longrightarrow> 0 \<le> decel \<Longrightarrow> 0 \<le> hd (bwdSpeeds decel ds cs)"
  by (induction decel ds cs rule: bwdSpeeds.induct) (auto simp: Let_def)

lemma min_sq_le:
  fixes x y z c :: real
  assumes "0 \<le> x" "x \<le> c" "x * x \<le> z" "y = min c (sqrt z)"
  shows "x * x \<le> y * y"
proof -
  have "x \<le> sqrt z" using assms(3) real_le_rsqrt [of x z] by (simp add: power2_eq_square)
  moreover have "0 \<le> z" using assms(3) zero_le_square [of x] by linarith
  ultimately have "x \<le> y" using assms by simp
  with assms(1) show ?thesis by (intro mult_mono) auto
qed

lemma le_min_sq:
  fixes x z c :: real
  assumes "0 \<le> x" "x \<le> min c (sqrt z)" "0 \<le> z"
  shows "x * x \<le> z"
proof -
  have "x * x \<le> sqrt z * sqrt z" using assms by (intro mult_mono) auto
  with assms(3) show ?thesis by simp
qed

text \<open>One segment: \<open>f\<close>, \<open>b\<close> are the forward and backward bounds at its entry.\<close>

lemma feasible_step:
  fixes f b' d c accel decel :: real
  assumes "0 \<le> f" "0 \<le> b'" "0 \<le> d" "0 \<le> c" "0 \<le> accel" "0 \<le> decel"
    and f': "f' = min c (sqrt (f * f + 2 * accel * d))"
    and b: "b = min c (sqrt (b' * b' + 2 * decel * d))"
  defines "v \<equiv> min f b" and "v' \<equiv> min f' b'"
  shows "0 \<le> v" "v \<le> c" "0 \<le> v'" "v' \<le> c" "v' * v' \<le> v * v + 2 * accel * d"
    "v * v \<le> v' * v' + 2 * decel * d"
proof -
  have ad: "0 \<le> 2 * accel * d" "0 \<le> 2 * decel * d" using assms by simp_all
  have nn: "0 \<le> f'" "0 \<le> b" using assms ad by auto
  show v: "0 \<le> v" "v \<le> c" and v': "0 \<le> v'" "v' \<le> c"
    using assms nn by (auto simp: v_def v'_def)
  have "v' * v' \<le> f * f + 2 * accel * d"
    using le_min_sq [of v' c "f * f + 2 * accel * d"] v' f' ad by (simp add: v'_def)
  moreover have "v' * v' \<le> b * b"
  proof (rule min_sq_le [OF v' _ b])
    have "v' * v' \<le> b' * b'" using v' by (intro mult_mono) (auto simp: v'_def assms(2))
    with ad show "v' * v' \<le> b' * b' + 2 * decel * d" by linarith
  qed
  moreover have "v * v = f * f \<or> v * v = b * b" by (simp add: v_def min_def)
  ultimately show "v' * v' \<le> v * v + 2 * accel * d" using ad by linarith
  have "v * v \<le> b' * b' + 2 * decel * d"
    using le_min_sq [of v c "b' * b' + 2 * decel * d"] v b ad by (simp add: v_def)
  moreover have "v * v \<le> f' * f'"
  proof (rule min_sq_le [OF v _ f'])
    have "v * v \<le> f * f" using v by (intro mult_mono) (auto simp: v_def assms(1))
    with ad show "v * v \<le> f * f + 2 * accel * d" by linarith
  qed
  moreover have "v' * v' = f' * f' \<or> v' * v' = b' * b'" by (simp add: v'_def min_def)
  ultimately show "v * v \<le> v' * v' + 2 * decel * d" using ad by linarith
qed

lemma feasible_speeds:
  assumes "length ds = length cs" "0 \<le> f" "\<forall>d \<in> set ds. 0 \<le> d" "\<forall>c \<in> set cs. 0 \<le> c"
    and "0 \<le> accel" "0 \<le> decel"
  shows "feasible accel decel (map2 min (fwdSpeeds accel f ds cs) (bwdSpeeds decel ds cs)) ds cs"
  using assms
proof (induction ds cs arbitrary: f rule: list_induct2)
  case (Cons d ds c cs)
  let ?f' = "min c (sqrt (f * f + 2 * accel * d))"
  obtain b' bs where bs: "bwdSpeeds decel ds cs = b' # bs" by (cases "bwdSpeeds decel ds cs") auto
  obtain fs where fs: "fwdSpeeds accel ?f' ds cs = ?f' # fs"
    by (cases "(accel, ?f', ds, cs)" rule: fwdSpeeds.cases) auto
  have "0 \<le> b'" using hd_bwdSpeeds_nonneg [of ds cs decel] Cons.prems bs by simp
  note step = feasible_step [OF Cons.prems(1) this _ _ Cons.prems(4,5) refl refl, of d c]
  have "0 \<le> ?f'" using Cons.prems by simp
  from Cons.IH [OF this] Cons.prems bs fs step show ?case by (simp add: Let_def)
qed simp

subsection \<open>Segment times\<close>

text \<open>
  On feasible speeds the triangular profile needs no clamp: the peak it solves for is at least
  both end speeds and below the cap, and the distance it covers is the segment's.
\<close>

definition peakSq :: "real \<Rightarrow> real \<Rightarrow> real \<Rightarrow> real \<Rightarrow> real \<Rightarrow> real" where
  "peakSq e x d accel decel = (2 * accel * decel * d + decel * e * e + accel * x * x) / (accel + decel)"

lemma peakSq_ge:
  assumes "0 < accel" "0 < decel" "x * x \<le> e * e + 2 * accel * d" "e * e \<le> x * x + 2 * decel * d"
  shows "e * e \<le> peakSq e x d accel decel" and "x * x \<le> peakSq e x d accel decel"
proof -
  have "accel * (e * e) \<le> accel * (x * x + 2 * decel * d)"
    using assms by (intro mult_left_mono) auto
  then show "e * e \<le> peakSq e x d accel decel"
    using assms(1,2) by (simp add: peakSq_def pos_le_divide_eq algebra_simps)
  have "decel * (x * x) \<le> decel * (e * e + 2 * accel * d)"
    using assms by (intro mult_left_mono) auto
  then show "x * x \<le> peakSq e x d accel decel"
    using assms(1,2) by (simp add: peakSq_def pos_le_divide_eq algebra_simps)
qed

lemma peakSq_covers:
  assumes "0 < accel" "0 < decel"
  shows "(peakSq e x d accel decel - e * e) / (2 * accel) + (peakSq e x d accel decel - x * x) / (2 * decel) = d"
proof -
  have s: "(accel + decel) * peakSq e x d accel decel = 2 * accel * decel * d + decel * e * e + accel * x * x"
    using assms by (simp add: peakSq_def)
  have "(peakSq e x d accel decel - e * e) / (2 * accel) + (peakSq e x d accel decel - x * x) / (2 * decel) =
      ((accel + decel) * peakSq e x d accel decel - decel * e * e - accel * x * x) / (2 * accel * decel)"
    using assms by (simp add: field_simps)
  also have "\<dots> = d" using assms by (simp add: s)
  finally show ?thesis .
qed

lemma phase_le:
  fixes p e a :: real
  assumes "0 < a" "0 \<le> e" "e \<le> p"
  shows "(p * p - e * e) / (2 * a) \<le> p * ((p - e) / a)"
proof -
  have "(p - e) * (p + e) \<le> (p - e) * (2 * p)" using assms by (intro mult_left_mono) auto
  then have "((p - e) * (p + e)) / (2 * a) \<le> ((p - e) * (2 * p)) / (2 * a)"
    using assms(1) by (intro divide_right_mono) auto
  also have "((p - e) * (2 * p)) / (2 * a) = p * ((p - e) / a)" using assms(1) by simp
  finally show ?thesis by (simp add: algebra_simps)
qed

lemma segmentSeconds_triangle:
  assumes "0 < accel" "0 < decel" "0 < d" "0 \<le> e" "0 \<le> x"
    and "x * x \<le> e * e + 2 * accel * d" "e * e \<le> x * x + 2 * decel * d"
    and "\<not> (c * c - e * e) / (2 * accel) + (c * c - x * x) / (2 * decel) \<le> d"
  shows "segmentSeconds e x d c accel decel =
      (sqrt (peakSq e x d accel decel) - e) / accel + (sqrt (peakSq e x d accel decel) - x) / decel"
  using peakSq_ge [OF assms(1,2,6,7)] assms(3,8)
  by (simp add: segmentSeconds_def Let_def max.absorb1 flip: peakSq_def)

text \<open>No segment is run faster than its cap.\<close>

lemma segmentSeconds_ge:
  assumes "0 < accel" "0 < decel" "0 < c" "0 \<le> e" "e \<le> c" "0 \<le> x" "x \<le> c"
    and "x * x \<le> e * e + 2 * accel * d" "e * e \<le> x * x + 2 * decel * d"
  shows "d \<le> c * segmentSeconds e x d c accel decel"
proof (cases "0 < d")
  case False
  then show ?thesis by (simp add: segmentSeconds_def)
next
  case d: True
  let ?A = "(c * c - e * e) / (2 * accel)" and ?D = "(c * c - x * x) / (2 * decel)"
  show ?thesis
  proof (cases "?A + ?D \<le> d")
    case True
    then have "c * segmentSeconds e x d c accel decel =
        c * ((c - e) / accel) + c * ((c - x) / decel) + (d - ?A - ?D)"
      using d assms(3) by (simp add: segmentSeconds_def Let_def distrib_left)
    with phase_le [of accel e c] phase_le [of decel x c] assms show ?thesis by linarith
  next
    case False
    define P where "P = peakSq e x d accel decel"
    define p where "p = sqrt P"
    note ge = peakSq_ge [OF assms(1,2,8,9), folded P_def]
    have P0: "0 \<le> P" using ge(1) zero_le_square [of e] by linarith
    then have pp: "p * p = P" by (simp add: p_def)
    have ep: "e \<le> p" "x \<le> p" using ge P0 by (auto simp: p_def real_le_rsqrt power2_eq_square)
    have "(P - e * e) / (2 * accel) + (P - x * x) / (2 * decel) = d"
      using peakSq_covers [OF assms(1,2)] by (simp add: P_def)
    with phase_le [OF assms(1,4) ep(1)] phase_le [OF assms(2,6) ep(2)]
    have "d \<le> p * ((p - e) / accel + (p - x) / decel)" by (simp add: pp distrib_left)
    also have "P < c * c"
    proof (rule ccontr)
      assume "\<not> P < c * c"
      then have "?A \<le> (P - e * e) / (2 * accel)" "?D \<le> (P - x * x) / (2 * decel)"
        using assms(1,2) by (simp_all add: divide_right_mono)
      with False \<open>(P - e * e) / (2 * accel) + (P - x * x) / (2 * decel) = d\<close> show False by linarith
    qed
    then have "p \<le> c" using assms(3) real_sqrt_le_mono [of P "c * c"] by (simp add: p_def)
    then have "p * ((p - e) / accel + (p - x) / decel) \<le> c * ((p - e) / accel + (p - x) / decel)"
      using ep assms(1,2) by (intro mult_right_mono) auto
    finally show ?thesis
      using segmentSeconds_triangle [OF assms(1,2) d assms(4,6,8,9) False] by (simp add: P_def p_def)
  qed
qed

lemma segmentSeconds_nonneg:
  assumes "0 < accel" "0 < decel" "0 < c" "0 \<le> e" "e \<le> c" "0 \<le> x" "x \<le> c"
  shows "0 \<le> segmentSeconds e x d c accel decel"
proof -
  have "0 \<le> (sqrt (max P (max (e * e) (x * x))) - e) / accel + (sqrt (max P (max (e * e) (x * x))) - x) / decel" for P
    using assms real_sqrt_le_mono [of "e * e" "max P (max (e * e) (x * x))"]
      real_sqrt_le_mono [of "x * x" "max P (max (e * e) (x * x))"] by simp
  with assms show ?thesis by (auto simp: segmentSeconds_def Let_def)
qed

lemma sumSegments_ge:
  assumes "feasible accel decel vs ds cs" and "0 < accel" "0 < decel"
    and "\<forall>c \<in> set cs. 0 < c \<and> c \<le> M"
  shows "sum_list ds \<le> M * sumSegments accel decel vs ds cs"
  using assms
proof (induction accel decel vs ds cs rule: feasible.induct)
  case (1 accel decel v v' vs d ds c cs)
  have "d \<le> c * segmentSeconds v v' d c accel decel"
    using 1 by (intro segmentSeconds_ge) auto
  also have "\<dots> \<le> M * segmentSeconds v v' d c accel decel"
    using 1 segmentSeconds_nonneg [of accel decel c v v' d] by (intro mult_right_mono) auto
  finally show ?case using 1 by (simp add: distrib_left)
qed auto

subsection \<open>The span\<close>

definition good_vehicle :: "VehicleLimits \<Rightarrow> bool" where
  "good_vehicle v \<longleftrightarrow> 0 < vl_MaxSpeedKMH v \<and> 0 < vl_AccelerationMS2 v \<and> 0 < vl_DecelerationMS2 v"

lemma SpanRunSeconds_bad_vehicle:
  "\<not> good_vehicle v \<Longrightarrow>
     SpanRunSeconds sp v = Inl (BadMaxSpeed (vl_MaxSpeedKMH v)) \<or>
     SpanRunSeconds sp v = Inl (BadAcceleration (vl_AccelerationMS2 v)) \<or>
     SpanRunSeconds sp v = Inl (BadDeceleration (vl_DecelerationMS2 v))"
  by (auto simp: SpanRunSeconds_def good_vehicle_def)

lemma SpanRunSeconds_run:
  assumes "good_vehicle v" "0 < sn_DistanceM sp" "sn_Segments sp \<noteq> []"
  obtains cs where "capsMS v 0 (sn_Segments sp) = Inr cs" "length cs = length (sn_Segments sp)"
    "\<forall>c \<in> set cs. 0 < c \<and> c \<le> vl_MaxSpeedKMH v / msToKMH"
    "SpanRunSeconds sp v =
       Inr (sumSegments (vl_AccelerationMS2 v) (vl_DecelerationMS2 v)
         (boundedNodeSpeeds (map sps_DistanceM (sn_Segments sp)) cs (vl_AccelerationMS2 v) (vl_DecelerationMS2 v))
         (map sps_DistanceM (sn_Segments sp)) cs)"
proof -
  have "0 < vl_MaxSpeedKMH v" using assms by (simp add: good_vehicle_def)
  then obtain cs where "capsMS v 0 (sn_Segments sp) = Inr cs" "length cs = length (sn_Segments sp)"
    "\<forall>c \<in> set cs. 0 < c \<and> c \<le> vl_MaxSpeedKMH v / msToKMH"
    using capsMS_total [of v 0 "sn_Segments sp"] by blast
  with assms that show thesis by (simp add: SpanRunSeconds_def good_vehicle_def Let_def)
qed

lemma boundedNodeSpeeds_feasible:
  assumes "length ds = length cs" "\<forall>d \<in> set ds. 0 \<le> d" "\<forall>c \<in> set cs. 0 \<le> c" "0 \<le> accel" "0 \<le> decel"
  shows "feasible accel decel (boundedNodeSpeeds ds cs accel decel) ds cs"
  using feasible_speeds [of ds cs 0 accel decel] assms by (simp add: boundedNodeSpeeds_def)

lemma SpanRunSeconds_bound:
  assumes "good_vehicle v" "0 < sn_DistanceM sp" "sn_Segments sp \<noteq> []"
    and "\<forall>s \<in> set (sn_Segments sp). 0 \<le> sps_DistanceM s"
    and "sum_list (map sps_DistanceM (sn_Segments sp)) = sn_DistanceM sp"
  shows "\<exists>secs. SpanRunSeconds sp v = Inr secs \<and> 0 < secs \<and>
    sn_DistanceM sp \<le> vl_MaxSpeedKMH v / msToKMH * secs"
proof -
  let ?a = "vl_AccelerationMS2 v" and ?b = "vl_DecelerationMS2 v" and ?M = "vl_MaxSpeedKMH v / msToKMH"
  let ?ds = "map sps_DistanceM (sn_Segments sp)"
  obtain cs where cs: "length cs = length (sn_Segments sp)" "\<forall>c \<in> set cs. 0 < c \<and> c \<le> ?M"
    and run: "SpanRunSeconds sp v = Inr (sumSegments ?a ?b (boundedNodeSpeeds ?ds cs ?a ?b) ?ds cs)"
    using SpanRunSeconds_run [OF assms(1-3)] by metis
  have v: "0 < ?a" "0 < ?b" "0 < ?M" using assms(1) by (auto simp: good_vehicle_def)
  have "feasible ?a ?b (boundedNodeSpeeds ?ds cs ?a ?b) ?ds cs"
    using cs v assms(4) by (intro boundedNodeSpeeds_feasible) (auto simp: less_imp_le)
  from sumSegments_ge [OF this v(1,2) cs(2)] assms(5)
  have le: "sn_DistanceM sp \<le> ?M * sumSegments ?a ?b (boundedNodeSpeeds ?ds cs ?a ?b) ?ds cs" by simp
  with assms(2) have "0 < ?M * sumSegments ?a ?b (boundedNodeSpeeds ?ds cs ?a ?b) ?ds cs" by linarith
  with v(3) have "0 < sumSegments ?a ?b (boundedNodeSpeeds ?ds cs ?a ?b) ?ds cs" by (simp only: zero_less_mult_pos)
  with run le show ?thesis by blast
qed

subsection \<open>Properties\<close>

text \<open>
  C6: For a vehicle with positive limits, the run time of a span of positive length whose track
  segments add up to it is defined, positive, and never implies an average speed above the
  vehicle's maximum. The node speeds it is computed from obey the segment caps and the
  acceleration and braking limits on every segment.
\<close>

theorem SpanRunSeconds_kinematics:
  assumes "good_vehicle v" "0 < sn_DistanceM sp" "\<forall>s \<in> set (sn_Segments sp). 0 \<le> sps_DistanceM s"
    and "sum_list (map sps_DistanceM (sn_Segments sp)) = sn_DistanceM sp"
  shows "\<exists>cs secs. capsMS v 0 (sn_Segments sp) = Inr cs \<and>
    feasible (vl_AccelerationMS2 v) (vl_DecelerationMS2 v)
      (boundedNodeSpeeds (map sps_DistanceM (sn_Segments sp)) cs (vl_AccelerationMS2 v) (vl_DecelerationMS2 v))
      (map sps_DistanceM (sn_Segments sp)) cs \<and>
    SpanRunSeconds sp v = Inr secs \<and> 0 < secs \<and> sn_DistanceM sp \<le> vl_MaxSpeedKMH v / msToKMH * secs"
proof -
  have ne: "sn_Segments sp \<noteq> []" using assms(2,4) by auto
  obtain cs where cs: "capsMS v 0 (sn_Segments sp) = Inr cs" "length cs = length (sn_Segments sp)"
    "\<forall>c \<in> set cs. 0 < c \<and> c \<le> vl_MaxSpeedKMH v / msToKMH"
    using SpanRunSeconds_run [OF assms(1,2) ne] by metis
  have "0 \<le> vl_AccelerationMS2 v" "0 \<le> vl_DecelerationMS2 v" using assms(1) by (auto simp: good_vehicle_def)
  with cs assms(3) have "feasible (vl_AccelerationMS2 v) (vl_DecelerationMS2 v)
      (boundedNodeSpeeds (map sps_DistanceM (sn_Segments sp)) cs (vl_AccelerationMS2 v) (vl_DecelerationMS2 v))
      (map sps_DistanceM (sn_Segments sp)) cs"
    by (intro boundedNodeSpeeds_feasible) (auto simp: less_imp_le)
  with cs(1) SpanRunSeconds_bound [OF assms(1,2) ne assms(3,4)] show ?thesis by blast
qed

lemma SpanRunSeconds_kinematics_witness:
  "\<exists>secs. SpanRunSeconds \<lparr>sn_FromStopID = ''a'', sn_ToStopID = ''b'', sn_DistanceM = 1000,
        sn_FromChainageM = 0, sn_ToChainageM = 1000,
        sn_Segments = [\<lparr>sps_DistanceM = 400, sps_Physics = zeroSegment\<rparr>, \<lparr>sps_DistanceM = 600, sps_Physics = zeroSegment\<rparr>]\<rparr>
      \<lparr>vl_MaxSpeedKMH = 72, vl_AccelerationMS2 = 1, vl_DecelerationMS2 = 1\<rparr> = Inr secs \<and> 1000 \<le> 72 / msToKMH * secs"
  using SpanRunSeconds_kinematics [of "\<lparr>vl_MaxSpeedKMH = 72, vl_AccelerationMS2 = 1, vl_DecelerationMS2 = 1\<rparr>"
    "\<lparr>sn_FromStopID = ''a'', sn_ToStopID = ''b'', sn_DistanceM = 1000, sn_FromChainageM = 0, sn_ToChainageM = 1000,
      sn_Segments = [\<lparr>sps_DistanceM = 400, sps_Physics = zeroSegment\<rparr>, \<lparr>sps_DistanceM = 600, sps_Physics = zeroSegment\<rparr>]\<rparr>"]
  by (simp add: good_vehicle_def, blast)

end
