(* ===== verification/Physics_Compile.thy ===== *)
theory Physics_Compile
  imports Cluster Run_Time
begin

text \<open>
  The physics compiler: \<open>internal/transit/compile_physics.go\<close> (one service),
  \<open>internal/transit/compile_scenario.go\<close> (a set of services over merged stops, and the seeded
  adapter) and \<open>internal/transit/compile_userscenario.go\<close> (authored scenarios).
\<close>

datatype physics_error =
    BadLine string line_error
  | DuplicateStopSlug string string
  | BadProjection string project_error
  | BadBoardingWait string wait_error
  | BadSpan string string string run_error

text \<open>\<open>math.Round\<close>: half away from zero; the result is then truncated to an \<open>int\<close>.\<close>

definition go_round :: "float64 \<Rightarrow> int" where
  "go_round x = (if 0 \<le> x then \<lfloor>x + 1 / 2\<rfloor> else - \<lfloor>- x + 1 / 2\<rfloor>)"

fun indexStops ::
  "string \<Rightarrow> CompilableStop list \<Rightarrow> (string \<rightharpoonup> CompilableStop) \<Rightarrow> physics_error + (string \<rightharpoonup> CompilableStop)" where
  "indexStops svcID [] stopBySlug = Inr stopBySlug"
| "indexStops svcID (stop # stops) stopBySlug =
     (if stopBySlug (cs_Slug stop) \<noteq> None then Inl (DuplicateStopSlug svcID (cs_Slug stop))
      else indexStops svcID stops (stopBySlug(cs_Slug stop \<mapsto> stop)))"

definition physicsStop :: "CompilableStop \<Rightarrow> Stop" where
  "physicsStop stop =
     \<lparr>stop_ID = cs_Slug stop, stop_Location = \<lparr>pt_Lng = cs_Lng stop, pt_Lat = cs_Lat stop\<rparr>\<rparr>"

definition zeroCompilableStop :: CompilableStop where
  "zeroCompilableStop =
     \<lparr>cs_Slug = [], cs_Name = [], cs_Lat = 0, cs_Lng = 0, cs_DwellS = 0, cs_OffsetM = 0\<rparr>"

definition stopFor :: "(string \<rightharpoonup> CompilableStop) \<Rightarrow> string \<Rightarrow> CompilableStop" where
  "stopFor m slug = (case m slug of None \<Rightarrow> zeroCompilableStop | Some s \<Rightarrow> s)"

definition vehicleLimits :: "Kinematics \<Rightarrow> VehicleLimits" where
  "vehicleLimits k =
     \<lparr>vl_MaxSpeedKMH = kn_MaxSpeedKMH k, vl_AccelerationMS2 = kn_AccelerationMS2 k,
      vl_DecelerationMS2 = kn_DecelerationMS2 k\<rparr>"

definition spanPair ::
  "CompilableService \<Rightarrow> (string \<rightharpoonup> CompilableStop) \<Rightarrow> InterStopSpan \<Rightarrow> physics_error + Edge \<times> Edge" where
  "spanPair svc stopBySlug sp =
     bind_res (wrap_err (BadSpan (cp_ID svc) (sn_FromStopID sp) (sn_ToStopID sp))
         (SpanRunSeconds sp (vehicleLimits (cp_Vehicle svc)))) (\<lambda>runSecsF.
       let runSecs = go_round runSecsF;
           from = stopFor stopBySlug (sn_FromStopID sp);
           to = stopFor stopBySlug (sn_ToStopID sp)
       in Inr (placeEdge (newEdge (cs_Slug from) (cs_Slug to) (runSecs + cs_DwellS to) (cs_DwellS to))
                 (rt_ID (cp_Route svc)) (sn_FromChainageM sp) (sn_ToChainageM sp),
               placeEdge (newEdge (cs_Slug to) (cs_Slug from) (runSecs + cs_DwellS from) (cs_DwellS from))
                 (rt_ID (cp_Route svc)) (sn_ToChainageM sp) (sn_FromChainageM sp)))"

definition CompileServicePhysics ::
  "CompilableService \<Rightarrow> BoardingWaitPolicy \<Rightarrow> physics_error + ServiceGraph" where
  "CompileServicePhysics svc boardingWait =
     bind_res (wrap_err (BadLine (cp_ID svc)) (ToPhysicsLine (rt_Geometry (cp_Route svc)))) (\<lambda>line.
     bind_res (wrap_err (BadLine (cp_ID svc)) (toPhysicsSegments (rt_Segments (cp_Route svc)) (length line))) (\<lambda>physicsSegs.
     bind_res (indexStops (cp_ID svc) (cp_Stops svc) Map.empty) (\<lambda>stopBySlug.
     bind_res (wrap_err (BadProjection (cp_ID svc))
         (ProjectStops line physicsSegs (map physicsStop (cp_Stops svc)))) (\<lambda>spans.
     bind_res (wrap_err (BadBoardingWait (cp_ID svc))
         (ResolveBoardingWait (cp_BoardingWait svc) (cp_ScenarioBoardingWait svc) boardingWait)) (\<lambda>(policy, _).
     bind_res (wrap_err (BadBoardingWait (cp_ID svc))
         (applyBoardingWait \<lparr>sg_ServiceID = cp_ID svc, sg_Edges = [], sg_WaitSecs = 0, sg_WaitPolicy = []\<rparr>
            policy (cp_Windows svc))) (\<lambda>sg.
     bind_res (map_res (spanPair svc stopBySlug) spans) (\<lambda>prs.
       Inr (sg\<lparr>sg_Edges := flatPairs prs\<rparr>))))))))"

subsection \<open>Sets of services\<close>

datatype services_error =
    BadPairs pair_error
  | BadService physics_error
  | BadCompilable compilable_error
  | UnknownRoute string string
  | UnknownVehicleType string string
  | FoldDiverges

definition CompileServices ::
  "CompilableService list \<Rightarrow> InterchangePair list \<Rightarrow> BoardingWaitPolicy \<Rightarrow> services_error + TransitGraph" where
  "CompileServices svcs prs boardingWait =
     (case validateInterchangePairs svcs prs of
        Some e \<Rightarrow> Inl (BadPairs e)
      | None \<Rightarrow>
          (case MergeColocatedStops svcs prs of
             None \<Rightarrow> Inl FoldDiverges
           | Some (merged, report, nodes) \<Rightarrow>
               bind_res (map_res (\<lambda>cs. wrap_err BadService (CompileServicePhysics cs boardingWait)) merged) (\<lambda>sgs.
                 Inr \<lparr>tg_Services = sgs, tg_Merge = report, tg_Nodes = nodes\<rparr>)))"

definition seededCompilable ::
  "Route list \<Rightarrow> Station list \<Rightarrow> VehicleType list \<Rightarrow> Service \<Rightarrow> services_error + CompilableService" where
  "seededCompilable routes stations vehicleTypes svc =
     (case index_by rt_ID routes (svc_RouteID svc) of
        None \<Rightarrow> Inl (UnknownRoute (svc_ID svc) (svc_RouteID svc))
      | Some rt \<Rightarrow>
          (case index_by vt_ID vehicleTypes (svc_VehicleTypeID svc) of
             None \<Rightarrow> Inl (UnknownVehicleType (svc_ID svc) (svc_VehicleTypeID svc))
           | Some vt \<Rightarrow> wrap_err BadCompilable (compilableFromService rt stations svc vt)))"

definition compileSeededPhysics ::
  "Route list \<Rightarrow> Station list \<Rightarrow> Service list \<Rightarrow> VehicleType list \<Rightarrow> BoardingWaitPolicy
    \<Rightarrow> services_error + TransitGraph" where
  "compileSeededPhysics routes stations services vehicleTypes boardingWait =
     bind_res (map_res (seededCompilable routes stations vehicleTypes) (filter svc_Active services)) (\<lambda>compilables.
       CompileServices compilables [] boardingWait)"

definition userCompilable ::
  "unicode_tables \<Rightarrow> Route list \<Rightarrow> BoardingWaitOverride option \<Rightarrow> UserService
    \<Rightarrow> services_error + CompilableService" where
  "userCompilable u routes scenarioWait svc =
     (case index_by rt_ID routes (us_RouteID svc) of
        None \<Rightarrow> Inl (UnknownRoute (us_ID svc) (us_RouteID svc))
      | Some rt \<Rightarrow>
          bind_res (wrap_err BadCompilable (CompilableFromUserService u rt svc)) (\<lambda>cs.
            Inr (cs\<lparr>cp_ScenarioBoardingWait := scenarioWait\<rparr>)))"

definition CompileUserScenario ::
  "unicode_tables \<Rightarrow> Route list \<Rightarrow> UserService list \<Rightarrow> InterchangePair list
    \<Rightarrow> BoardingWaitOverride option \<Rightarrow> BoardingWaitPolicy \<Rightarrow> services_error + TransitGraph" where
  "CompileUserScenario u routes services prs scenarioWait boardingWait =
     bind_res (map_res (userCompilable u routes scenarioWait) services) (\<lambda>compilables.
       CompileServices compilables prs boardingWait)"

subsection \<open>One service\<close>

lemma go_round_bounds: "x - 1 / 2 \<le> real_of_int (go_round x)" "real_of_int (go_round x) \<le> x + 1 / 2"
  unfolding go_round_def by (auto, linarith+)

lemma go_round_nonneg: "0 \<le> x \<Longrightarrow> 0 \<le> go_round x"
  by (simp add: go_round_def)

lemma indexStops_Inr:
  assumes "indexStops svcID stops m = Inr m'"
  shows "distinct (map cs_Slug stops) \<and> (\<forall>s \<in> set stops. m (cs_Slug s) = None \<and> m' (cs_Slug s) = Some s) \<and>
    (\<forall>k. k \<notin> cs_Slug ` set stops \<longrightarrow> m' k = m k)"
  using assms
proof (induction stops arbitrary: m)
  case (Cons s stops)
  then have new: "m (cs_Slug s) = None" and rest: "indexStops svcID stops (m(cs_Slug s \<mapsto> s)) = Inr m'"
    by (auto split: if_splits)
  from Cons.IH [OF rest] have IH: "distinct (map cs_Slug stops)"
    "\<forall>t \<in> set stops. (m(cs_Slug s \<mapsto> s)) (cs_Slug t) = None \<and> m' (cs_Slug t) = Some t"
    "\<forall>k. k \<notin> cs_Slug ` set stops \<longrightarrow> m' k = (m(cs_Slug s \<mapsto> s)) k" by blast+
  have "cs_Slug s \<notin> cs_Slug ` set stops" using IH(2) by (auto split: if_splits)
  with IH new show ?case by (auto split: if_splits)
qed simp

lemma indexStops_total:
  assumes "distinct (map cs_Slug stops)" "\<forall>s \<in> set stops. m (cs_Slug s) = None"
  shows "\<exists>m'. indexStops svcID stops m = Inr m'"
  using assms
proof (induction stops arbitrary: m)
  case (Cons s stops)
  then have "\<forall>t \<in> set stops. (m(cs_Slug s \<mapsto> s)) (cs_Slug t) = None" by (auto simp: image_iff)
  with Cons.IH [of "m(cs_Slug s \<mapsto> s)"] Cons.prems show ?case by (simp del: fun_upd_apply)
qed simp

text \<open>The specification of the edge pair of one hop.\<close>

definition physics_hop :: "CompilableService \<Rightarrow> CompilableStop \<times> CompilableStop \<Rightarrow> Edge \<times> Edge \<Rightarrow> bool" where
  "physics_hop svc ab fr \<longleftrightarrow>
     mirrored (fst fr) (snd fr) \<and>
     e_FromSlug (fst fr) = cs_Slug (fst ab) \<and> e_ToSlug (fst fr) = cs_Slug (snd ab) \<and>
     e_RouteID (fst fr) = rt_ID (cp_Route svc) \<and>
     0 \<le> e_FromChainageM (fst fr) \<and> e_FromChainageM (fst fr) \<le> e_ToChainageM (fst fr) \<and>
     e_DwellS (fst fr) = cs_DwellS (snd ab) \<and> e_DwellS (snd fr) = cs_DwellS (fst ab) \<and>
     (let run = e_Seconds (fst fr) - e_DwellS (fst fr)
      in e_Seconds (snd fr) - e_DwellS (snd fr) = run \<and> 0 \<le> run \<and>
         e_ToChainageM (fst fr) - e_FromChainageM (fst fr) \<le>
           kn_MaxSpeedKMH (cp_Vehicle svc) / msToKMH * (real_of_int run + 1 / 2))"

lemma SpanRunSeconds_projected:
  assumes "ProjectStops line psegs stops = Inr spans" and "sp \<in> set spans" and "good_vehicle v"
  shows "\<exists>secs. SpanRunSeconds sp v = Inr secs \<and> 0 \<le> secs \<and>
    sn_DistanceM sp \<le> vl_MaxSpeedKMH v / msToKMH * secs"
proof (cases "0 < sn_DistanceM sp")
  case True
  with SpanRunSeconds_bound [OF assms(3) True ProjectStops_span_segments [OF assms(1,2) True]]
    ProjectStops_span(5,6) [OF assms(1,2)] show ?thesis by (force simp: less_imp_le)
next
  case False
  with assms(3) show ?thesis by (simp add: SpanRunSeconds_def good_vehicle_def)
qed

lemma SpanRunSeconds_good: "SpanRunSeconds sp v = Inr secs \<Longrightarrow> good_vehicle v"
  by (auto simp: SpanRunSeconds_def good_vehicle_def split: if_splits)

lemma spanPair_hop:
  assumes proj: "ProjectStops line psegs stops = Inr spans" and sp: "sp \<in> set spans"
    and pair: "spanPair svc m sp = Inr fr"
  shows "physics_hop svc (stopFor m (sn_FromStopID sp), stopFor m (sn_ToStopID sp)) fr"
proof -
  let ?v = "vehicleLimits (cp_Vehicle svc)"
  obtain secs where run: "SpanRunSeconds sp ?v = Inr secs" using pair by (auto simp: spanPair_def)
  note span = ProjectStops_span [OF proj sp]
  have secs: "0 \<le> secs" "sn_DistanceM sp \<le> vl_MaxSpeedKMH ?v / msToKMH * secs"
    using SpanRunSeconds_projected [OF proj sp SpanRunSeconds_good [OF run]] run by auto
  have "0 < vl_MaxSpeedKMH ?v" using SpanRunSeconds_good [OF run] by (simp add: good_vehicle_def)
  moreover have "secs \<le> real_of_int (go_round secs) + 1 / 2" using go_round_bounds(1) [of secs] by simp
  ultimately have "vl_MaxSpeedKMH ?v / msToKMH * secs \<le> vl_MaxSpeedKMH ?v / msToKMH * (real_of_int (go_round secs) + 1 / 2)"
    by (intro mult_left_mono) auto
  with secs(2) span(4) have "sn_ToChainageM sp - sn_FromChainageM sp \<le>
      vl_MaxSpeedKMH ?v / msToKMH * (real_of_int (go_round secs) + 1 / 2)" by linarith
  then have "sn_ToChainageM sp - sn_FromChainageM sp \<le>
      kn_MaxSpeedKMH (cp_Vehicle svc) / msToKMH * (real_of_int (go_round secs) + 1 / 2)"
    by (simp only: vehicleLimits_def VehicleLimits.select_convs)
  with pair run span(1,2) go_round_nonneg [OF secs(1)] show ?thesis
    by (auto simp: spanPair_def Let_def physics_hop_def mirrored_def placeEdge_def newEdge_def)
qed

lemma CompileServicePhysics_InrE:
  assumes "CompileServicePhysics svc w = Inr sg"
  obtains line psegs m spans prs policy src sg0 where
    "ToPhysicsLine (rt_Geometry (cp_Route svc)) = Inr line"
    "indexStops (cp_ID svc) (cp_Stops svc) Map.empty = Inr m"
    "ProjectStops line psegs (map physicsStop (cp_Stops svc)) = Inr spans"
    "ResolveBoardingWait (cp_BoardingWait svc) (cp_ScenarioBoardingWait svc) w = Inr (policy, src)"
    "WaitSecs policy (cp_Windows svc) = Inr (sg_WaitSecs sg)"
    "map_res (spanPair svc m) spans = Inr prs"
    "sg_Edges sg = flatPairs prs" "sg_ServiceID sg = cp_ID svc"
  using assms that
  by (auto simp: CompileServicePhysics_def applyBoardingWait_def resolveInto_def)

lemma adjacent_nth: "Suc i < length xs \<Longrightarrow> adjacent xs ! i = (xs ! i, xs ! Suc i)"
  by (simp add: adjacent_def nth_tl)

lemma length_adjacent: "length (adjacent xs) = length xs - 1"
  by (simp add: adjacent_def)

text \<open>The projected stops, in chainage order, read back as the service's own stops.\<close>

lemma projected_order:
  assumes "indexStops svcID stops Map.empty = Inr m"
    and "mset ss = mset (snap pl (map physicsStop stops))"
  shows "mset (map (\<lambda>s. stopFor m (sd_ID s)) ss) = mset stops"
proof -
  have m: "\<forall>s \<in> set stops. m (cs_Slug s) = Some s" using indexStops_Inr [OF assms(1)] by blast
  have "mset (map (\<lambda>s. stopFor m (sd_ID s)) ss) = image_mset (\<lambda>s. stopFor m (sd_ID s)) (mset (snap pl (map physicsStop stops)))"
    using assms(2) by simp
  also have "\<dots> = mset (map (\<lambda>s. stopFor m (cs_Slug s)) stops)"
    by (simp add: snap_def snap1_def physicsStop_def Let_def case_prod_beta multiset.map_comp o_def)
  also have "map (\<lambda>s. stopFor m (cs_Slug s)) stops = stops"
    using m by (intro map_idI) (simp add: stopFor_def)
  finally show ?thesis .
qed

lemma CompileServicePhysics_hops:
  assumes "CompileServicePhysics svc w = Inr sg"
  shows "distinct (map cs_Slug (cp_Stops svc))" and "sg_ServiceID sg = cp_ID svc"
    and "\<exists>order prs. mset order = mset (cp_Stops svc) \<and> sg_Edges sg = flatPairs prs \<and>
      list_all2 (physics_hop svc) (adjacent order) prs"
proof -
  obtain line psegs m spans prs where R:
    "ToPhysicsLine (rt_Geometry (cp_Route svc)) = Inr line"
    "indexStops (cp_ID svc) (cp_Stops svc) Map.empty = Inr m"
    "ProjectStops line psegs (map physicsStop (cp_Stops svc)) = Inr spans"
    "map_res (spanPair svc m) spans = Inr prs"
    "sg_Edges sg = flatPairs prs" "sg_ServiceID sg = cp_ID svc"
    using CompileServicePhysics_InrE [OF assms] by metis
  then show "sg_ServiceID sg = cp_ID svc" by simp
  show "distinct (map cs_Slug (cp_Stops svc))" using indexStops_Inr [OF R(2)] by blast
  obtain ss ls where ss: "spans = spansOf ls ss" "mset ss = mset (snap (projectLinePlanar line) (map physicsStop (cp_Stops svc)))"
    by (rule ProjectStops_Inr [OF R(3)]) blast
  let ?order = "map (\<lambda>s. stopFor m (sd_ID s)) ss"
  have "list_all2 (physics_hop svc) (adjacent ?order) prs"
  proof (rule list_all2_all_nthI)
    show "length (adjacent ?order) = length prs"
      using map_res_length [OF R(4)] ss(1) by (simp add: length_adjacent spansOf_nth(1))
    fix i assume "i < length (adjacent ?order)"
    then have i: "Suc i < length ss" by (simp add: length_adjacent)
    then have len: "i < length spans" using ss(1) by (simp add: spansOf_nth(1))
    from spanPair_hop [OF R(3) nth_mem [OF len] map_res_nth [OF R(4) len]] i
    show "physics_hop svc (adjacent ?order ! i) (prs ! i)"
      by (simp add: adjacent_nth ss(1) spansOf_nth(2))
  qed
  with projected_order [OF R(2) ss(2)] R(5)
  show "\<exists>order prs. mset order = mset (cp_Stops svc) \<and> sg_Edges sg = flatPairs prs \<and>
      list_all2 (physics_hop svc) (adjacent order) prs" by blast
qed

definition good_compilable :: "CompilableService \<Rightarrow> bool" where
  "good_compilable svc \<longleftrightarrow>
     2 \<le> length (gl_Coordinates (rt_Geometry (cp_Route svc))) \<and> good_route (cp_Route svc) \<and>
     (rt_Segments (cp_Route svc) = [] \<or>
        length (rt_Segments (cp_Route svc)) = length (gl_Coordinates (rt_Geometry (cp_Route svc))) - 1) \<and>
     2 \<le> length (cp_Stops svc) \<and> good_vehicle (vehicleLimits (cp_Vehicle svc)) \<and>
     good_override (cp_BoardingWait svc) \<and> good_override (cp_ScenarioBoardingWait svc)"

lemma CompileServicePhysics_total:
  assumes good: "good_compilable svc" and slugs: "distinct (map cs_Slug (cp_Stops svc))" and "wf_policy w"
  shows "\<exists>sg. CompileServicePhysics svc w = Inr sg"
proof -
  let ?rt = "cp_Route svc"
  obtain line where line: "ToPhysicsLine (rt_Geometry ?rt) = Inr line"
    using ToPhysicsLine_total [of "rt_Geometry ?rt"] good by (auto simp: good_compilable_def good_route_def)
  have len: "length line = length (gl_Coordinates (rt_Geometry ?rt))" "2 \<le> length line"
    using ToPhysicsLine_length [OF line] by auto
  obtain psegs where psegs: "toPhysicsSegments (rt_Segments ?rt) (length line) = Inr psegs"
    "psegs = [] \<or> length psegs = length line - 1"
    using good len by (cases "rt_Segments ?rt = []") (auto simp: good_compilable_def toPhysicsSegments_def)
  obtain m where m: "indexStops (cp_ID svc) (cp_Stops svc) Map.empty = Inr m"
    using indexStops_total [OF slugs, of Map.empty "cp_ID svc"] by auto
  obtain spans where spans: "ProjectStops line psegs (map physicsStop (cp_Stops svc)) = Inr spans"
    using len(2) psegs(2) good by (auto simp: ProjectStops_def good_compilable_def Let_def)
  obtain policy src where policy: "ResolveBoardingWait (cp_BoardingWait svc) (cp_ScenarioBoardingWait svc) w = Inr (policy, src)"
    using good by (auto simp: ResolveBoardingWait_def good_compilable_def good_override_def split: option.splits)
  obtain secs where wait: "WaitSecs policy (cp_Windows svc) = Inr secs"
    using WaitSecs_total [OF Resolve_wf [OF policy assms(3)]] by blast
  have "\<exists>prs. map_res (spanPair svc m) spans = Inr prs"
  proof (rule map_res_total)
    fix sp assume "sp \<in> set spans"
    from SpanRunSeconds_projected [OF spans this] good show "\<exists>fr. spanPair svc m sp = Inr fr"
      by (auto simp: good_compilable_def spanPair_def Let_def)
  qed
  with line psegs(1) m spans policy wait show ?thesis
    by (auto simp: CompileServicePhysics_def applyBoardingWait_def resolveInto_def)
qed

subsection \<open>Merged services\<close>

lemma merge_closed:
  assumes "MergeColocatedStops svcs prs = Some (merged, report, nodes)"
  shows "map cp_ID merged = map cp_ID svcs"
    and "\<forall>cs \<in> set merged. \<forall>s \<in> set (cp_Stops cs). cs_Slug s \<in> gn_Slug ` set nodes"
proof -
  have "map cp_ID merged = map cp_ID svcs \<and>
      (\<forall>cs \<in> set merged. \<forall>s \<in> set (cp_Stops cs). cs_Slug s \<in> gn_Slug ` set nodes)"
  proof (rule MergeColocatedStops_spec [of svcs prs])
    fix clusters cof merged'
    assume spec: "merge_spec svcs clusters cof merged'"
      and run: "MergeColocatedStops svcs prs = Some (merged',
         \<lparr>mr_Clusters = realisedClusters clusters, mr_NearMisses = nearMisses (flattenStops svcs) cof\<rparr>,
         clusterNodes clusters)"
    have eqs: "merged = merged'" "nodes = clusterNodes clusters" using run assms by simp_all
    have part: "partitioned (flattenStops svcs) clusters cof" using spec by (simp add: merge_spec_def)
    obtain g where g: "merged' = relabel g svcs" using spec by (auto simp: merge_spec_def)
    have ids: "map cp_ID merged' = map cp_ID svcs" unfolding g by (rule nth_equalityI) (simp_all add: relabel_nth)
    have "cs_Slug s \<in> gn_Slug ` set nodes" if cs: "cs \<in> set merged'" and s: "s \<in> set (cp_Stops cs)" for cs s
    proof -
      obtain i where i: "i < length svcs" "cs = merged' ! i" using cs g by (auto simp: in_set_conv_nth)
      obtain j where j: "j < length (cp_Stops (svcs ! i))" "s = cp_Stops (merged' ! i) ! j"
        using s i g by (auto simp: in_set_conv_nth relabel_nth)
      obtain k where "k < length (flattenStops svcs)" "cs_Slug s = pc_key (clusters ! (cof ! k))"
        by (rule merge_spec_slug [OF spec i(1) j(1)]) (use j(2) in simp)
      moreover have "cof ! k < length clusters" by (rule partitioned_member [OF part \<open>k < _\<close>])
      ultimately have "cs_Slug s = gn_Slug (pc_node (clusters ! (cof ! k)))" "pc_node (clusters ! (cof ! k)) \<in> set nodes"
        by (simp_all add: eqs(2) clusterNodes_def pc_node_def)
      then show ?thesis by blast
    qed
    with ids eqs(1) show ?thesis by blast
  qed
  then show "map cp_ID merged = map cp_ID svcs"
    and "\<forall>cs \<in> set merged. \<forall>s \<in> set (cp_Stops cs). cs_Slug s \<in> gn_Slug ` set nodes" by blast+
qed

lemma physics_endpoints:
  assumes "CompileServicePhysics svc w = Inr sg" and "e \<in> set (sg_Edges sg)"
  shows "e_FromSlug e \<in> cs_Slug ` set (cp_Stops svc) \<and> e_ToSlug e \<in> cs_Slug ` set (cp_Stops svc)"
proof -
  obtain order prs where o: "mset order = mset (cp_Stops svc)" "sg_Edges sg = flatPairs prs"
    "list_all2 (physics_hop svc) (adjacent order) prs"
    using CompileServicePhysics_hops(3) [OF assms(1)] by blast
  obtain fr where fr: "fr \<in> set prs" "e = fst fr \<or> e = snd fr" using assms(2) o(2) by (auto simp: flatPairs_def)
  obtain ab where ab: "ab \<in> set (adjacent order)" "physics_hop svc ab fr" using list_all2_setD2 [OF o(3) fr(1)] by blast
  have "fst ab \<in> set (cp_Stops svc)" "snd ab \<in> set (cp_Stops svc)"
    using set_adjacentD [of "fst ab" "snd ab" order] ab(1) mset_eq_setD [OF o(1)] by auto
  with ab(2) fr(2) show ?thesis by (auto simp: physics_hop_def mirrored_def)
qed

text \<open>With no declared interchange, merging keeps the stops of one service apart.\<close>

lemma first_fit_separates:
  assumes c: "clusterStops (flattenStops svcs) = (clusters, cof)"
    and kl: "k < length (flattenStops svcs)" "l < length (flattenStops svcs)" "k \<noteq> l"
    and svc: "ms_ServiceID (flattenStops svcs ! k) = ms_ServiceID (flattenStops svcs ! l)"
    and slug: "ms_Slug (flattenStops svcs ! k) \<noteq> ms_Slug (flattenStops svcs ! l)"
  shows "cof ! k \<noteq> cof ! l"
proof
  assume eq: "cof ! k = cof ! l"
  have part: "partitioned (flattenStops svcs) clusters cof"
    by (rule clusterStops_partitioned [OF c sorted_flattenStops])
  note mk = partitioned_member [OF part kl(1)] and ml = partitioned_member [OF part kl(2)]
  have "distinct (map ms_ServiceID (pc_members (clusters ! (cof ! k))))"
    using clusterStops_first_fit [OF c] mk(1) by (simp add: first_fit_def)
  then have "inj_on ms_ServiceID (set (pc_members (clusters ! (cof ! k))))" by (simp add: distinct_map)
  with mk(2) ml(2) eq svc have "flattenStops svcs ! k = flattenStops svcs ! l" by (metis inj_onD)
  with slug show False by simp
qed

lemma merged_slugs_distinct:
  assumes slugs: "distinct (map ms_Slug (flattenStops svcs))"
    and run: "MergeColocatedStops svcs [] = Some (merged, report, nodes)"
    and i: "i < length svcs"
  shows "distinct (map cs_Slug (cp_Stops (merged ! i)))"
proof (rule MergeColocatedStops_spec [of svcs "[]"])
  fix clusters0 cof0 clusters cof merged'
  assume c0: "clusterStops (flattenStops svcs) = (clusters0, cof0)"
    and f: "foldDeclaredPairs (flattenStops svcs) clusters0 cof0 [] = Some (clusters, cof)"
    and spec: "merge_spec svcs clusters cof merged'"
    and run': "MergeColocatedStops svcs [] = Some (merged',
         \<lparr>mr_Clusters = realisedClusters clusters, mr_NearMisses = nearMisses (flattenStops svcs) cof\<rparr>,
         clusterNodes clusters)"
  have eqs: "merged = merged'" "clusters = clusters0" "cof = cof0"
    using run run' f by (simp_all add: foldDeclaredPairs_def)
  have part: "partitioned (flattenStops svcs) clusters cof" using spec by (simp add: merge_spec_def)
  have len: "length (cp_Stops (merged' ! i)) = length (cp_Stops (svcs ! i))"
    using spec i by (auto simp: merge_spec_def relabel_nth)
  have "cs_Slug (cp_Stops (merged' ! i) ! a) \<noteq> cs_Slug (cp_Stops (merged' ! i) ! b)"
    if ab: "a < length (cp_Stops (svcs ! i))" "b < length (cp_Stops (svcs ! i))" "a \<noteq> b" for a b
  proof -
    obtain k where k: "k < length (flattenStops svcs)"
      "flattenStops svcs ! k = mergeStopOf i a (cp_ID (svcs ! i)) (cp_Stops (svcs ! i) ! a)"
      "cs_Slug (cp_Stops (merged' ! i) ! a) = pc_key (clusters ! (cof ! k))"
      by (rule merge_spec_slug [OF spec i ab(1)]) simp
    obtain l where l: "l < length (flattenStops svcs)"
      "flattenStops svcs ! l = mergeStopOf i b (cp_ID (svcs ! i)) (cp_Stops (svcs ! i) ! b)"
      "cs_Slug (cp_Stops (merged' ! i) ! b) = pc_key (clusters ! (cof ! l))"
      by (rule merge_spec_slug [OF spec i ab(2)]) simp
    have kl: "k \<noteq> l" using k(2) l(2) ab(3) by (auto simp: mergeStopOf_def)
    then have "map ms_Slug (flattenStops svcs) ! k \<noteq> map ms_Slug (flattenStops svcs) ! l"
      using slugs k(1) l(1) by (simp only: nth_eq_iff_index_eq length_map not_False_eq_True)
    then have "cof ! k \<noteq> cof ! l"
      using first_fit_separates [OF c0 k(1) l(1) kl] k l eqs(3) by (simp add: mergeStopOf_def)
    then show ?thesis
      using partitioned_keys_inj [OF part slugs] partitioned_member(1) [OF part] k l by simp
  qed
  then show ?thesis unfolding eqs(1) using len by (simp add: distinct_conv_nth)
qed

lemma map_slug_allStops: "map ms_Slug (allStops svcs) = concat (map (\<lambda>cs. map cs_Slug (cp_Stops cs)) svcs)"
proof -

  have inner: "map ms_Slug (map (\<lambda>(j, s). mergeStopOf i j c s) (enumerate 0 xs)) = map cs_Slug xs" for i c xs
    by (simp add: o_def case_prod_beta mergeStopOf_def map_enumerate_snd)
  have "map ms_Slug (allStops svcs) = concat (map (\<lambda>(i, svc). map cs_Slug (cp_Stops svc)) (enumerate 0 svcs))"
    unfolding allStops_def map_concat map_map
    by (intro arg_cong [of _ _ concat] map_cong refl) (auto simp: inner simp del: map_map)
  then show ?thesis
    using map_enumerate_snd [of "\<lambda>cs. map cs_Slug (cp_Stops cs)" 0 svcs] by (simp add: case_prod_unfold)
qed

lemma distinct_flatten_iff:
  "distinct (map ms_Slug (flattenStops svcs)) \<longleftrightarrow> distinct (concat (map (\<lambda>cs. map cs_Slug (cp_Stops cs)) svcs))"
proof -
  have "mset (map ms_Slug (flattenStops svcs)) = mset (map ms_Slug (allStops svcs))" by (simp add: flattenStops_def)
  then show ?thesis unfolding map_slug_allStops [symmetric] by (rule mset_eq_imp_distinct_iff)
qed

lemma CompileServices_succeeds:
  assumes "\<forall>cs \<in> set svcs. good_compilable cs"
    and "distinct (concat (map (\<lambda>cs. map cs_Slug (cp_Stops cs)) svcs))" and "wf_policy w"
  shows "\<exists>g. CompileServices svcs [] w = Inr g"
proof -
  obtain merged report nodes where run: "MergeColocatedStops svcs [] = Some (merged, report, nodes)"
    and spec: "\<exists>g. merged = relabel g svcs"
    by (rule MergeColocatedStops_spec [of svcs "[]"]) (auto simp: merge_spec_def)
  have "\<exists>sg. CompileServicePhysics cs w = Inr sg" if cs: "cs \<in> set merged" for cs
  proof -
    obtain i where i: "i < length svcs" "cs = merged ! i" using cs spec by (auto simp: in_set_conv_nth)
    have "good_compilable cs"
      using assms(1) i spec by (auto simp: relabel_nth good_compilable_def)
    moreover have "distinct (map cs_Slug (cp_Stops cs))"
      using merged_slugs_distinct [OF _ run i(1)] assms(2) i(2) by (simp add: distinct_flatten_iff)
    ultimately show ?thesis using CompileServicePhysics_total assms(3) by blast
  qed
  then have "\<exists>sgs. map_res (\<lambda>cs. wrap_err BadService (CompileServicePhysics cs w)) merged = Inr sgs"
    by (intro map_res_total) auto
  with run show ?thesis by (auto simp: CompileServices_def validateInterchangePairs_def)
qed

subsection \<open>Properties\<close>


lemma sample_good: "good_compilable (sampleCompilable ''A'' [sampleStop ''a1'' 0, sampleStop ''a2'' 1])"
  by (simp add: good_compilable_def sampleCompilable_def sampleRoute_def good_route_def good_vehicle_def
      vehicleLimits_def good_override_def)

lemma sample_policy: "wf_policy DefaultBoardingWaitPolicy"
  by (simp add: wf_policy_def DefaultBoardingWaitPolicy_def)


text \<open>
  C5: Every edge of a graph compiled from merged services starts and ends at a node of the graph,
  and the graph has one service per input, in order.
\<close>

theorem CompileServices_closed:
  assumes "CompileServices svcs prs w = Inr g"
  shows "map sg_ServiceID (tg_Services g) = map cp_ID svcs \<and>
    (\<forall>sg \<in> set (tg_Services g). \<forall>e \<in> set (sg_Edges sg).
       e_FromSlug e \<in> gn_Slug ` set (tg_Nodes g) \<and> e_ToSlug e \<in> gn_Slug ` set (tg_Nodes g))"
proof -
  obtain merged where merge: "MergeColocatedStops svcs prs = Some (merged, tg_Merge g, tg_Nodes g)"
    and sgs: "list_all2 (\<lambda>cs sg. CompileServicePhysics cs w = Inr sg) merged (tg_Services g)"
    using assms by (auto simp: CompileServices_def map_res_Inr_iff split: option.splits)
  have "map sg_ServiceID (tg_Services g) = map cp_ID merged"
    using sgs by (induction rule: list_all2_induct) (auto dest: CompileServicePhysics_hops(2))
  moreover have "e_FromSlug e \<in> gn_Slug ` set (tg_Nodes g) \<and> e_ToSlug e \<in> gn_Slug ` set (tg_Nodes g)"
    if "sg \<in> set (tg_Services g)" "e \<in> set (sg_Edges sg)" for sg e
  proof -
    obtain cs where cs: "cs \<in> set merged" "CompileServicePhysics cs w = Inr sg"
      using list_all2_setD2 [OF sgs \<open>sg \<in> _\<close>] by blast
    with physics_endpoints [OF cs(2) that(2)] merge_closed(2) [OF merge] show ?thesis by fastforce
  qed
  ultimately show ?thesis using merge_closed(1) [OF merge] by simp
qed

text \<open>
  C12: Services on usable routes, with positive vehicle limits, valid waits and stop slugs that
  are distinct across all of them always compile together when no interchange is declared:
  proximity merging alone never gives two stops of one service the same slug.
\<close>

theorem CompileServices_total:
  assumes "\<forall>cs \<in> set svcs. good_compilable cs"
    and "distinct (concat (map (\<lambda>cs. map cs_Slug (cp_Stops cs)) svcs))" and "wf_policy w"
  shows "\<exists>g. CompileServices svcs [] w = Inr g"
  by (rule CompileServices_succeeds [OF assms])

lemma CompileServices_total_witness:
  "\<exists>g. CompileServices [sampleCompilable ''A'' [sampleStop ''a1'' 0, sampleStop ''a2'' 1]] []
     DefaultBoardingWaitPolicy = Inr g"
  by (rule CompileServices_total)
    (use sample_good sample_policy in \<open>simp_all add: sampleCompilable_def sampleStop_def\<close>)

lemma CompileServices_closed_witness:
  "\<exists>g. CompileServices [sampleCompilable ''A'' [sampleStop ''a1'' 0, sampleStop ''a2'' 1]] []
     DefaultBoardingWaitPolicy = Inr g \<and> map sg_ServiceID (tg_Services g) = [''A'']"
proof -
  let ?svcs = "[sampleCompilable ''A'' [sampleStop ''a1'' 0, sampleStop ''a2'' 1]]"
  have "\<exists>g. CompileServices ?svcs [] DefaultBoardingWaitPolicy = Inr g"
    by (rule CompileServices_succeeds)
      (use sample_good sample_policy in \<open>simp_all add: sampleCompilable_def sampleStop_def\<close>)
  then obtain g where g: "CompileServices ?svcs [] DefaultBoardingWaitPolicy = Inr g" by blast
  have "map cp_ID ?svcs = [''A'']" by (simp add: sampleCompilable_def)
  with CompileServices_closed [OF g] g show ?thesis by auto
qed

subsection \<open>A declared interchange can make a service uncompilable\<close>

lemma sample_roots:
  "unionPairs (stopIndex sampleMergeStops) [0, 1, 0] [0, 1] samplePairs = Some [0, 0]"
  "find_all findCluster [0, 0] [0, 1] = Some [0, 0]"
  by (simp_all add: pairLink_def sample_index samplePairs_def unionClusters_def findCluster.simps)

lemma sample_merged:
  "\<exists>report nodes. MergeColocatedStops sampleCompilables samplePairs = Some
     ([sampleCompilable ''A'' [sampleStop ''a1'' 0, (sampleStop ''a2'' 1)\<lparr>cs_Slug := ''a1''\<rparr>],
       sampleCompilable ''B'' [(sampleStop ''b1'' 0)\<lparr>cs_Slug := ''a1''\<rparr>]], report, nodes)"
proof -
  obtain c0 c1 where c: "clusterStops sampleMergeStops = ([c0, c1], [0, 1, 0])"
    "pc_members c0 = [sampleMergeStops ! 0, sampleMergeStops ! 2]" "pc_members c1 = [sampleMergeStops ! 1]"
    using sample_cluster by simp
  define c where "c = foldGroup [c0, c1] [0, 0] 0"
  have "samplePairs \<noteq> []" "[0..<2] = [0, 1 :: nat]" by (simp_all add: samplePairs_def upt_rec)
  then have fold: "foldDeclaredPairs sampleMergeStops [c0, c1] [0, 1, 0] samplePairs = Some ([c], [0, 0, 0])"
    using sample_roots(1)
    by (simp add: foldDeclaredPairs_def numeral_2_eq_2 c_def findCluster.simps [of "[0, 0]"])
  have key: "pc_key c = ''a1''"
    by (simp add: c_def foldGroup_def c(2,3) pc_key_def sampleMergeStops_def stop_lt_def mergeStopOf_def sampleStop_def)
  have "\<exists>report nodes. MergeColocatedStops sampleCompilables samplePairs =
      Some (foldl setSlug sampleCompilables (zip sampleMergeStops [''a1'', ''a1'', ''a1'']), report, nodes)"
    unfolding MergeColocatedStops_def Let_def sample_flatten c(1) prod.case fold by (simp add: key)
  moreover have "foldl setSlug sampleCompilables (zip sampleMergeStops [''a1'', ''a1'', ''a1'']) =
      [sampleCompilable ''A'' [sampleStop ''a1'' 0, (sampleStop ''a2'' 1)\<lparr>cs_Slug := ''a1''\<rparr>],
       sampleCompilable ''B'' [(sampleStop ''b1'' 0)\<lparr>cs_Slug := ''a1''\<rparr>]]"
    by (simp add: sampleMergeStops_def mergeStopOf_def sampleStop_def sampleCompilables_def sampleCompilable_def
        setSlug_def Let_def)
  ultimately show ?thesis by simp
qed

text \<open>
  C24: Declared interchanges can put two stops of one service on one node: \<open>a1\<close> merges with the
  co-located \<open>b1\<close> of another service, the author joins \<open>b1\<close> with \<open>a2\<close>, and the service calling
  at \<open>a1\<close> and \<open>a2\<close> is then rejected for a duplicate slug, although each pair joins two known
  stops of different services.
\<close>

theorem CompileServices_duplicate:
  "validateInterchangePairs sampleCompilables samplePairs = None \<and>
     CompileServices sampleCompilables samplePairs DefaultBoardingWaitPolicy =
       Inl (BadService (DuplicateStopSlug ''A'' ''a1''))"
proof -
  have valid: "validateInterchangePairs sampleCompilables samplePairs = None"
    by (simp add: validateInterchangePairs_def checkPairs_None samplePairs_def knownStops_def
        sampleCompilables_def sampleCompilable_def sampleStop_def)
  obtain report nodes where run: "MergeColocatedStops sampleCompilables samplePairs = Some
     ([sampleCompilable ''A'' [sampleStop ''a1'' 0, (sampleStop ''a2'' 1)\<lparr>cs_Slug := ''a1''\<rparr>],
       sampleCompilable ''B'' [(sampleStop ''b1'' 0)\<lparr>cs_Slug := ''a1''\<rparr>]], report, nodes)"
    using sample_merged by blast
  have "CompileServicePhysics (sampleCompilable ''A'' [sampleStop ''a1'' 0, (sampleStop ''a2'' 1)\<lparr>cs_Slug := ''a1''\<rparr>])
      DefaultBoardingWaitPolicy = Inl (DuplicateStopSlug ''A'' ''a1'')"
    by (simp add: CompileServicePhysics_def sampleCompilable_def sampleRoute_def ToPhysicsLine_def toPoint_def
        toPhysicsSegments_def sampleStop_def)
  with valid run show ?thesis by (simp add: CompileServices_def)
qed

subsection \<open>Authored scenarios\<close>

definition good_user_service :: "Route list \<Rightarrow> UserService \<Rightarrow> bool" where
  "good_user_service routes svc \<longleftrightarrow>
     (\<exists>rt. index_by rt_ID routes (us_RouteID svc) = Some rt \<and>
        2 \<le> length (gl_Coordinates (rt_Geometry rt)) \<and> good_route rt \<and>
        (rt_Segments rt = [] \<or> length (rt_Segments rt) = length (gl_Coordinates (rt_Geometry rt)) - 1)) \<and>
     clean_slug (us_Slug svc) \<and> 2 \<le> length (us_Stops svc) \<and>
     0 < vp_MaxSpeedKMH (us_Vehicle svc) \<and> 0 < vp_AccelerationMS2 (us_Vehicle svc) \<and>
     0 < vp_DecelerationMS2 (us_Vehicle svc) \<and> good_override (us_BoardingWait svc)"

lemma userCompilable_good:
  assumes "good_user_service routes svc" and "good_override scenarioWait"
  shows "\<exists>cs. userCompilable u routes scenarioWait svc = Inr cs \<and> good_compilable cs \<and>
    mset (map cs_Slug (cp_Stops cs)) = mset (StopSlugs u svc)"
proof -
  obtain rt where rt: "index_by rt_ID routes (us_RouteID svc) = Some rt"
    "2 \<le> length (gl_Coordinates (rt_Geometry rt))" "good_route rt"
    "rt_Segments rt = [] \<or> length (rt_Segments rt) = length (gl_Coordinates (rt_Geometry rt)) - 1"
    using assms(1) by (auto simp: good_user_service_def)
  then have "rt_ID rt = us_RouteID svc" by (auto dest: index_by_Some)
  then obtain cs where cs: "CompilableFromUserService u rt svc = Inr cs" by (auto simp: CompilableFromUserService_def Let_def)
  note f = compilable_user_stops [OF cs]
  have "good_compilable (cs\<lparr>cp_ScenarioBoardingWait := scenarioWait\<rparr>)"
    using assms rt f(3-6) by (simp add: good_compilable_def good_user_service_def vehicleLimits_def good_vehicle_def)
  with rt(1) cs f(1) show ?thesis by (simp add: userCompilable_def)
qed

lemma distinct_concat_disjoint:
  assumes "\<forall>x \<in> set xs. distinct (f x)" and "distinct (map g xs)"
    and "\<And>x y. x \<in> set xs \<Longrightarrow> y \<in> set xs \<Longrightarrow> g x \<noteq> g y \<Longrightarrow> set (f x) \<inter> set (f y) = {}"
  shows "distinct (concat (map f xs))"
  using assms
proof (induction xs)
  case (Cons x xs)
  have "set (f x) \<inter> set (f y) = {}" if "y \<in> set xs" for y
    using Cons.prems that by (intro Cons.prems(3)) auto
  with Cons show ?case by auto
qed simp

lemma CompileUserScenario_succeeds:
  assumes "\<forall>svc \<in> set services. good_user_service routes svc" and "distinct (map us_Slug services)"
    and "good_override scenarioWait" and "wf_policy w"
  shows "\<exists>g. CompileUserScenario u routes services [] scenarioWait w = Inr g"
proof -
  have "\<exists>css. map_res (userCompilable u routes scenarioWait) services = Inr css"
    by (rule map_res_total) (use userCompilable_good assms(1,3) in blast)
  then obtain css where css: "map_res (userCompilable u routes scenarioWait) services = Inr css" by blast
  then have rel: "list_all2 (\<lambda>svc cs. good_compilable cs \<and> mset (map cs_Slug (cp_Stops cs)) = mset (StopSlugs u svc)) services css"
    using userCompilable_good assms(1,3) unfolding map_res_Inr_iff
    by (elim list.rel_mono_strong) (metis Inr_inject)
  have good: "\<forall>cs \<in> set css. good_compilable cs" using list_all2_setD2 [OF rel] by blast
  have "mset (concat (map (\<lambda>cs. map cs_Slug (cp_Stops cs)) css)) = mset (concat (map (StopSlugs u) services))"
    using rel by (induction rule: list_all2_induct) auto
  moreover have "distinct (concat (map (StopSlugs u) services))"
  proof (rule distinct_concat_disjoint [OF _ assms(2)])
    show "set (StopSlugs u x) \<inter> set (StopSlugs u y) = {}"
      if "x \<in> set services" "y \<in> set services" "us_Slug x \<noteq> us_Slug y" for x y
      using stop_slugs_disjoint that assms(1) by (simp add: good_user_service_def)
  qed (simp add: StopSlugs_distinct)
  ultimately have "distinct (concat (map (\<lambda>cs. map cs_Slug (cp_Stops cs)) css))"
    using mset_eq_imp_distinct_iff by blast
  from CompileServices_succeeds [OF good this assms(4)] css show ?thesis by (simp add: CompileUserScenario_def)
qed



end
