(* ===== verification/User_Service.thy ===== *)
theory User_Service
  imports Physics_Compile
begin

text \<open>
  Authored services and scenarios on their way into the store: the validation faults of
  \<open>internal/fault/validation.go\<close>, \<open>Validate\<close> of \<open>internal/transit/userservice.go\<close> and
  \<open>internal/transit/userscenario.go\<close>, and \<open>SnapToRoute\<close> of \<open>internal/transit/snap.go\<close>.
  \<open>UserService_Validate_accepts\<close> and its companions say exactly what passes, and
  \<open>validated_services_compile\<close> that what passed these checks compiles.

  A formatted message is kept as its format and arguments (\<open>Sprintf\<close>): no code branches on
  the text. The boolean tests are those of the source on finite numbers.
\<close>

subsection \<open>internal/fault\<close>

datatype fmt_arg = ArgD nat | ArgQ string | ArgS string

datatype message = Sprintf string "fmt_arg list"

abbreviation RuleRequired :: string where "RuleRequired \<equiv> ''required''"
abbreviation RuleRange :: string where "RuleRange \<equiv> ''range''"
abbreviation RulePositive :: string where "RulePositive \<equiv> ''positive''"
abbreviation RuleNonNegative :: string where "RuleNonNegative \<equiv> ''non_negative''"
abbreviation RuleMinCount :: string where "RuleMinCount \<equiv> ''min_count''"
abbreviation RuleDuplicate :: string where "RuleDuplicate \<equiv> ''duplicate''"
abbreviation RuleFormat :: string where "RuleFormat \<equiv> ''format''"
abbreviation RuleSameService :: string where "RuleSameService \<equiv> ''same_service''"
abbreviation RuleNotMember :: string where "RuleNotMember \<equiv> ''not_member''"
abbreviation RuleMaxLength :: string where "RuleMaxLength \<equiv> ''max_length''"
abbreviation RuleOrder :: string where "RuleOrder \<equiv> ''order''"
abbreviation RuleOverlap :: string where "RuleOverlap \<equiv> ''overlap''"

record ValidationFault =
  vf_Field :: string
  vf_Index :: "nat option"
  vf_Rule :: string
  vf_Message :: message

type_synonym ValidationFaults = "ValidationFault list"

definition Whole :: "string \<Rightarrow> string \<Rightarrow> message \<Rightarrow> ValidationFault" where
  "Whole field rule message = \<lparr>vf_Field = field, vf_Index = None, vf_Rule = rule, vf_Message = message\<rparr>"

definition At :: "string \<Rightarrow> nat \<Rightarrow> string \<Rightarrow> message \<Rightarrow> ValidationFault" where
  "At field i rule message = \<lparr>vf_Field = field, vf_Index = Some i, vf_Rule = rule, vf_Message = message\<rparr>"

definition Err :: "ValidationFaults \<Rightarrow> ValidationFaults option" where
  "Err f = (if f = [] then None else Some f)"

text \<open>\<open>if c { faults = append(faults, f) }\<close>\<close>

definition fault_if :: "bool \<Rightarrow> ValidationFault \<Rightarrow> ValidationFaults" where
  "fault_if c f = (if c then [f] else [])"

lemma fault_if_Nil [simp]: "fault_if c f = [] \<longleftrightarrow> \<not> c"
  by (simp add: fault_if_def)

lemma Err_None [simp]: "Err f = None \<longleftrightarrow> f = []"
  by (simp add: Err_def)

definition blank :: "unicode_tables \<Rightarrow> string \<Rightarrow> bool" where
  "blank u s \<longleftrightarrow> TrimSpace u (runes s) = []"

subsection \<open>Frequency windows\<close>

text \<open>\<open>minutesOfDay\<close>: \<open>HH:MM\<close> with four digit bytes, hour at most 23 and minute at most 59.\<close>

definition digit_byte :: "char \<Rightarrow> bool" where
  "digit_byte d \<longleftrightarrow> \<not> ((of_char d :: nat) < 48 \<or> (of_char d :: nat) > 57)"

definition digit_val :: "char \<Rightarrow> nat" where
  "digit_val d = of_char d - 48"

definition minutesOfDay :: "string \<Rightarrow> nat option" where
  "minutesOfDay value =
     (if length value \<noteq> 5 \<or> value ! 2 \<noteq> CHR '':'' then None
      else (let digits = [value ! 0, value ! 1, value ! 3, value ! 4] in
        if \<not> list_all digit_byte digits then None
        else (let hour = digit_val (digits ! 0) * 10 + digit_val (digits ! 1);
                  minute = digit_val (digits ! 2) * 10 + digit_val (digits ! 3)
              in if hour > 23 \<or> minute > 59 then None else Some (hour * 60 + minute))))"

definition parseWindowTime :: "unicode_tables \<Rightarrow> string \<Rightarrow> nat \<Rightarrow> string \<Rightarrow> ValidationFault + nat" where
  "parseWindowTime u name i value =
     (let field = ''frequency_windows.'' @ name in
      if blank u value
      then Inl (At field i RuleRequired (Sprintf ''frequency window %d: %s is required'' [ArgD i, ArgS name]))
      else (case minutesOfDay value of
              None \<Rightarrow> Inl (At field i RuleFormat
                (Sprintf ''frequency window %d: %s must be HH:MM between 00:00 and 23:59'' [ArgD i, ArgS name]))
            | Some minutes \<Rightarrow> Inr minutes))"

record windowSpan =
  ws_index :: nat
  ws_start :: nat
  ws_end :: nat

definition spans_overlap :: "nat \<Rightarrow> nat \<Rightarrow> windowSpan \<Rightarrow> bool" where
  "spans_overlap start stop prev \<longleftrightarrow> start < ws_end prev \<and> ws_start prev < stop"

text \<open>The inner loop over the earlier spans, which stops at the first one that overlaps.\<close>

definition overlapFault :: "nat \<Rightarrow> nat \<Rightarrow> nat \<Rightarrow> windowSpan list \<Rightarrow> ValidationFaults" where
  "overlapFault i start stop spans =
     (case List.find (spans_overlap start stop) spans of
        None \<Rightarrow> []
      | Some prev \<Rightarrow> [At ''frequency_windows'' i RuleOverlap
          (Sprintf ''frequency window %d: overlaps frequency window %d'' [ArgD i, ArgD (ws_index prev)])])"

definition err_list :: "'e + 'a \<Rightarrow> 'e list" where
  "err_list r = (case r of Inl e \<Rightarrow> [e] | Inr _ \<Rightarrow> [])"

lemma err_list_Nil [simp]: "err_list r = [] \<longleftrightarrow> (\<exists>x. r = Inr x)"
  by (auto simp: err_list_def split: sum.splits)

definition windowStep ::
  "unicode_tables \<Rightarrow> nat \<Rightarrow> windowSpan list \<Rightarrow> FrequencyWindow \<Rightarrow> ValidationFaults \<times> windowSpan list" where
  "windowStep u i spans fw =
     (let startR = parseWindowTime u ''start_time'' i (fw_StartTime fw);
          endR = parseWindowTime u ''end_time'' i (fw_EndTime fw);
          faults = err_list startR @ err_list endR @
            fault_if (fw_HeadwayS fw \<le> 0) (At ''frequency_windows.headway_s'' i RulePositive
              (Sprintf ''frequency window %d: headway_s must be positive'' [ArgD i]))
      in case (startR, endR) of
           (Inr start, Inr stop) \<Rightarrow>
             if stop \<le> start
             then (faults @ [At ''frequency_windows.end_time'' i RuleOrder
                     (Sprintf ''frequency window %d: end_time must be after start_time'' [ArgD i])], spans)
             else (faults @ overlapFault i start stop spans,
                   spans @ [\<lparr>ws_index = i, ws_start = start, ws_end = stop\<rparr>])
         | _ \<Rightarrow> (faults, spans))"

fun windowsLoop ::
  "unicode_tables \<Rightarrow> nat \<Rightarrow> windowSpan list \<Rightarrow> FrequencyWindow list \<Rightarrow> ValidationFaults" where
  "windowsLoop u i spans [] = []"
| "windowsLoop u i spans (fw # fws) =
     (let (faults, spans') = windowStep u i spans fw in faults @ windowsLoop u (Suc i) spans' fws)"

definition validateFrequencyWindows :: "unicode_tables \<Rightarrow> FrequencyWindow list \<Rightarrow> ValidationFaults" where
  "validateFrequencyWindows u windows = windowsLoop u 0 [] windows"

subsection \<open>UserService.Validate\<close>

definition MaxSubtextChars :: nat where "MaxSubtextChars = 140"

definition MaxDescriptionChars :: nat where "MaxDescriptionChars = 4000"

definition stopFaults :: "unicode_tables \<Rightarrow> nat \<Rightarrow> ServiceStopPoint \<Rightarrow> ValidationFaults" where
  "stopFaults u i stop =
     fault_if (blank u (sp_Name stop)) (At ''stops.name'' i RuleRequired
       (Sprintf ''stop %d: name is required'' [ArgD i])) @
     fault_if (sp_Lat stop < -90 \<or> sp_Lat stop > 90) (At ''stops.lat'' i RuleRange
       (Sprintf ''stop %d: lat must be between -90 and 90'' [ArgD i])) @
     fault_if (sp_Lng stop < -180 \<or> sp_Lng stop > 180) (At ''stops.lng'' i RuleRange
       (Sprintf ''stop %d: lng must be between -180 and 180'' [ArgD i]))"

definition UserService_Validate :: "unicode_tables \<Rightarrow> UserService \<Rightarrow> ValidationFaults option" where
  "UserService_Validate u s = Err (
     fault_if (blank u (us_Name s)) (Whole ''name'' RuleRequired (Sprintf ''name is required'' [])) @
     fault_if (length (runes (us_Subtext s)) > MaxSubtextChars) (Whole ''subtext'' RuleMaxLength
       (Sprintf ''subtext must be at most %d characters'' [ArgD MaxSubtextChars])) @
     fault_if (length (runes (us_Description s)) > MaxDescriptionChars) (Whole ''description'' RuleMaxLength
       (Sprintf ''description must be at most %d characters'' [ArgD MaxDescriptionChars])) @
     fault_if (blank u (us_RouteID s)) (Whole ''route_id'' RuleRequired (Sprintf ''route_id is required'' [])) @
     fault_if (length (us_Stops s) < 2) (Whole ''stops'' RuleMinCount
       (Sprintf ''a service needs at least two stops'' [])) @
     concat (map (\<lambda>(i, stop). stopFaults u i stop) (enumerate 0 (us_Stops s))) @
     fault_if (vp_MaxSpeedKMH (us_Vehicle s) \<le> 0) (Whole ''vehicle.max_speed_kmh'' RulePositive
       (Sprintf ''vehicle.max_speed_kmh must be positive'' [])) @
     fault_if (vp_AccelerationMS2 (us_Vehicle s) \<le> 0) (Whole ''vehicle.acceleration_ms2'' RulePositive
       (Sprintf ''vehicle.acceleration_ms2 must be positive'' [])) @
     fault_if (vp_DecelerationMS2 (us_Vehicle s) \<le> 0) (Whole ''vehicle.deceleration_ms2'' RulePositive
       (Sprintf ''vehicle.deceleration_ms2 must be positive'' [])) @
     fault_if (vp_DwellS (us_Vehicle s) < 0) (Whole ''vehicle.dwell_s'' RuleNonNegative
       (Sprintf ''vehicle.dwell_s must not be negative'' [])) @
     validateFrequencyWindows u (us_FrequencyWindows s))"

subsection \<open>UserScenario.Validate\<close>

text \<open>The loop over the member ids: their faults and the set of members.\<close>

fun membersLoop :: "unicode_tables \<Rightarrow> nat \<Rightarrow> string set \<Rightarrow> string list \<Rightarrow> ValidationFaults \<times> string set" where
  "membersLoop u i seen [] = ([], seen)"
| "membersLoop u i seen (x # ids) =
     (if blank u x then
        (let (faults, members) = membersLoop u (Suc i) seen ids in
         (At ''service_ids'' i RuleRequired (Sprintf ''service_ids[%d]: must not be blank'' [ArgD i]) # faults, members))
      else if x \<in> seen then
        (let (faults, members) = membersLoop u (Suc i) seen ids in
         (At ''service_ids'' i RuleDuplicate
            (Sprintf ''service_ids[%d]: duplicate service id %q'' [ArgD i, ArgQ x]) # faults, members))
      else membersLoop u (Suc i) (insert x seen) ids)"

definition identityBlank :: "unicode_tables \<Rightarrow> StopIdentity \<Rightarrow> bool" where
  "identityBlank u p \<longleftrightarrow> blank u (si_ServiceID p) \<or> blank u (si_Slug p)"

definition pairFaults :: "unicode_tables \<Rightarrow> string set \<Rightarrow> nat \<Rightarrow> InterchangePair \<Rightarrow> ValidationFaults" where
  "pairFaults u members i p =
     (let aBlank = identityBlank u (ip_A p); bBlank = identityBlank u (ip_B p) in
      fault_if aBlank (At ''interchange_pairs.a'' i RuleRequired
        (Sprintf ''interchange_pairs[%d].a: service_id and slug are required'' [ArgD i])) @
      fault_if bBlank (At ''interchange_pairs.b'' i RuleRequired
        (Sprintf ''interchange_pairs[%d].b: service_id and slug are required'' [ArgD i])) @
      fault_if (\<not> aBlank \<and> \<not> bBlank \<and> si_ServiceID (ip_A p) = si_ServiceID (ip_B p))
        (At ''interchange_pairs'' i RuleSameService
          (Sprintf ''interchange_pairs[%d]: both stops are on service %q, want two different services''
             [ArgD i, ArgQ (si_ServiceID (ip_A p))])) @
      fault_if (\<not> aBlank \<and> si_ServiceID (ip_A p) \<notin> members) (At ''interchange_pairs.a'' i RuleNotMember
        (Sprintf ''interchange_pairs[%d].a: service %q is not a member of this scenario''
           [ArgD i, ArgQ (si_ServiceID (ip_A p))])) @
      fault_if (\<not> bBlank \<and> si_ServiceID (ip_B p) \<notin> members) (At ''interchange_pairs.b'' i RuleNotMember
        (Sprintf ''interchange_pairs[%d].b: service %q is not a member of this scenario''
           [ArgD i, ArgQ (si_ServiceID (ip_B p))])))"

definition UserScenario_Validate :: "unicode_tables \<Rightarrow> UserScenario \<Rightarrow> ValidationFaults option" where
  "UserScenario_Validate u s = Err (
     fault_if (blank u (uc_Name s)) (Whole ''name'' RuleRequired (Sprintf ''name is required'' [])) @
     (let (faults, members) = membersLoop u 0 {} (uc_ServiceIDs s) in
      faults @ concat (map (\<lambda>(i, p). pairFaults u members i p) (enumerate 0 (uc_InterchangePairs s)))))"

subsection \<open>SnapToRoute\<close>

abbreviation OffRouteFault :: string where "OffRouteFault \<equiv> ''off_route''"
abbreviation ChainageOrderFault :: string where "ChainageOrderFault \<equiv> ''chainage_order''"

record FaultedStop =
  fs_Seq :: int
  fs_Name :: string
  fs_Slug :: string
  fs_ChainageM :: float64
  fs_OffsetM :: float64

record StopPlacementFault =
  pf_Kind :: string
  pf_RouteSlug :: string
  pf_ThresholdM :: float64
  pf_Backwards :: bool
  pf_Stops :: "FaultedStop list"

text \<open>The errors of \<open>SnapToRoute\<close>; the first two wrap \<open>ErrRouteGeometry\<close>.\<close>

datatype snap_error =
    RouteLine string line_error
  | RouteSnap string project_error
  | Placement StopPlacementFault

text \<open>
  \<open>FirstChainageOrderFault\<close>: \<open>direction\<close> is 0 until a pair with distinct chainages sets it to
  1 or -1. \<open>None\<close> is the source's \<open>faulty = false\<close>.
\<close>

fun orderLoop :: "nat \<Rightarrow> int \<Rightarrow> float64 list \<Rightarrow> (nat \<times> bool) option" where
  "orderLoop i direction (a # b # cs) =
     (let delta = b - a in
      if delta = 0 then orderLoop (Suc i) direction (b # cs)
      else if direction = 0 then orderLoop (Suc i) (if delta > 0 then 1 else -1) (b # cs)
      else if (delta > 0) \<noteq> (direction > 0) then Some (i, direction < 0)
      else orderLoop (Suc i) direction (b # cs))"
| "orderLoop i direction _ = None"

definition FirstChainageOrderFault :: "float64 list \<Rightarrow> (nat \<times> bool) option" where
  "FirstChainageOrderFault chainageM = orderLoop 0 0 chainageM"

definition placementStop :: "ServiceStopPoint \<Rightarrow> Stop" where
  "placementStop stop = \<lparr>stop_ID = sp_Name stop, stop_Location = \<lparr>pt_Lng = sp_Lng stop, pt_Lat = sp_Lat stop\<rparr>\<rparr>"

definition faultedStop :: "ServiceStopPoint list \<Rightarrow> SnappedStop list \<Rightarrow> nat \<Rightarrow> FaultedStop" where
  "faultedStop stops snapped i =
     \<lparr>fs_Seq = sp_Seq (stops ! i), fs_Name = sp_Name (stops ! i), fs_Slug = sp_Slug (stops ! i),
      fs_ChainageM = sd_ChainageM (snapped ! i), fs_OffsetM = sd_OffsetM (snapped ! i)\<rparr>"

definition firstOffRoute :: "SnappedStop list \<Rightarrow> nat option" where
  "firstOffRoute snapped =
     map_option fst (List.find (\<lambda>(i, sn). sd_OffsetM sn > OffRouteThresholdM) (enumerate 0 snapped))"

definition commitSnap :: "ServiceStopPoint \<Rightarrow> SnappedStop \<Rightarrow> ServiceStopPoint" where
  "commitSnap stop sn =
     stop\<lparr>sp_Lat := pt_Lat (sd_Point sn), sp_Lng := pt_Lng (sd_Point sn),
          sp_ChainageM := sd_ChainageM sn, sp_OffsetM := sd_OffsetM sn\<rparr>"

definition SnapToRoute :: "Route \<Rightarrow> UserService \<Rightarrow> snap_error + UserService" where
  "SnapToRoute rt s =
     bind_res (wrap_err (RouteLine (rt_Slug rt)) (ToPhysicsLine (rt_Geometry rt))) (\<lambda>line.
     bind_res (wrap_err (RouteSnap (rt_Slug rt)) (SnapStops line (map placementStop (us_Stops s)))) (\<lambda>snapped.
       case firstOffRoute snapped of
         Some i \<Rightarrow> Inl (Placement \<lparr>pf_Kind = OffRouteFault, pf_RouteSlug = rt_Slug rt,
           pf_ThresholdM = OffRouteThresholdM, pf_Backwards = False,
           pf_Stops = [faultedStop (us_Stops s) snapped i]\<rparr>)
       | None \<Rightarrow>
           (case FirstChainageOrderFault (map sd_ChainageM snapped) of
              Some (i, backwards) \<Rightarrow> Inl (Placement \<lparr>pf_Kind = ChainageOrderFault, pf_RouteSlug = rt_Slug rt,
                pf_ThresholdM = 0, pf_Backwards = backwards,
                pf_Stops = [faultedStop (us_Stops s) snapped i, faultedStop (us_Stops s) snapped (Suc i)]\<rparr>)
            | None \<Rightarrow> Inr (s\<lparr>us_Stops := map2 commitSnap (us_Stops s) snapped\<rparr>))))"

subsection \<open>Clock times\<close>

definition clock :: "nat \<Rightarrow> string" where
  "clock m = [char_of (48 + m div 600), char_of (48 + m div 60 mod 10), CHR '':'',
     char_of (48 + m mod 60 div 10), char_of (48 + m mod 60 mod 10)]"

lemma digit_char_of [simp]: "d < 10 \<Longrightarrow> digit_byte (char_of (48 + d)) \<and> digit_val (char_of (48 + d)) = d"
  by (simp add: digit_byte_def digit_val_def of_char_of)

lemma digit_byteE: "digit_byte c \<Longrightarrow> c = char_of (48 + digit_val c) \<and> digit_val c < 10"
  by (auto simp: digit_byte_def digit_val_def)

lemma minutesOfDay_clock: "m < 1440 \<Longrightarrow> minutesOfDay (clock m) = Some m"
proof -
  assume m: "m < 1440"
  have a: "m div 600 < 10" "m mod 60 div 10 < 10" using m by auto
  have b: "m div 600 * 10 + m div 60 mod 10 = m div 60"
    by (simp add: div_mult2_eq [of m 60 10, simplified])
  have c: "m mod 60 div 10 * 10 + m mod 60 mod 10 = m mod 60" by simp
  have "m div 60 \<le> 23" "m mod 60 \<le> 59" "m div 60 * 60 + m mod 60 = m" using m by auto
  with a b c show ?thesis by (simp add: minutesOfDay_def clock_def)
qed

lemma length5E: "length v = 5 \<Longrightarrow> \<exists>a b c d e. v = [a, b, c, d, e]"
  by (auto simp: numeral_eq_Suc length_Suc_conv)

lemma clock_digits:
  assumes "h1 < 10" "h2 < 10" "m1 < 10" "m2 < 10" "h1 * 10 + h2 \<le> 23" "m1 * 10 + m2 \<le> 59"
  shows "clock ((h1 * 10 + h2) * 60 + (m1 * 10 + m2)) =
    [char_of (48 + h1), char_of (48 + h2), CHR '':'', char_of (48 + m1), char_of (48 + m2)]"
proof -
  let ?m = "(h1 * 10 + h2) * 60 + (m1 * 10 + m2)"
  have "(H * 60 + M) div 60 = H \<and> (H * 60 + M) mod 60 = M" if "M \<le> 59" for H M :: nat
    using that by auto
  from this [OF assms(6)] have "?m div 60 = h1 * 10 + h2" "?m mod 60 = m1 * 10 + m2" by blast+
  moreover have "?m div 600 = ?m div 60 div 10" by (simp add: div_mult2_eq [of _ 60 10, simplified])
  ultimately show ?thesis using assms by (simp add: clock_def)
qed

lemma minutesOfDay_Some: "minutesOfDay v = Some m \<Longrightarrow> m < 1440 \<and> v = clock m"
proof -
  assume A: "minutesOfDay v = Some m"
  then obtain a b c d e where v: "v = [a, b, c, d, e]" using length5E [of v] by (auto simp: minutesOfDay_def split: if_splits)
  from A have d: "digit_byte a" "digit_byte b" "digit_byte d" "digit_byte e" "c = CHR '':''"
    "digit_val a * 10 + digit_val b \<le> 23" "digit_val d * 10 + digit_val e \<le> 59"
    "m = (digit_val a * 10 + digit_val b) * 60 + (digit_val d * 10 + digit_val e)"
    by (auto simp: minutesOfDay_def v Let_def split: if_splits)
  have "clock m = v"
    using clock_digits [of "digit_val a" "digit_val b" "digit_val d" "digit_val e"] d digit_byteE
    by (metis v)
  moreover have "H * 60 + M < 1440" if "H \<le> 23" "M \<le> 59" for H M :: nat
    using that by linarith
  from this [OF d(6,7)] have "m < 1440" by (simp only: d(8))
  ultimately show ?thesis by simp
qed

text \<open>
  C30: \<open>minutesOfDay\<close> parses exactly the clock times 00:00 to 23:59 written with two digits
  each, and reads every one of them back as the minute of the day it was printed from.
\<close>

theorem minutesOfDay_roundtrip: "minutesOfDay v = Some m \<longleftrightarrow> m < 1440 \<and> v = clock m"
  using minutesOfDay_Some minutesOfDay_clock by blast

subsection \<open>What validation accepts\<close>

definition window_times :: "unicode_tables \<Rightarrow> FrequencyWindow \<Rightarrow> nat \<Rightarrow> nat \<Rightarrow> bool" where
  "window_times u fw start stop \<longleftrightarrow>
     \<not> blank u (fw_StartTime fw) \<and> \<not> blank u (fw_EndTime fw) \<and>
     minutesOfDay (fw_StartTime fw) = Some start \<and> minutesOfDay (fw_EndTime fw) = Some stop"

definition good_window :: "unicode_tables \<Rightarrow> FrequencyWindow \<Rightarrow> bool" where
  "good_window u fw \<longleftrightarrow> 0 < fw_HeadwayS fw \<and> (\<exists>start stop. window_times u fw start stop \<and> start < stop)"

text \<open>Two windows as half-open spans of the day do not meet.\<close>

definition windows_apart :: "FrequencyWindow \<Rightarrow> FrequencyWindow \<Rightarrow> bool" where
  "windows_apart v w \<longleftrightarrow>
     the (minutesOfDay (fw_EndTime v)) \<le> the (minutesOfDay (fw_StartTime w)) \<or>
     the (minutesOfDay (fw_EndTime w)) \<le> the (minutesOfDay (fw_StartTime v))"

definition span_of :: "nat \<Rightarrow> FrequencyWindow \<Rightarrow> windowSpan" where
  "span_of i fw = \<lparr>ws_index = i, ws_start = the (minutesOfDay (fw_StartTime fw)),
     ws_end = the (minutesOfDay (fw_EndTime fw))\<rparr>"

lemma parseWindowTime_Inr: "parseWindowTime u name i v = Inr m \<longleftrightarrow> \<not> blank u v \<and> minutesOfDay v = Some m"
  by (auto simp: parseWindowTime_def Let_def split: option.splits)

lemma overlapFault_Nil: "overlapFault i start stop spans = [] \<longleftrightarrow> (\<forall>prev \<in> set spans. \<not> spans_overlap start stop prev)"
  by (auto simp: overlapFault_def find_None_iff split: option.splits)
    (metis find_None_iff option.distinct(1))

lemma windowStep_clean:
  "fst (windowStep u i spans fw) = [] \<longleftrightarrow>
     good_window u fw \<and> (\<forall>prev \<in> set spans. \<not> spans_overlap (ws_start (span_of i fw)) (ws_end (span_of i fw)) prev)"
  (is "?l \<longleftrightarrow> ?r")
proof
  assume ?l
  then obtain start stop where t: "parseWindowTime u ''start_time'' i (fw_StartTime fw) = Inr start"
    "parseWindowTime u ''end_time'' i (fw_EndTime fw) = Inr stop"
    by (auto simp: windowStep_def Let_def split: sum.splits if_splits)
  with \<open>?l\<close> show ?r
    by (auto simp: windowStep_def Let_def good_window_def window_times_def span_of_def parseWindowTime_Inr
        overlapFault_Nil split: if_splits)
next
  assume ?r
  then obtain start stop where "window_times u fw start stop" "start < stop" by (auto simp: good_window_def)
  then have "parseWindowTime u ''start_time'' i (fw_StartTime fw) = Inr start"
    "parseWindowTime u ''end_time'' i (fw_EndTime fw) = Inr stop"
    "ws_start (span_of i fw) = start" "ws_end (span_of i fw) = stop"
    by (auto simp: window_times_def parseWindowTime_Inr span_of_def)
  with \<open>?r\<close> \<open>start < stop\<close> show ?l
    by (simp add: windowStep_def good_window_def err_list_def overlapFault_Nil)
qed

lemma windowStep_spans:
  assumes "fst (windowStep u i spans fw) = []"
  shows "snd (windowStep u i spans fw) = spans @ [span_of i fw]"
proof -
  from assms obtain start stop where t: "parseWindowTime u ''start_time'' i (fw_StartTime fw) = Inr start"
    "parseWindowTime u ''end_time'' i (fw_EndTime fw) = Inr stop"
    by (auto simp: windowStep_def Let_def split: sum.splits if_splits)
  moreover from t have "minutesOfDay (fw_StartTime fw) = Some start" "minutesOfDay (fw_EndTime fw) = Some stop"
    by (simp_all add: parseWindowTime_Inr)
  ultimately show ?thesis using assms by (simp add: windowStep_def Let_def span_of_def split: if_splits)
qed

lemma spans_overlap_apart:
  "spans_overlap (ws_start (span_of i w)) (ws_end (span_of i w)) (span_of j v) \<longleftrightarrow> \<not> windows_apart v w"
  by (auto simp: spans_overlap_def span_of_def windows_apart_def)

lemma windowsLoop_Nil:
  assumes "set spans = (\<lambda>(i, fw). span_of i fw) ` set done'"
  shows "windowsLoop u i spans fws = [] \<longleftrightarrow>
    list_all (good_window u) fws \<and> sorted_wrt windows_apart fws \<and>
      (\<forall>(j, v) \<in> set done'. \<forall>w \<in> set fws. windows_apart v w)"
  using assms
proof (induction fws arbitrary: i spans done')
  case Nil
  then show ?case by auto
next
  case (Cons fw fws)
  have step: "windowsLoop u i spans (fw # fws) = [] \<longleftrightarrow>
    fst (windowStep u i spans fw) = [] \<and> windowsLoop u (Suc i) (spans @ [span_of i fw]) fws = []"
    using windowStep_spans [of u i spans fw] by (cases "windowStep u i spans fw") auto
  have "set (spans @ [span_of i fw]) = (\<lambda>(i, fw). span_of i fw) ` set (done' @ [(i, fw)])"
    using Cons.prems by auto
  from Cons.IH [OF this] show ?case
    unfolding step windowStep_clean Cons.prems by (auto simp: spans_overlap_apart)
qed

lemma validateFrequencyWindows_Nil:
  "validateFrequencyWindows u fws = [] \<longleftrightarrow> list_all (good_window u) fws \<and> sorted_wrt windows_apart fws"
  using windowsLoop_Nil [of "[]" "[]" u 0 fws] by (simp add: validateFrequencyWindows_def)

definition good_stop :: "unicode_tables \<Rightarrow> ServiceStopPoint \<Rightarrow> bool" where
  "good_stop u stop \<longleftrightarrow> \<not> blank u (sp_Name stop) \<and> \<bar>sp_Lat stop\<bar> \<le> 90 \<and> \<bar>sp_Lng stop\<bar> \<le> 180"

lemma stopFaults_Nil [simp]: "stopFaults u i stop = [] \<longleftrightarrow> good_stop u stop"
  by (auto simp: stopFaults_def good_stop_def)

lemma concat_enumerate_Nil:
  "(\<And>i x. f i x = [] \<longleftrightarrow> P x) \<Longrightarrow>
     concat (map (\<lambda>(i, x). f i x) (enumerate n xs)) = [] \<longleftrightarrow> list_all P xs"
  by (induction xs arbitrary: n) auto

lemma UserService_Validate_None:
  "UserService_Validate u s = None \<longleftrightarrow>
     \<not> blank u (us_Name s) \<and> \<not> blank u (us_RouteID s) \<and>
     length (runes (us_Subtext s)) \<le> MaxSubtextChars \<and> length (runes (us_Description s)) \<le> MaxDescriptionChars \<and>
     2 \<le> length (us_Stops s) \<and> list_all (good_stop u) (us_Stops s) \<and>
     0 < vp_MaxSpeedKMH (us_Vehicle s) \<and> 0 < vp_AccelerationMS2 (us_Vehicle s) \<and>
     0 < vp_DecelerationMS2 (us_Vehicle s) \<and> 0 \<le> vp_DwellS (us_Vehicle s) \<and>
     list_all (good_window u) (us_FrequencyWindows s) \<and> sorted_wrt windows_apart (us_FrequencyWindows s)"
  unfolding UserService_Validate_def Err_None append_is_Nil_conv fault_if_Nil validateFrequencyWindows_Nil
    concat_enumerate_Nil [OF stopFaults_Nil] not_less not_le by blast

text \<open>
  C28: Exactly these authored services pass \<open>Validate\<close>: a name and a route that are not blank,
  prose within its limits counted in characters, at least two named stops within the ranges of
  latitude and longitude, positive speed and acceleration limits, a dwell that is not negative,
  and frequency windows with a positive headway that start before they end and do not overlap
  each other anywhere in the list.
\<close>

theorem UserService_Validate_accepts:
  "UserService_Validate u s = None \<longleftrightarrow>
     \<not> blank u (us_Name s) \<and> \<not> blank u (us_RouteID s) \<and>
     length (runes (us_Subtext s)) \<le> 140 \<and> length (runes (us_Description s)) \<le> 4000 \<and>
     2 \<le> length (us_Stops s) \<and> list_all (good_stop u) (us_Stops s) \<and>
     0 < vp_MaxSpeedKMH (us_Vehicle s) \<and> 0 < vp_AccelerationMS2 (us_Vehicle s) \<and>
     0 < vp_DecelerationMS2 (us_Vehicle s) \<and> 0 \<le> vp_DwellS (us_Vehicle s) \<and>
     list_all (good_window u) (us_FrequencyWindows s) \<and>
     sorted_wrt windows_apart (us_FrequencyWindows s)"
  by (simp add: UserService_Validate_None MaxSubtextChars_def MaxDescriptionChars_def)

lemma membersLoop_spec:
  "membersLoop u i seen ids = (faults, members) \<Longrightarrow>
     members = seen \<union> {x \<in> set ids. \<not> blank u x} \<and>
     (faults = [] \<longleftrightarrow> list_all (\<lambda>x. \<not> blank u x \<and> x \<notin> seen) ids \<and> distinct ids)"
  by (induction u i seen ids arbitrary: faults members rule: membersLoop.induct)
    (fastforce split: if_splits prod.splits simp: list_all_iff)+

definition good_pair :: "unicode_tables \<Rightarrow> string set \<Rightarrow> InterchangePair \<Rightarrow> bool" where
  "good_pair u members p \<longleftrightarrow>
     \<not> identityBlank u (ip_A p) \<and> \<not> identityBlank u (ip_B p) \<and>
     si_ServiceID (ip_A p) \<noteq> si_ServiceID (ip_B p) \<and>
     si_ServiceID (ip_A p) \<in> members \<and> si_ServiceID (ip_B p) \<in> members"

lemma pairFaults_Nil [simp]: "pairFaults u members i p = [] \<longleftrightarrow> good_pair u members p"
  by (auto simp: pairFaults_def good_pair_def Let_def)

lemma UserScenario_Validate_None:
  "UserScenario_Validate u s = None \<longleftrightarrow>
     \<not> blank u (uc_Name s) \<and> list_all (\<lambda>x. \<not> blank u x) (uc_ServiceIDs s) \<and> distinct (uc_ServiceIDs s) \<and>
     list_all (good_pair u (set (uc_ServiceIDs s))) (uc_InterchangePairs s)"
proof -
  obtain faults members where m: "membersLoop u 0 {} (uc_ServiceIDs s) = (faults, members)" by fastforce
  note M = membersLoop_spec [OF m]
  have "UserScenario_Validate u s = None \<longleftrightarrow>
    \<not> blank u (uc_Name s) \<and> faults = [] \<and> list_all (good_pair u members) (uc_InterchangePairs s)"
    unfolding UserScenario_Validate_def m Let_def prod.case Err_None append_is_Nil_conv fault_if_Nil
      concat_enumerate_Nil [OF pairFaults_Nil] by blast
  moreover have "members = set (uc_ServiceIDs s)" if "list_all (\<lambda>x. \<not> blank u x) (uc_ServiceIDs s)"
    using M that by (auto simp: list_all_iff)
  ultimately show ?thesis using M by auto
qed

subsection \<open>What snapping accepts\<close>

abbreviation descending :: "float64 list \<Rightarrow> bool" where
  "descending cs \<equiv> sorted_wrt (\<ge>) cs"

lemma descending_Cons2: "descending (a # b # cs) \<longleftrightarrow> b \<le> a \<and> descending (b # cs)"
  by auto

lemma ascending_Cons2: "sorted (a # b # cs) \<longleftrightarrow> (a :: real) \<le> b \<and> sorted (b # cs)"
  by auto

lemmas order_Cons2 = descending_Cons2 ascending_Cons2

lemma orderLoop_up: "orderLoop i 1 cs = None \<longleftrightarrow> sorted cs"
proof (induction cs arbitrary: i rule: induct_list012)
  case (3 a b cs)
  show ?case
    using 3(2) by (cases a b rule: linorder_cases)
      (auto simp: order_Cons2 Let_def simp del: sorted_wrt.simps(2))
qed simp_all

lemma orderLoop_down: "orderLoop i (-1) cs = None \<longleftrightarrow> descending cs"
proof (induction cs arbitrary: i rule: induct_list012)
  case (3 a b cs)
  show ?case
    using 3(2) by (cases a b rule: linorder_cases)
      (auto simp: order_Cons2 Let_def simp del: sorted_wrt.simps(2))
qed simp_all

lemma orderLoop_start: "orderLoop i 0 cs = None \<longleftrightarrow> sorted cs \<or> descending cs"
proof (induction cs arbitrary: i rule: induct_list012)
  case (3 a b cs)
  show ?case
    using 3(2) by (cases a b rule: linorder_cases)
      (auto simp: order_Cons2 Let_def orderLoop_up orderLoop_down simp del: sorted_wrt.simps(2))
qed simp_all

lemma firstOffRoute_None: "firstOffRoute snapped = None \<longleftrightarrow> (\<forall>sn \<in> set snapped. sd_OffsetM sn \<le> OffRouteThresholdM)"
  unfolding firstOffRoute_def option.map_disc_iff find_None_iff set_enumerate0 all_set_conv_all_nth
  by (auto simp: not_less)

lemma SnapToRoute_eq:
  assumes "ToPhysicsLine (rt_Geometry rt) = Inr line"
    and "snapped = snap (projectLinePlanar line) (map placementStop (us_Stops s))"
  shows "(\<exists>s'. SnapToRoute rt s = Inr s') \<longleftrightarrow>
      (\<forall>sn \<in> set snapped. sd_OffsetM sn \<le> OffRouteThresholdM) \<and>
      (sorted (map sd_ChainageM snapped) \<or> descending (map sd_ChainageM snapped))"
    and "SnapToRoute rt s = Inr s' \<Longrightarrow> s' = s\<lparr>us_Stops := map2 commitSnap (us_Stops s) snapped\<rparr>"
proof -
  have ss: "SnapStops line (map placementStop (us_Stops s)) = Inr snapped"
    using ToPhysicsLine_length [OF assms(1)] assms(2) by (simp add: SnapStops_def)
  show "(\<exists>s'. SnapToRoute rt s = Inr s') \<longleftrightarrow>
      (\<forall>sn \<in> set snapped. sd_OffsetM sn \<le> OffRouteThresholdM) \<and>
      (sorted (map sd_ChainageM snapped) \<or> descending (map sd_ChainageM snapped))"
    unfolding firstOffRoute_None [symmetric] orderLoop_start [of 0, symmetric] FirstChainageOrderFault_def [symmetric]
    by (auto simp: SnapToRoute_def assms(1) ss split: option.splits)
  show "SnapToRoute rt s = Inr s' \<Longrightarrow> s' = s\<lparr>us_Stops := map2 commitSnap (us_Stops s) snapped\<rparr>"
    by (auto simp: SnapToRoute_def assms(1) ss split: option.splits prod.splits)
qed

lemma SnapToRoute_line: "SnapToRoute rt s = Inr s' \<Longrightarrow> \<exists>line. ToPhysicsLine (rt_Geometry rt) = Inr line"
  by (cases "ToPhysicsLine (rt_Geometry rt)") (auto simp: SnapToRoute_def)

lemma map_commitSnap:
  assumes "length snapped = length stops"
  shows "map sp_ChainageM (map2 commitSnap stops snapped) = map sd_ChainageM snapped"
    "map sp_OffsetM (map2 commitSnap stops snapped) = map sd_OffsetM snapped"
    "map sp_Name (map2 commitSnap stops snapped) = map sp_Name stops"
    "map sp_Slug (map2 commitSnap stops snapped) = map sp_Slug stops"
    "map sp_Seq (map2 commitSnap stops snapped) = map sp_Seq stops"
  using assms by (induction rule: list_induct2) (simp_all add: commitSnap_def)

text \<open>
  C29: On a usable route, snapping succeeds exactly when every stop lies within the off-route
  threshold of the line and the stops run one way along it, in the order they were authored.
  It then keeps every stop's name, slug and sequence and nothing else of the service changes;
  the stops' chainages are monotone and lie on the line, and their offsets are within the
  threshold.
\<close>

theorem SnapToRoute_accepts:
  assumes "ToPhysicsLine (rt_Geometry rt) = Inr line"
  shows "((\<exists>s'. SnapToRoute rt s = Inr s') \<longleftrightarrow>
      (\<forall>sn \<in> set (snap (projectLinePlanar line) (map placementStop (us_Stops s))). sd_OffsetM sn \<le> 500) \<and>
      (sorted (map sd_ChainageM (snap (projectLinePlanar line) (map placementStop (us_Stops s)))) \<or>
       descending (map sd_ChainageM (snap (projectLinePlanar line) (map placementStop (us_Stops s)))))) \<and>
    (\<forall>s'. SnapToRoute rt s = Inr s' \<longrightarrow>
      s' = s\<lparr>us_Stops := us_Stops s'\<rparr> \<and>
      map sp_Name (us_Stops s') = map sp_Name (us_Stops s) \<and>
      map sp_Slug (us_Stops s') = map sp_Slug (us_Stops s) \<and>
      map sp_Seq (us_Stops s') = map sp_Seq (us_Stops s) \<and>
      (sorted (map sp_ChainageM (us_Stops s')) \<or> descending (map sp_ChainageM (us_Stops s'))) \<and>
      (\<forall>c \<in> set (map sp_ChainageM (us_Stops s')). 0 \<le> c \<and> c \<le> line_length line) \<and>
      (\<forall>d \<in> set (map sp_OffsetM (us_Stops s')). d \<le> 500))"
proof -
  define snapped where "snapped = snap (projectLinePlanar line) (map placementStop (us_Stops s))"
  have len: "length snapped = length (us_Stops s)" by (simp add: snapped_def snap_def)
  note E = SnapToRoute_eq [OF assms snapped_def]
  have bounds: "0 \<le> sd_ChainageM sn \<and> sd_ChainageM sn \<le> line_length line" if "sn \<in> set snapped" for sn
    using snap_chainage_bounds that ToPhysicsLine_length [OF assms] unfolding snapped_def by blast
  have ch: "\<forall>c \<in> set (map sd_ChainageM snapped). 0 \<le> c \<and> c \<le> line_length line" using bounds by simp
  have "s' = s\<lparr>us_Stops := us_Stops s'\<rparr> \<and> map sp_Name (us_Stops s') = map sp_Name (us_Stops s) \<and>
      map sp_Slug (us_Stops s') = map sp_Slug (us_Stops s) \<and> map sp_Seq (us_Stops s') = map sp_Seq (us_Stops s) \<and>
      (sorted (map sp_ChainageM (us_Stops s')) \<or> descending (map sp_ChainageM (us_Stops s'))) \<and>
      (\<forall>c \<in> set (map sp_ChainageM (us_Stops s')). 0 \<le> c \<and> c \<le> line_length line) \<and>
      (\<forall>d \<in> set (map sp_OffsetM (us_Stops s')). d \<le> 500)" if ok: "SnapToRoute rt s = Inr s'" for s'
  proof -
    have st: "us_Stops s' = map2 commitSnap (us_Stops s) snapped" and s': "s' = s\<lparr>us_Stops := us_Stops s'\<rparr>"
      using E(2) [OF ok] by simp_all
    have "\<forall>d \<in> set (map sd_OffsetM snapped). d \<le> 500" using E(1) ok by (auto simp: OffRouteThresholdM_def)
    moreover have "sorted (map sd_ChainageM snapped) \<or> descending (map sd_ChainageM snapped)" using E(1) ok by blast
    ultimately show ?thesis using s' ch unfolding st map_commitSnap [OF len] by blast
  qed
  with E(1) show ?thesis unfolding snapped_def [symmetric] OffRouteThresholdM_def by blast
qed

definition sampleAuthored :: UserService where
  "sampleAuthored = sampleUserService ''red'' [sampleStopPoint ''Main St'' 0 0, sampleStopPoint ''High St'' 2 1]"

definition sampleLine :: "Point list" where
  "sampleLine = [\<lparr>pt_Lng = 0, pt_Lat = 0\<rparr>, \<lparr>pt_Lng = 2, pt_Lat = 0\<rparr>]"

lemma sample_line: "ToPhysicsLine (rt_Geometry sampleRoute) = Inr sampleLine"
  by (simp add: ToPhysicsLine_def sampleRoute_def sampleLine_def toPoint_def)

lemma sample_snap_offsets:
  "map sd_OffsetM (snap (projectLinePlanar sampleLine) (map placementStop (us_Stops sampleAuthored))) = [0, 0]"
  by (simp add: sampleLine_def sampleAuthored_def sampleUserService_def sampleStopPoint_def snap_def snap1_def
      placementStop_def projectLinePlanar_def projectPoint_def degToRad_def snapPoint_def
      closestPointOnSegment_def planarDist_def)

lemma SnapToRoute_accepts_witness:
  "\<exists>s'. SnapToRoute sampleRoute sampleAuthored = Inr s' \<and> map sp_Name (us_Stops s') = [''Main St'', ''High St'']"
proof -
  let ?snapped = "snap (projectLinePlanar sampleLine) (map placementStop (us_Stops sampleAuthored))"
  obtain a b where "map sd_ChainageM ?snapped = [a, b]" by (simp add: sampleAuthored_def sampleUserService_def snap_def)
  then have "sorted (map sd_ChainageM ?snapped) \<or> descending (map sd_ChainageM ?snapped)" by auto
  moreover have "\<forall>sn \<in> set ?snapped. sd_OffsetM sn \<le> 500"
  proof
    fix sn assume "sn \<in> set ?snapped"
    then have "sd_OffsetM sn \<in> set (map sd_OffsetM ?snapped)" by simp
    then show "sd_OffsetM sn \<le> 500" by (simp only: sample_snap_offsets) simp
  qed
  moreover have "map sp_Name (us_Stops sampleAuthored) = [''Main St'', ''High St'']"
    by (simp add: sampleAuthored_def sampleUserService_def sampleStopPoint_def)
  ultimately show ?thesis using SnapToRoute_accepts [OF sample_line, of sampleAuthored] by metis
qed

end
