(* ===== verification/Auth.thy ===== *)
theory Auth
  imports User_Service "HOL-Library.Word"
begin

text \<open>
  Identity: accounts (\<open>internal/account/account.go\<close>), ownership checks
  (\<open>internal/auth/authz.go\<close>), the authentication middlewares
  (\<open>internal/auth/middleware.go\<close>), the password policy
  (\<open>internal/auth/password_policy.go\<close>) and identifiers (\<open>internal/ids/uuid.go\<close>).

  Parameters: \<open>hashToken\<close> is \<open>HashToken\<close> (a SHA-256 digest in hex), \<open>lookup\<close> the session store,
  \<open>simpleFold\<close> the Unicode case-folding table behind \<open>strings.EqualFold\<close> (each rune mapped to a
  representative of its case orbit), \<open>common\<close> the embedded list of common passwords; random bytes
  are an argument. A middleware either rejects a request or passes it on with the identity it
  put in the request context.
\<close>

unbundle bit_operations_syntax

subsection \<open>strings.TrimSpace and strings.EqualFold on byte strings\<close>

definition rune_width :: "nat list \<Rightarrow> nat" where
  "rune_width bs =
     (case bs of
        [] \<Rightarrow> 0
      | b0 # r \<Rightarrow>
          if 194 \<le> b0 \<and> b0 < 224 then (case r of b1 # _ \<Rightarrow> if cont b1 then 2 else 1 | _ \<Rightarrow> 1)
          else if 224 \<le> b0 \<and> b0 < 240 then
            (case r of
               b1 # b2 # _ \<Rightarrow>
                 if cont b1 \<and> cont b2 \<and> (b0 = 224 \<longrightarrow> 160 \<le> b1) \<and> (b0 = 237 \<longrightarrow> b1 < 160) then 3 else 1
             | _ \<Rightarrow> 1)
          else if 240 \<le> b0 \<and> b0 < 245 then
            (case r of
               b1 # b2 # b3 # _ \<Rightarrow>
                 if cont b1 \<and> cont b2 \<and> cont b3 \<and> (b0 = 240 \<longrightarrow> 144 \<le> b1) \<and> (b0 = 244 \<longrightarrow> b1 < 144)
                 then 4 else 1
             | _ \<Rightarrow> 1)
          else 1)"

lemma rune_width_pos: "bs \<noteq> [] \<Longrightarrow> 0 < rune_width bs"
  by (auto simp: rune_width_def split: list.splits)

text \<open>\<open>utf8.DecodeRune\<close> and \<open>utf8.DecodeLastRune\<close>: the rune and its width in bytes.\<close>

definition DecodeRune :: "string \<Rightarrow> rune \<times> nat" where
  "DecodeRune s = (let bs = map of_char s in (hd (utf8_runes bs), rune_width bs))"

definition DecodeLastRune :: "string \<Rightarrow> rune \<times> nat" where
  "DecodeLastRune s =
     (let n = length s;
          starts = filter (\<lambda>k. \<not> cont (of_char (s ! (n - k)))) (filter (\<lambda>k. k \<le> n) [1, 2, 3, 4]);
          k = (case starts of k # _ \<Rightarrow> k | [] \<Rightarrow> min n 4);
          (r, w) = DecodeRune (drop (n - k) s)
      in if w = k then (r, w) else (RuneError, 1))"

lemma DecodeRune_width: "s \<noteq> [] \<Longrightarrow> 0 < snd (DecodeRune s)"
  by (simp add: DecodeRune_def Let_def rune_width_pos)

lemma DecodeLastRune_width: "s \<noteq> [] \<Longrightarrow> 0 < snd (DecodeLastRune s)"
proof -
  assume "s \<noteq> []"
  then show ?thesis
    by (auto simp: DecodeLastRune_def Let_def filter_eq_Cons_iff split: list.splits prod.splits if_splits)
qed

function TrimLeftSpace :: "unicode_tables \<Rightarrow> string \<Rightarrow> string" where
  "TrimLeftSpace u s =
     (if s \<noteq> [] \<and> IsSpace u (fst (DecodeRune s)) then TrimLeftSpace u (drop (snd (DecodeRune s)) s) else s)"
  by auto
termination by (relation "measure (\<lambda>(u, s). length s)") (auto simp: DecodeRune_width)

function TrimRightSpace :: "unicode_tables \<Rightarrow> string \<Rightarrow> string" where
  "TrimRightSpace u s =
     (if s \<noteq> [] \<and> IsSpace u (fst (DecodeLastRune s))
      then TrimRightSpace u (take (length s - snd (DecodeLastRune s)) s) else s)"
  by auto
termination by (relation "measure (\<lambda>(u, s). length s)") (auto simp: DecodeLastRune_width)

declare TrimLeftSpace.simps [simp del] TrimRightSpace.simps [simp del]

definition TrimSpaceString :: "unicode_tables \<Rightarrow> string \<Rightarrow> string" where
  "TrimSpaceString u s = TrimRightSpace u (TrimLeftSpace u s)"

definition EqualFold :: "(rune \<Rightarrow> rune) \<Rightarrow> string \<Rightarrow> string \<Rightarrow> bool" where
  "EqualFold simpleFold s t \<longleftrightarrow> map simpleFold (runes s) = map simpleFold (runes t)"

subsection \<open>Accounts and ownership\<close>

record User =
  u_ID :: string
  u_Email :: string
  u_Name :: string
  u_IsAdmin :: bool
  u_CreatedAt :: gotime
  u_UpdatedAt :: gotime
  u_DisabledAt :: "gotime option"

definition zeroUser :: User where
  "zeroUser = \<lparr>u_ID = [], u_Email = [], u_Name = [], u_IsAdmin = False, u_CreatedAt = 0, u_UpdatedAt = 0,
     u_DisabledAt = None\<rparr>"

definition CanAccess :: "User \<Rightarrow> string option \<Rightarrow> bool" where
  "CanAccess user ownerID =
     (if u_IsAdmin user then True
      else (case ownerID of
              None \<Rightarrow> False
            | Some owner \<Rightarrow> if u_ID user = [] then False else owner = u_ID user))"

definition CanReference :: "User \<Rightarrow> string option \<Rightarrow> bool" where
  "CanReference user ownerID \<longleftrightarrow> ownerID = None \<or> CanAccess user ownerID"

subsection \<open>Middlewares\<close>

datatype admission =
    Rejected nat string
  | Next "User option"

definition BearerToken :: "unicode_tables \<Rightarrow> (rune \<Rightarrow> rune) \<Rightarrow> string \<Rightarrow> string option" where
  "BearerToken u simpleFold header =
     (let prefix = ''bearer '' in
      if length header < length prefix \<or> \<not> EqualFold simpleFold (take (length prefix) header) prefix then None
      else (let token = TrimSpaceString u (drop (length prefix) header) in
            if token = [] then None else Some token))"

definition unauthorized :: admission where
  "unauthorized = Rejected 401 ''authentication required''"

definition RequireAuth ::
  "(string \<Rightarrow> string) \<Rightarrow> (string \<Rightarrow> 'e + User option) \<Rightarrow> string option \<Rightarrow> admission" where
  "RequireAuth hashToken lookup bearer =
     (case bearer of
        None \<Rightarrow> unauthorized
      | Some token \<Rightarrow>
          (case lookup (hashToken token) of
             Inl _ \<Rightarrow> Rejected 500 ''internal error''
           | Inr None \<Rightarrow> unauthorized
           | Inr (Some user) \<Rightarrow> Next (Some user)))"

definition OptionalAuth ::
  "(string \<Rightarrow> string) \<Rightarrow> (string \<Rightarrow> 'e + User option) \<Rightarrow> string option \<Rightarrow> admission" where
  "OptionalAuth hashToken lookup bearer =
     (case bearer of
        None \<Rightarrow> Next None
      | Some token \<Rightarrow>
          (case lookup (hashToken token) of
             Inl _ \<Rightarrow> Next None
           | Inr None \<Rightarrow> Next None
           | Inr (Some user) \<Rightarrow> Next (Some user)))"

definition RequireAdmin ::
  "(string \<Rightarrow> string) \<Rightarrow> (string \<Rightarrow> 'e + User option) \<Rightarrow> string option \<Rightarrow> admission" where
  "RequireAdmin hashToken lookup bearer =
     (case RequireAuth hashToken lookup bearer of
        Next (Some user) \<Rightarrow> if u_IsAdmin user then Next (Some user) else Rejected 403 ''admin privileges required''
      | Next None \<Rightarrow> Rejected 403 ''admin privileges required''
      | Rejected s m \<Rightarrow> Rejected s m)"

definition RequireWorkerToken :: "string \<Rightarrow> string option \<Rightarrow> admission" where
  "RequireWorkerToken expected bearer =
     (if expected = [] then Rejected 503 ''worker API is not configured''
      else (case bearer of
              None \<Rightarrow> unauthorized
            | Some token \<Rightarrow> if token \<noteq> expected then unauthorized else Next None))"

subsection \<open>Password policy\<close>

abbreviation RuleMinLength :: string where "RuleMinLength \<equiv> ''min_length''"
abbreviation RuleMatchesEmail :: string where "RuleMatchesEmail \<equiv> ''matches_email''"
abbreviation RuleCommon :: string where "RuleCommon \<equiv> ''common''"

definition ToLowerRunes :: "unicode_tables \<Rightarrow> string \<Rightarrow> rune list" where
  "ToLowerRunes u s = map (ToLower u) (runes s)"

text \<open>\<open>common\<close> holds the lower-cased lines of the embedded list.\<close>

definition ValidatePassword ::
  "unicode_tables \<Rightarrow> (rune \<Rightarrow> rune) \<Rightarrow> rune list set \<Rightarrow> string \<Rightarrow> string \<Rightarrow> ValidationFaults option" where
  "ValidatePassword u simpleFold common pw email =
     (if pw = [] then Err [Whole ''password'' RuleRequired (Sprintf ''password is required'' [])]
      else Err (
        fault_if (length (runes pw) < 12) (Whole ''password'' RuleMinLength
          (Sprintf ''password must be at least 12 characters'' [])) @
        fault_if (length pw > 72) (Whole ''password'' RuleMaxLength
          (Sprintf ''password must be at most 72 bytes'' [])) @
        (let trimmed = TrimSpaceString u email in
         fault_if (trimmed \<noteq> [] \<and> EqualFold simpleFold pw trimmed) (Whole ''password'' RuleMatchesEmail
          (Sprintf ''password must not match the email address'' []))) @
        fault_if (ToLowerRunes u pw \<in> common) (Whole ''password'' RuleCommon
          (Sprintf ''password is too common'' []))))"

subsection \<open>UUIDs\<close>

definition hexDigit :: "8 word \<Rightarrow> char" where
  "hexDigit n = ''0123456789abcdef'' ! unat n"

definition hexByte :: "8 word \<Rightarrow> string" where
  "hexByte b = [hexDigit (drop_bit 4 b), hexDigit (b AND 15)]"

definition EncodeToString :: "8 word list \<Rightarrow> string" where
  "EncodeToString bs = concat (map hexByte bs)"

definition stampUUID :: "8 word list \<Rightarrow> 8 word list" where
  "stampUUID b = b[6 := (b ! 6 AND 0x0f) OR 0x40, 8 := (b ! 8 AND 0x3f) OR 0x80]"

definition formatUUID :: "string \<Rightarrow> string" where
  "formatUUID h = take 8 h @ ''-'' @ take 4 (drop 8 h) @ ''-'' @ take 4 (drop 12 h) @ ''-'' @
     take 4 (drop 16 h) @ ''-'' @ take 12 (drop 20 h)"

text \<open>\<open>NewUUID\<close>: \<open>random\<close> is what \<open>rand.Read\<close> filled the 16 bytes with, or its error.\<close>

definition NewUUID :: "'e + 8 word list \<Rightarrow> 'e + string" where
  "NewUUID random = bind_res random (\<lambda>b. Inr (formatUUID (EncodeToString (stampUUID b))))"

definition isHex :: "char \<Rightarrow> bool" where
  "isHex c \<longleftrightarrow> (CHR ''0'' \<le> c \<and> c \<le> CHR ''9'') \<or> (CHR ''a'' \<le> c \<and> c \<le> CHR ''f'') \<or> (CHR ''A'' \<le> c \<and> c \<le> CHR ''F'')"

definition uuidByte :: "nat \<Rightarrow> char \<Rightarrow> bool" where
  "uuidByte i c = (if i \<in> {8, 13, 18, 23} then c = CHR ''-'' else isHex c)"

definition IsUUID :: "string \<Rightarrow> bool" where
  "IsUUID s \<longleftrightarrow> length s = 36 \<and> list_all (\<lambda>(i, c). uuidByte i c) (enumerate 0 s)"

lemma hexDigit_isHex: "n < 16 \<Longrightarrow> isHex (''0123456789abcdef'' ! n)"
proof -
  assume "n < 16"
  then have "n \<in> set [0..<16]" by simp
  moreover have "\<forall>k \<in> set [0..<16]. isHex (''0123456789abcdef'' ! k)"
    by (simp add: upt_rec isHex_def)
  ultimately show ?thesis by blast
qed

lemma nibble_high: "unat (drop_bit 4 b) < 16" for b :: "8 word"
  using unsigned_less [of b, where 'a = nat] by (simp add: unat_drop_bit_eq drop_bit_eq_div [where 'a = nat] div_less_iff_less_mult)

lemma nibble_low: "unat (b AND 15) < 16" for b :: "8 word"
proof -
  have "b AND 15 = take_bit 4 b" by (simp add: take_bit_eq_mask mask_eq_exp_minus_1)
  then show ?thesis by (simp add: unsigned_take_bit_eq take_bit_eq_mod [where 'a = nat])
qed

lemma hexByte_isHex: "c \<in> set (hexByte b) \<Longrightarrow> isHex c"
proof -
  have "unat (drop_bit 4 b) < 16" "unat (b AND 15) < 16"
    using nibble_high [of b] nibble_low [of b] .
  then show "c \<in> set (hexByte b) \<Longrightarrow> isHex c"
    by (auto simp: hexByte_def hexDigit_def hexDigit_isHex)
qed

lemma length_EncodeToString: "length (EncodeToString bs) = 2 * length bs"
  by (induction bs) (simp_all add: EncodeToString_def hexByte_def)

lemma EncodeToString_isHex: "c \<in> set (EncodeToString bs) \<Longrightarrow> isHex c"
  by (auto simp: EncodeToString_def dest: hexByte_isHex)

lemma hexDigit_nibbles [simp]: "isHex (hexDigit (drop_bit 4 b))" "isHex (hexDigit (b AND 15))" for b :: "8 word"
  by (simp_all add: hexDigit_def hexDigit_isHex nibble_high nibble_low)

lemma version_nibble: "drop_bit 4 ((b AND 15) OR 64) = (4 :: 8 word)"
  by (simp add: drop_bit_and drop_bit_or)

lemma variant_nibble: "unat (drop_bit 4 ((b AND 63) OR 128) :: 8 word) \<in> {8, 9, 10, 11}"
proof -
  define k where "k = unat (take_bit 2 (drop_bit 4 b))"
  have "k < 4" by (simp add: k_def unsigned_take_bit_eq take_bit_eq_mod [where 'a = nat])
  then consider "k = 0" | "k = 1" | "k = 2" | "k = 3" by linarith
  then have "unat (word_of_nat k OR (8 :: 8 word)) \<in> {8, 9, 10, 11}" by cases simp_all
  moreover have "word_of_nat k = take_bit 2 (drop_bit 4 b)" by (simp add: k_def)
  moreover have "drop_bit 4 ((b AND 63) OR 128) = (take_bit 2 (drop_bit 4 b)) OR (8 :: 8 word)"
    by (simp add: drop_bit_and drop_bit_or take_bit_eq_mask mask_eq_exp_minus_1)
  ultimately show ?thesis by metis
qed

lemma length16E:
  assumes "length b = 16"
  shows "\<exists>b0 b1 b2 b3 b4 b5 b6 b7 b8 b9 b10 b11 b12 b13 b14 b15.
    b = [b0, b1, b2, b3, b4, b5, b6, b7, b8, b9, b10, b11, b12, b13, b14, b15]"
  using assms by (auto simp: numeral_eq_Suc length_Suc_conv)

lemma formatUUID_stamped:
  assumes "length b = 16"
  defines "s \<equiv> formatUUID (EncodeToString (stampUUID b))"
  shows "IsUUID s \<and> s ! 14 = CHR ''4'' \<and> s ! 19 \<in> set ''89ab''"
proof -
  obtain b0 b1 b2 b3 b4 b5 b6 b7 b8 b9 b10 b11 b12 b13 b14 b15 where
    b: "b = [b0, b1, b2, b3, b4, b5, b6, b7, b8, b9, b10, b11, b12, b13, b14, b15]"
    using length16E [OF assms(1)] by blast
  have "hexDigit (drop_bit 4 ((b8 AND 63) OR 128)) \<in> set ''89ab''"
    using variant_nibble [of b8] by (auto simp: hexDigit_def)
  then show ?thesis
    by (simp add: s_def b stampUUID_def EncodeToString_def hexByte_def formatUUID_def IsUUID_def uuidByte_def
        version_nibble del: drop_bit_or drop_bit_and) (simp add: hexDigit_def isHex_def)
qed

text \<open>
  C31: Whatever 16 random bytes were drawn, the identifier minted from them has the shape the
  handlers accept (\<open>IsUUID\<close>), with the version digit 4 and one of the four variant digits.
\<close>

theorem NewUUID_valid:
  assumes "length b = 16"
  shows "\<exists>s. NewUUID (Inr b) = Inr s \<and> IsUUID s \<and> s ! 14 = CHR ''4'' \<and> s ! 19 \<in> set ''89ab''"
  using formatUUID_stamped [OF assms] by (simp add: NewUUID_def)

lemma NewUUID_valid_witness: "\<exists>s. NewUUID (Inr (replicate 16 255)) = Inr s \<and> IsUUID s"
  using NewUUID_valid [of "replicate 16 255"] by auto

subsection \<open>What the middlewares let through\<close>

text \<open>
  C32: A request gets past \<open>RequireAuth\<close> exactly when its bearer token hashes to a live session,
  and carries that session's user; past \<open>RequireAdmin\<close> only if that user is an administrator; past
  \<open>RequireWorkerToken\<close> only with the configured token, and never while none is configured.
  \<open>OptionalAuth\<close> turns nobody away and attaches a user only for a live session.
\<close>

theorem middleware_gates:
  "(RequireAuth hashToken lookup bearer = Next who \<longleftrightarrow>
      (\<exists>token user. bearer = Some token \<and> lookup (hashToken token) = Inr (Some user) \<and> who = Some user)) \<and>
   (RequireAdmin hashToken lookup bearer = Next who \<longleftrightarrow>
      (\<exists>token user. bearer = Some token \<and> lookup (hashToken token) = Inr (Some user) \<and> u_IsAdmin user \<and> who = Some user)) \<and>
   (RequireWorkerToken expected bearer = Next who \<longleftrightarrow> expected \<noteq> [] \<and> bearer = Some expected \<and> who = None) \<and>
   (\<exists>who. OptionalAuth hashToken lookup bearer = Next who \<and>
      (who = None \<or> (\<exists>token. bearer = Some token \<and> lookup (hashToken token) = Inr who)))"
  by (auto simp: RequireAuth_def RequireAdmin_def RequireWorkerToken_def OptionalAuth_def unauthorized_def
      split: option.splits sum.splits if_splits)

lemma CanAccess_iff: "CanAccess user owner \<longleftrightarrow> u_IsAdmin user \<or> (u_ID user \<noteq> [] \<and> owner = Some (u_ID user))"
  by (auto simp: CanAccess_def split: option.splits)

end
