(* ===== verification/Database.thy ===== *)
theory Database
  imports Auth
begin

text \<open>
  The tables of \<open>internal/persistence/postgres\<close> the modelled operations read and write, as lists of
  rows, with the constraints of the migrations that decide what a statement does: primary and
  unique keys, foreign keys with \<open>ON DELETE CASCADE\<close>, integer columns of 32 bits and the check
  on stop slugs. A repository method is one atomic step on this state (the methods that span
  statements run in a transaction; those that do not are split where it matters).
  \<open>db_outages\<close> says which of the coming statements fail for a reason outside the model (a lost
  connection, a cancelled request); a failed transaction changes no table. Documents stored as
  JSON are kept as the values they encode. \<open>db_now\<close> is the database clock.
\<close>

record ServiceRow =
  sr_id :: string
  sr_slug :: string
  sr_route_id :: string
  sr_owner_id :: string
  sr_name :: string
  sr_subtext :: string
  sr_description :: string
  sr_vehicle :: VehicleParams
  sr_stops :: "ServiceStopPoint list"
  sr_wait_policy :: "string option"
  sr_wait_secs :: "int option"
  sr_created_at :: gotime
  sr_updated_at :: gotime

record WindowRow =
  wr_service :: string
  wr_seq :: nat
  wr_window :: FrequencyWindow

record UserRow =
  ur_user :: User
  ur_password_hash :: string

record Session =
  ss_TokenHash :: string
  ss_UserID :: string
  ss_CreatedAt :: gotime
  ss_ExpiresAt :: gotime

record HandoverRow =
  hr_id :: string
  hr_service :: string
  hr_from :: string
  hr_to :: string
  hr_status :: string
  hr_created_at :: gotime
  hr_decided_at :: "gotime option"
  hr_expires_at :: gotime
  hr_forced_by :: "string option"

record ScenarioRow =
  cr_id :: string
  cr_slug :: string
  cr_owner_id :: string
  cr_name :: string
  cr_description :: string
  cr_interchange_pairs :: "InterchangePair list"
  cr_wait_policy :: "string option"
  cr_wait_secs :: "int option"
  cr_created_at :: gotime
  cr_updated_at :: gotime

record MemberRow =
  mb_scenario :: string
  mb_service :: string

record PublicationRow =
  pb_service :: string
  pb_compile_job :: string
  pb_name :: string
  pb_subtext :: string
  pb_description :: string
  pb_routes :: "Route list"
  pb_published_at :: gotime
  pb_first_published_at :: gotime

record TimeSetRow =
  ts_scenario :: string
  ts_provenance :: string
  ts_source :: string

record SegmentRow =
  sw_scenario :: string
  sw_segment :: SegmentTime

text \<open>
  \<open>db_curated\<close> is the table \<open>scenarios\<close>, \<open>db_line_services\<close> the table \<open>services\<close> with the child
  rows of \<open>service_stops\<close> and \<open>frequency_windows\<close> in the order they were inserted, \<open>db_links\<close> the
  table \<open>scenario_service\<close>; \<open>db_services\<close>, \<open>db_scenarios\<close> and \<open>db_members\<close> are the tables
  \<open>user_services\<close>, \<open>user_scenarios\<close> and \<open>user_scenario_services\<close>.
\<close>

record Db =
  db_users :: "UserRow list"
  db_sessions :: "Session list"
  db_routes :: "Route list"
  db_services :: "ServiceRow list"
  db_windows :: "WindowRow list"
  db_scenarios :: "ScenarioRow list"
  db_members :: "MemberRow list"
  db_handovers :: "HandoverRow list"
  db_jobs :: "Job list"
  db_publications :: "PublicationRow list"
  db_curated :: "Scenario list"
  db_stations :: "Station list"
  db_vehicle_types :: "VehicleType list"
  db_line_services :: "Service list"
  db_links :: "(string \<times> string) list"
  db_time_sets :: "TimeSetRow list"
  db_segments :: "SegmentRow list"
  db_now :: gotime
  db_outages :: "bool list"

datatype db_error =
    DbFault string
  | UniqueViolation string
  | ForeignKeyViolation string
  | CheckViolation string
  | IntegerOutOfRange string
  | NoSuchRow string string
  | UuidSource
  | NoFreeRouteSlug string
  | ErrHandoverPending
  | ErrHandoverNotFound
  | ErrHandoverNotPending
  | ErrHandoverSenderNotOwner
  | ErrHandoverRecipientDisabled
  | ErrHandoverToOwner
  | ServiceInScenariosError "string list"
  | ErrStaleGraph

type_synonym 'a repo = "Db \<Rightarrow> (db_error + 'a) \<times> Db"

text \<open>
  A statement or transaction: it may meet an outage; otherwise its body runs, and an error of
  the body rolls the tables back.
\<close>

definition transact :: "string \<Rightarrow> (Db \<Rightarrow> db_error + 'a \<times> Db) \<Rightarrow> 'a repo" where
  "transact op body db =
     (case db_outages db of
        True # rest \<Rightarrow> (Inl (DbFault op), db\<lparr>db_outages := rest\<rparr>)
      | outages \<Rightarrow>
          (let db' = db\<lparr>db_outages := tl outages\<rparr> in
           case body db' of
             Inl e \<Rightarrow> (Inl e, db')
           | Inr (x, db'') \<Rightarrow> (Inr x, db'')))"

definition select :: "string \<Rightarrow> (Db \<Rightarrow> 'a) \<Rightarrow> 'a repo" where
  "select op q = transact op (\<lambda>db. Inr (q db, db))"

text \<open>Rows and their updates.\<close>

definition update_where :: "('r \<Rightarrow> bool) \<Rightarrow> ('r \<Rightarrow> 'r) \<Rightarrow> 'r list \<Rightarrow> 'r list" where
  "update_where p f rows = map (\<lambda>r. if p r then f r else r) rows"

definition delete_where :: "('r \<Rightarrow> bool) \<Rightarrow> 'r list \<Rightarrow> 'r list" where
  "delete_where p rows = filter (\<lambda>r. \<not> p r) rows"

definition int4 :: "int \<Rightarrow> bool" where
  "int4 n \<longleftrightarrow> - (2 ^ 31) \<le> n \<and> n < 2 ^ 31"

definition require :: "bool \<Rightarrow> 'e \<Rightarrow> 'e + unit" where
  "require c e = (if c then Inr () else Inl e)"

lemma require_Inr [simp]: "require c e = Inr x \<longleftrightarrow> c"
  by (simp add: require_def)

subsection \<open>Reasoning about a transaction\<close>

text \<open>What a transaction leaves behind: the old tables, or those of a body that succeeded.\<close>

lemma transact_cases [consumes 1, case_names failed committed]:
  assumes "transact op body db = (res, db')"
  obtains (failed) e rest where "res = Inl e" "db' = db\<lparr>db_outages := rest\<rparr>"
    | (committed) x rest where "res = Inr x" "body (db\<lparr>db_outages := rest\<rparr>) = Inr (x, db')"
  using assms unfolding transact_def Let_def
  by (auto split: list.splits bool.splits sum.splits prod.splits)

lemma transact_preserves:
  assumes "I db" and outages: "\<And>rest. I db \<Longrightarrow> I (db\<lparr>db_outages := rest\<rparr>)"
    and body: "\<And>db x db'. I db \<Longrightarrow> body db = Inr (x, db') \<Longrightarrow> I db'"
  shows "I (snd (transact op body db))"
proof -
  obtain res db' where t: "transact op body db = (res, db')" by fastforce
  then show ?thesis
  proof (cases rule: transact_cases)
    case (failed e rest)
    with assms t show ?thesis by simp
  next
    case (committed x rest)
    from body [OF outages [OF assms(1)] committed(2)] t show ?thesis by simp
  qed
qed

lemma transact_committed: "transact op body db = (Inr x, db') \<Longrightarrow> \<exists>rest. body (db\<lparr>db_outages := rest\<rparr>) = Inr (x, db')"
  by (erule transact_cases) auto

text \<open>A table no statement of the body writes.\<close>

lemma transact_table:
  assumes "\<And>db r. f (db\<lparr>db_outages := r\<rparr>) = f db" and "\<And>db x db'. body db = Inr (x, db') \<Longrightarrow> f db' = f db"
  shows "f (snd (transact op body db)) = f db"
  by (rule transact_preserves [where I = "\<lambda>d. f d = f db"]) (use assms in auto)

lemma select_cases [consumes 1, case_names failed found]:
  assumes "select op q db = (res, db')"
  obtains (failed) e rest where "res = Inl e" "db' = db\<lparr>db_outages := rest\<rparr>"
    | (found) rest where "res = Inr (q (db\<lparr>db_outages := rest\<rparr>))" "db' = db\<lparr>db_outages := rest\<rparr>"
  using assms unfolding select_def
proof (cases rule: transact_cases)
  case (failed e rest)
  then show thesis by (rule that(1))
next
  case (committed x rest)
  note e = committed(2) [unfolded sum.inject prod.inject]
  from committed(1) e [THEN conjunct1, symmetric] have "res = Inr (q (db\<lparr>db_outages := rest\<rparr>))" by (rule trans [OF _ arg_cong])
  then show thesis using e [THEN conjunct2, symmetric] by (rule that(2))
qed

lemma calm_outages: "db_outages db = [] \<Longrightarrow> db\<lparr>db_outages := []\<rparr> = db"
  by (cases db) simp

lemma transact_calm: "db_outages db = [] \<Longrightarrow>
    transact op body db = (case body db of Inl e \<Rightarrow> (Inl e, db) | Inr (x, db') \<Rightarrow> (Inr x, db'))"
  by (simp add: transact_def Let_def calm_outages)

lemma select_calm: "db_outages db = [] \<Longrightarrow> select op q db = (Inr (q db), db)"
  by (simp add: select_def transact_calm)

lemma set_update_where: "r \<in> set (update_where p f rows) \<longleftrightarrow>
    (\<exists>r0 \<in> set rows. r = (if p r0 then f r0 else r0))"
  by (auto simp: update_where_def)

lemma update_where_image: "r \<in> set rows \<Longrightarrow> (if p r then f r else r) \<in> set (update_where p f rows)"
  by (auto simp: update_where_def)

lemma update_where_key: "(\<And>r. key (f r) = key r) \<Longrightarrow> map key (update_where p f rows) = map key rows"
  by (simp add: update_where_def)

lemma set_delete_where [simp]: "r \<in> set (delete_where p rows) \<longleftrightarrow> r \<in> set rows \<and> \<not> p r"
  by (auto simp: delete_where_def)

end
