(* ===== verification/Service_Store.thy ===== *)
theory Service_Store
  imports Database
begin

text \<open>
  The repository of authored services (\<open>internal/persistence/postgres/userservice.go\<close> and
  \<open>boarding_wait.go\<close>, \<open>GetRouteBySlug\<close> and \<open>ListRoutesByIDs\<close> of \<open>postgres.go\<close>) over the tables
  of \<open>Database\<close>. A service is split into a row and its frequency windows; a read joins the
  row with its route and collects the windows in sequence.
\<close>

subsection \<open>Boarding wait columns\<close>

definition boardingWaitArgs :: "BoardingWaitOverride option \<Rightarrow> string option \<times> int option" where
  "boardingWaitArgs ov =
     (case ov of
        None \<Rightarrow> (None, None)
      | Some b \<Rightarrow>
          (Some (bo_Policy b),
           if bo_Policy b = BoardingWaitFixed \<and> bo_Secs b \<noteq> None then bo_Secs b else None))"

definition scanBoardingWait :: "string option \<Rightarrow> int option \<Rightarrow> BoardingWaitOverride option" where
  "scanBoardingWait kind secs =
     (case kind of
        None \<Rightarrow> None
      | Some k \<Rightarrow> if k = [] then None else Some \<lparr>bo_Policy = k, bo_Secs = secs\<rparr>)"

subsection \<open>Frequency windows\<close>

definition windowRows :: "string \<Rightarrow> FrequencyWindow list \<Rightarrow> WindowRow list" where
  "windowRows serviceID windows =
     map (\<lambda>(i, fw). \<lparr>wr_service = serviceID, wr_seq = i, wr_window = fw\<rparr>) (enumerate 0 windows)"

definition insertFrequencyWindows ::
  "string \<Rightarrow> FrequencyWindow list \<Rightarrow> WindowRow list \<Rightarrow> db_error + WindowRow list" where
  "insertFrequencyWindows serviceID windows rows =
     bind_res (require (list_all (\<lambda>fw. int4 (fw_HeadwayS fw)) windows) (IntegerOutOfRange ''headway_s'')) (\<lambda>_.
     bind_res (require (list_all (\<lambda>r. \<not> list_ex (\<lambda>q. wr_service q = wr_service r \<and> wr_seq q = wr_seq r) rows)
         (windowRows serviceID windows)) (UniqueViolation ''user_service_frequency_windows'')) (\<lambda>_.
       Inr (rows @ windowRows serviceID windows)))"

definition listUserFrequencyWindows :: "Db \<Rightarrow> string \<Rightarrow> FrequencyWindow list" where
  "listUserFrequencyWindows db serviceID =
     map wr_window (SliceStable (less_by wr_seq) (filter (\<lambda>r. wr_service r = serviceID) (db_windows db)))"

subsection \<open>Reads\<close>

definition scanUserService :: "ServiceRow \<Rightarrow> Route \<Rightarrow> UserService" where
  "scanUserService s r =
     \<lparr>us_ID = sr_id s, us_Slug = sr_slug s, us_RouteID = sr_route_id s, us_RouteSlug = rt_Slug r, us_RouteName = rt_Name r,
      us_OwnerID = sr_owner_id s, us_Name = sr_name s, us_Subtext = sr_subtext s, us_Description = sr_description s,
      us_Vehicle = sr_vehicle s, us_Stops = sr_stops s, us_FrequencyWindows = [],
      us_CreatedAt = sr_created_at s, us_UpdatedAt = sr_updated_at s, us_PublishedAt = None,
      us_BoardingWait = scanBoardingWait (sr_wait_policy s) (sr_wait_secs s),
      us_BoardingWaitPolicy = [], us_BoardingWaitSecs = 0, us_BoardingWaitSource = []\<rparr>"

text \<open>\<open>user_services AS s JOIN routes AS r ON r.id = s.route_id\<close>\<close>

definition joinRoute :: "Db \<Rightarrow> ServiceRow \<Rightarrow> UserService list" where
  "joinRoute db s = map (scanUserService s) (filter (\<lambda>r. rt_ID r = sr_route_id s) (db_routes db))"

definition withWindows :: "Db \<Rightarrow> UserService \<Rightarrow> UserService" where
  "withWindows db svc = svc\<lparr>us_FrequencyWindows := listUserFrequencyWindows db (us_ID svc)\<rparr>"

definition getUserServiceBy :: "string \<Rightarrow> (ServiceRow \<Rightarrow> bool) \<Rightarrow> UserService option repo" where
  "getUserServiceBy op p = select op (\<lambda>db.
     case concat (map (joinRoute db) (filter p (db_services db))) of
       [] \<Rightarrow> None
     | svc # _ \<Rightarrow> Some (withWindows db svc))"

definition GetUserServiceByID :: "string \<Rightarrow> UserService option repo" where
  "GetUserServiceByID i = getUserServiceBy ''GetUserServiceByID'' (\<lambda>s. sr_id s = i)"

definition GetUserServiceBySlug :: "string \<Rightarrow> UserService option repo" where
  "GetUserServiceBySlug slug = getUserServiceBy ''GetUserServiceBySlug'' (\<lambda>s. sr_slug s = slug)"

definition newest_first :: "UserService \<Rightarrow> UserService \<Rightarrow> bool" where
  "newest_first a b \<longleftrightarrow> us_UpdatedAt b < us_UpdatedAt a \<or> (us_UpdatedAt a = us_UpdatedAt b \<and> us_ID a < us_ID b)"

definition oldest_first :: "UserService \<Rightarrow> UserService \<Rightarrow> bool" where
  "oldest_first a b \<longleftrightarrow> us_CreatedAt a < us_CreatedAt b \<or> (us_CreatedAt a = us_CreatedAt b \<and> us_ID a < us_ID b)"

text \<open>\<open>LEFT JOIN service_publications AS sp ON sp.user_service_id = s.id\<close>\<close>

definition withPublishedAt :: "Db \<Rightarrow> UserService \<Rightarrow> UserService" where
  "withPublishedAt db svc =
     svc\<lparr>us_PublishedAt := map_option pb_published_at (List.find (\<lambda>p. pb_service p = us_ID svc) (db_publications db))\<rparr>"

definition ListUserServicesByOwner :: "string \<Rightarrow> UserService list repo" where
  "ListUserServicesByOwner ownerID = select ''ListUserServicesByOwner'' (\<lambda>db.
     map (withWindows db) (SliceStable newest_first
       (map (withPublishedAt db) (concat (map (joinRoute db) (filter (\<lambda>s. sr_owner_id s = ownerID) (db_services db)))))))"

definition ListUserServicesByIDs :: "string list \<Rightarrow> UserService list repo" where
  "ListUserServicesByIDs ids =
     (if ids = [] then (\<lambda>db. (Inr [], db))
      else select ''ListUserServicesByIDs'' (\<lambda>db.
        map (withWindows db) (SliceStable oldest_first
          (concat (map (joinRoute db) (filter (\<lambda>s. sr_id s \<in> set ids) (db_services db)))))))"

definition GetRouteBySlug :: "string \<Rightarrow> Route option repo" where
  "GetRouteBySlug slug = select ''GetRouteBySlug'' (\<lambda>db. List.find (\<lambda>r. rt_Slug r = slug) (db_routes db))"

definition ListRoutesByIDs :: "string list \<Rightarrow> Route list repo" where
  "ListRoutesByIDs ids =
     (if ids = [] then (\<lambda>db. (Inr [], db))
      else select ''ListRoutesByIDs'' (\<lambda>db. SliceStable (less_by rt_ID) (filter (\<lambda>r. rt_ID r \<in> set ids) (db_routes db))))"

subsection \<open>Writes\<close>

definition serviceRow :: "UserService \<Rightarrow> gotime \<Rightarrow> ServiceRow" where
  "serviceRow svc now =
     (let (kind, secs) = boardingWaitArgs (us_BoardingWait svc) in
      \<lparr>sr_id = us_ID svc, sr_slug = us_Slug svc, sr_route_id = us_RouteID svc, sr_owner_id = us_OwnerID svc,
       sr_name = us_Name svc, sr_subtext = us_Subtext svc, sr_description = us_Description svc,
       sr_vehicle = us_Vehicle svc, sr_stops = us_Stops svc, sr_wait_policy = kind, sr_wait_secs = secs,
       sr_created_at = now, sr_updated_at = now\<rparr>)"

text \<open>The constraints of \<open>user_services\<close> on a row being written, keys apart.\<close>

definition checkServiceRow :: "Db \<Rightarrow> ServiceRow \<Rightarrow> db_error + unit" where
  "checkServiceRow db row =
     bind_res (require (list_ex (\<lambda>r. rt_ID r = sr_route_id row) (db_routes db)) (ForeignKeyViolation ''route_id'')) (\<lambda>_.
     bind_res (require (list_ex (\<lambda>u. u_ID (ur_user u) = sr_owner_id row) (db_users db)) (ForeignKeyViolation ''owner_id'')) (\<lambda>_.
     bind_res (require (list_all (\<lambda>stop. sp_Slug stop \<noteq> []) (sr_stops row))
         (CheckViolation ''user_services_stops_have_slugs'')) (\<lambda>_.
       require (case sr_wait_secs row of None \<Rightarrow> True | Some n \<Rightarrow> int4 n) (IntegerOutOfRange ''boarding_wait_fixed_secs''))))"

definition CreateUserService :: "UserService \<Rightarrow> unit repo" where
  "CreateUserService svc = transact ''CreateUserService'' (\<lambda>db.
     let row = serviceRow svc (db_now db) in
     bind_res (require (\<not> list_ex (\<lambda>s. sr_id s = us_ID svc) (db_services db)) (UniqueViolation ''user_services_pkey'')) (\<lambda>_.
     bind_res (require (\<not> list_ex (\<lambda>s. sr_slug s = us_Slug svc) (db_services db)) (UniqueViolation ''user_services_slug_key'')) (\<lambda>_.
     bind_res (checkServiceRow db row) (\<lambda>_.
     bind_res (insertFrequencyWindows (us_ID svc) (us_FrequencyWindows svc) (db_windows db)) (\<lambda>windows.
       Inr ((), db\<lparr>db_services := db_services db @ [row], db_windows := windows\<rparr>))))))"

text \<open>The columns \<open>UpdateUserService\<close> sets: never the id, slug, owner or creation time.\<close>

definition updatedRow :: "UserService \<Rightarrow> gotime \<Rightarrow> ServiceRow \<Rightarrow> ServiceRow" where
  "updatedRow svc now s =
     (let (kind, secs) = boardingWaitArgs (us_BoardingWait svc) in
      s\<lparr>sr_route_id := us_RouteID svc, sr_name := us_Name svc, sr_subtext := us_Subtext svc,
        sr_description := us_Description svc, sr_vehicle := us_Vehicle svc, sr_stops := us_Stops svc,
        sr_wait_policy := kind, sr_wait_secs := secs, sr_updated_at := now\<rparr>)"

definition UpdateUserService :: "UserService \<Rightarrow> unit repo" where
  "UpdateUserService svc = transact ''UpdateUserService'' (\<lambda>db.
     let hit = (\<lambda>s. sr_id s = us_ID svc); upd = updatedRow svc (db_now db) in
     bind_res (map_res (checkServiceRow db) (map upd (filter hit (db_services db)))) (\<lambda>_.
     bind_res (require (list_ex hit (db_services db)) (NoSuchRow ''UpdateUserService'' (us_ID svc))) (\<lambda>_.
     bind_res (insertFrequencyWindows (us_ID svc) (us_FrequencyWindows svc)
         (delete_where (\<lambda>r. wr_service r = us_ID svc) (db_windows db))) (\<lambda>windows.
       Inr ((), db\<lparr>db_services := update_where hit upd (db_services db), db_windows := windows\<rparr>)))))"

text \<open>Deleting a service takes its windows, memberships, handovers, compile jobs and publication with it.\<close>

definition DeleteUserService :: "string \<Rightarrow> unit repo" where
  "DeleteUserService i = transact ''DeleteUserService'' (\<lambda>db.
     bind_res (require (list_ex (\<lambda>s. sr_id s = i) (db_services db)) (NoSuchRow ''DeleteUserService'' i)) (\<lambda>_.
       Inr ((), db\<lparr>db_services := delete_where (\<lambda>s. sr_id s = i) (db_services db),
                   db_windows := delete_where (\<lambda>r. wr_service r = i) (db_windows db),
                   db_members := delete_where (\<lambda>m. mb_service m = i) (db_members db),
                   db_handovers := delete_where (\<lambda>h. hr_service h = i) (db_handovers db),
                   db_jobs := delete_where (\<lambda>j. job_UserServiceID j = Some i) (db_jobs db),
                   db_publications := delete_where (\<lambda>p. pb_service p = i) (db_publications db)\<rparr>)))"

subsection \<open>Boarding waits survive the columns\<close>

lemma scan_boardingWaitArgs:
  "scanBoardingWait (fst (boardingWaitArgs ov)) (snd (boardingWaitArgs ov)) =
     (case ov of
        None \<Rightarrow> None
      | Some b \<Rightarrow> if bo_Policy b = [] then None
                  else Some \<lparr>bo_Policy = bo_Policy b, bo_Secs = (if bo_Policy b = BoardingWaitFixed then bo_Secs b else None)\<rparr>)"
  by (auto simp: scanBoardingWait_def boardingWaitArgs_def split: option.splits)

lemma good_override_stored:
  assumes "good_override ov"
  shows "good_override (scanBoardingWait (fst (boardingWaitArgs ov)) (snd (boardingWaitArgs ov)))"
  using assms unfolding scan_boardingWaitArgs
  by (auto simp: good_override_def Override_Parse_def ParseBoardingWaitPolicy_def Let_def split: option.splits if_splits)

subsection \<open>The frequency windows of one service\<close>

lemma windowRows_filter [simp]: "filter (\<lambda>r. wr_service r = k) (windowRows i ws) = (if i = k then windowRows i ws else [])"
  by (auto simp: windowRows_def filter_empty_conv filter_id_conv)

lemma sorted_windowRows: "sorted_wrt (\<lambda>x y. \<not> less_by wr_seq y x) (windowRows i ws)"
proof -
  have "map wr_seq (windowRows i ws) = map fst (enumerate 0 ws)"
    by (simp add: windowRows_def case_prod_beta comp_def)
  then have "sorted (map wr_seq (windowRows i ws))" by simp
  then show ?thesis by (simp add: sorted_wrt_map less_by_def not_less)
qed

lemma windows_windowRows: "map wr_window (SliceStable (less_by wr_seq) (windowRows i ws)) = ws"
  by (simp only: by_key.SliceStable_idem [OF sorted_windowRows]) (simp add: windowRows_def map_enumerate_snd case_prod_beta comp_def)

lemma insertFrequencyWindows_Inr: "insertFrequencyWindows i ws rows = Inr rows' \<Longrightarrow> rows' = rows @ windowRows i ws"
  by (auto simp: insertFrequencyWindows_def)

lemma windowRows_service: "w \<in> set (windowRows i ws) \<Longrightarrow> wr_service w = i"
  by (auto simp: windowRows_def)

subsection \<open>The invariant of the stored services\<close>

text \<open>
  A service the compiler can take: a minted slug, at least two stops carrying the identities
  minted from it, positive vehicle limits, a parsable wait, and disjoint frequency windows.
\<close>

definition fit :: "unicode_tables \<Rightarrow> UserService \<Rightarrow> bool" where
  "fit u svc \<longleftrightarrow> clean_slug (us_Slug svc) \<and> 2 \<le> length (us_Stops svc) \<and>
     map sp_Slug (us_Stops svc) = StopSlugs u svc \<and>
     0 < vp_MaxSpeedKMH (us_Vehicle svc) \<and> 0 < vp_AccelerationMS2 (us_Vehicle svc) \<and>
     0 < vp_DecelerationMS2 (us_Vehicle svc) \<and> 0 \<le> vp_DwellS (us_Vehicle svc) \<and>
     good_override (us_BoardingWait svc) \<and>
     list_all (good_window u) (us_FrequencyWindows svc) \<and> sorted_wrt windows_apart (us_FrequencyWindows svc)"

abbreviation stored :: "Db \<Rightarrow> ServiceRow \<Rightarrow> Route \<Rightarrow> UserService" where
  "stored db s r \<equiv> withWindows db (scanUserService s r)"

definition services_inv :: "unicode_tables \<Rightarrow> Db \<Rightarrow> bool" where
  "services_inv u db \<longleftrightarrow>
     distinct (map sr_id (db_services db)) \<and> distinct (map sr_slug (db_services db)) \<and>
     wr_service ` set (db_windows db) \<subseteq> sr_id ` set (db_services db) \<and>
     (\<forall>s \<in> set (db_services db). \<forall>r. fit u (stored db s r))"

text \<open>Two stored services that the writer of one of them may confuse: same id, same slug.\<close>

definition same_identity :: "UserService \<Rightarrow> Db \<Rightarrow> bool" where
  "same_identity svc db \<longleftrightarrow> (\<forall>s \<in> set (db_services db). sr_id s = us_ID svc \<longrightarrow> sr_slug s = us_Slug svc)"

lemma services_inv_cong:
  assumes "db_services db' = db_services db" and "db_windows db' = db_windows db"
  shows "services_inv u db' \<longleftrightarrow> services_inv u db" and "same_identity svc db' \<longleftrightarrow> same_identity svc db"
  using assms by (simp_all add: services_inv_def same_identity_def withWindows_def listUserFrequencyWindows_def)

lemma services_inv_outages [simp]:
  "services_inv u (db\<lparr>db_outages := r\<rparr>) \<longleftrightarrow> services_inv u db"
  "same_identity svc (db\<lparr>db_outages := r\<rparr>) \<longleftrightarrow> same_identity svc db"
  by (rule services_inv_cong; simp)+

lemma StopSlugs_cong:
  "us_Slug a = us_Slug b \<Longrightarrow> us_Stops a = us_Stops b \<Longrightarrow> StopSlugs u a = StopSlugs u b"
  by (simp add: StopSlugs_def)

lemma fit_stored:
  assumes "fit u svc" and "us_Slug svc = sr_slug s" and "sr_vehicle s = us_Vehicle svc" and "sr_stops s = us_Stops svc"
    and "(sr_wait_policy s, sr_wait_secs s) = boardingWaitArgs (us_BoardingWait svc)"
    and "listUserFrequencyWindows db (sr_id s) = us_FrequencyWindows svc"
  shows "fit u (stored db s r)"
proof -
  have "StopSlugs u (stored db s r) = StopSlugs u svc"
    by (rule StopSlugs_cong) (use assms in \<open>simp_all add: withWindows_def scanUserService_def\<close>)
  moreover have "good_override (scanBoardingWait (sr_wait_policy s) (sr_wait_secs s))"
    using good_override_stored [of "us_BoardingWait svc"] assms(1,5) by (simp add: fit_def) (metis fst_conv snd_conv)
  ultimately show ?thesis
    using assms by (simp add: fit_def withWindows_def scanUserService_def)
qed

lemma fit_windows_cong:
  "listUserFrequencyWindows db' (sr_id s) = listUserFrequencyWindows db (sr_id s) \<Longrightarrow> stored db' s r = stored db s r"
  by (simp add: withWindows_def scanUserService_def)

lemma create_keeps:
  assumes inv: "services_inv u db" and fit: "fit u svc"
    and new: "us_ID svc \<notin> sr_id ` set (db_services db)" "us_Slug svc \<notin> sr_slug ` set (db_services db)"
    and db': "db' = db\<lparr>db_services := db_services db @ [serviceRow svc (db_now db)],
                db_windows := db_windows db @ windowRows (us_ID svc) (us_FrequencyWindows svc)\<rparr>"
  shows "services_inv u db'"
proof -
  let ?row = "serviceRow svc (db_now db)"
  have row: "sr_id ?row = us_ID svc" "sr_slug ?row = us_Slug svc" "sr_vehicle ?row = us_Vehicle svc"
    "sr_stops ?row = us_Stops svc" "(sr_wait_policy ?row, sr_wait_secs ?row) = boardingWaitArgs (us_BoardingWait svc)"
    by (simp_all add: serviceRow_def split: prod.splits)
  have none: "filter (\<lambda>r. wr_service r = us_ID svc) (db_windows db) = []"
  proof -
    have "us_ID svc \<notin> wr_service ` set (db_windows db)" using inv new(1) by (auto simp: services_inv_def)
    then show ?thesis by (auto simp: filter_empty_conv image_iff)
  qed
  have "fit u (stored db' ?row r)" for r
    by (rule fit_stored [OF fit]) (use row none in \<open>simp_all add: db' listUserFrequencyWindows_def windows_windowRows\<close>)
  moreover have "fit u (stored db' s r)" if s: "s \<in> set (db_services db)" for s r
  proof -
    from s new(1) have "sr_id s \<noteq> us_ID svc" by (metis imageI)
    then have "stored db' s r = stored db s r"
      by (intro fit_windows_cong) (simp add: db' listUserFrequencyWindows_def)
    with inv s show ?thesis by (simp add: services_inv_def)
  qed
  ultimately show ?thesis
    using inv new row(1,2) windowRows_service by (auto simp: services_inv_def db')
qed

lemma CreateUserService_keeps:
  assumes "services_inv u db" and fit: "fit u svc"
  shows "services_inv u (snd (CreateUserService svc db))"
  unfolding CreateUserService_def
proof (rule transact_preserves [where I = "services_inv u", OF assms(1)], goal_cases outage body)
  case (body db x db')
  then show ?case
    by (intro create_keeps [OF body(1) fit]) (auto simp: Let_def list_ex_iff dest!: insertFrequencyWindows_Inr)
qed simp

lemma update_keeps:
  assumes inv: "services_inv u db" and fit: "fit u svc" and ident: "same_identity svc db"
    and ex: "us_ID svc \<in> sr_id ` set (db_services db)"
    and db': "db' = db\<lparr>db_services := update_where (\<lambda>s. sr_id s = us_ID svc) (updatedRow svc (db_now db)) (db_services db),
      db_windows := delete_where (\<lambda>r. wr_service r = us_ID svc) (db_windows db) @ windowRows (us_ID svc) (us_FrequencyWindows svc)\<rparr>"
  shows "services_inv u db'"
proof -
  let ?upd = "updatedRow svc (db_now db)"
  have upd: "sr_id (?upd s) = sr_id s" "sr_slug (?upd s) = sr_slug s" "sr_vehicle (?upd s) = us_Vehicle svc"
    "sr_stops (?upd s) = us_Stops svc" "(sr_wait_policy (?upd s), sr_wait_secs (?upd s)) = boardingWaitArgs (us_BoardingWait svc)" for s
    by (simp_all add: updatedRow_def split: prod.splits)
  have keys: "map sr_id (db_services db') = map sr_id (db_services db)" "map sr_slug (db_services db') = map sr_slug (db_services db)"
    by (simp_all add: db' update_where_key upd)
  have "fit u (stored db' s r)" if "s \<in> set (db_services db')" for s r
  proof -
    from that obtain s0 where s0: "s0 \<in> set (db_services db)" "s = (if sr_id s0 = us_ID svc then ?upd s0 else s0)"
      by (auto simp: db' set_update_where)
    show ?thesis
    proof (cases "sr_id s0 = us_ID svc")
      case True
      with s0 ident have "sr_slug s = us_Slug svc" by (simp add: same_identity_def upd)
      with True s0(2) show ?thesis
        by (intro fit_stored [OF fit])
          (simp_all add: upd db' listUserFrequencyWindows_def delete_where_def windows_windowRows)
    next
      case False
      with s0 have "stored db' s r = stored db s r"
        by (intro fit_windows_cong) (auto simp: db' listUserFrequencyWindows_def delete_where_def intro!: arg_cong [where f = "\<lambda>xs. map wr_window (SliceStable _ xs)"] filter_cong)
      with False s0 inv show ?thesis by (simp add: services_inv_def)
    qed
  qed
  moreover have "wr_service ` set (db_windows db') \<subseteq> sr_id ` set (db_services db')"
  proof -
    have "sr_id ` set (db_services db') = sr_id ` set (db_services db)" using keys(1) by (metis set_map)
    with inv ex windowRows_service show ?thesis by (auto simp: services_inv_def db')
  qed
  ultimately show ?thesis using inv keys by (simp add: services_inv_def)
qed

lemma UpdateUserService_keeps:
  assumes "services_inv u db" and "fit u svc" and "same_identity svc db"
  shows "services_inv u (snd (UpdateUserService svc db))"
proof -
  have "services_inv u (snd (UpdateUserService svc db)) \<and> same_identity svc (snd (UpdateUserService svc db))"
    unfolding UpdateUserService_def
  proof (rule transact_preserves [where I = "\<lambda>db. services_inv u db \<and> same_identity svc db"], goal_cases start outage body)
    case (body db x db')
    then have db': "db' = db\<lparr>db_services := update_where (\<lambda>s. sr_id s = us_ID svc) (updatedRow svc (db_now db)) (db_services db),
      db_windows := delete_where (\<lambda>r. wr_service r = us_ID svc) (db_windows db) @ windowRows (us_ID svc) (us_FrequencyWindows svc)\<rparr>"
      and "us_ID svc \<in> sr_id ` set (db_services db)"
      by (auto simp: Let_def list_ex_iff dest!: insertFrequencyWindows_Inr) (metis imageI)
    with body have "services_inv u db'" by (intro update_keeps [OF _ assms(2) _ _ db']) simp_all
    moreover from body db' have "same_identity svc db'"
      by (auto simp: same_identity_def set_update_where updatedRow_def split: prod.splits)
    ultimately show ?case ..
  qed (use assms in simp_all)
  then show ?thesis ..
qed

lemma DeleteUserService_keeps:
  assumes "services_inv u db"
  shows "services_inv u (snd (DeleteUserService i db))"
  unfolding DeleteUserService_def
proof (rule transact_preserves [where I = "services_inv u", OF assms], goal_cases outage body)
  case (body db x db')
  then have db': "db_services db' = delete_where (\<lambda>s. sr_id s = i) (db_services db)"
    "db_windows db' = delete_where (\<lambda>r. wr_service r = i) (db_windows db)" by auto
  have "stored db' s r = stored db s r" if "sr_id s \<noteq> i" for s r
    using that by (intro fit_windows_cong)
      (auto simp: listUserFrequencyWindows_def db' delete_where_def intro!: arg_cong [where f = "\<lambda>xs. map wr_window (SliceStable _ xs)"] filter_cong)
  with body(1) db' show ?case
    by (auto simp: services_inv_def distinct_map delete_where_def intro: inj_on_subset)
qed simp

subsection \<open>Reads return what was written\<close>

lemma getUserServiceBy_found:
  assumes "getUserServiceBy op p db = (Inr (Some svc), db')"
  shows "\<exists>s r. s \<in> set (db_services db) \<and> p s \<and> r \<in> set (db_routes db) \<and> rt_ID r = sr_route_id s \<and> svc = stored db s r"
proof -
  from assms obtain rest where f: "(case concat (map (joinRoute db) (filter p (db_services db))) of
      [] \<Rightarrow> None | svc # _ \<Rightarrow> Some (withWindows db svc)) = Some svc"
    unfolding getUserServiceBy_def
    by (cases rule: select_cases) (auto simp: joinRoute_def [abs_def] withWindows_def listUserFrequencyWindows_def split: list.splits)
  then obtain svc0 svcs where "concat (map (joinRoute db) (filter p (db_services db))) = svc0 # svcs" "svc = withWindows db svc0"
    by (auto split: list.splits)
  then have "svc0 \<in> set (concat (map (joinRoute db) (filter p (db_services db))))" by simp
  with \<open>svc = withWindows db svc0\<close> show ?thesis by (auto simp: joinRoute_def)
qed

lemma getUserServiceBy_fit:
  assumes "services_inv u db" and "getUserServiceBy op p db = (Inr (Some svc), db')"
  shows "fit u svc \<and> same_identity svc db"
proof -
  obtain s r where s: "s \<in> set (db_services db)" "svc = stored db s r" using getUserServiceBy_found [OF assms(2)] by blast
  moreover have "t = s" if "t \<in> set (db_services db)" "sr_id t = sr_id s" for t
    using assms(1) s(1) that by (auto simp: services_inv_def distinct_map inj_on_def)
  ultimately show ?thesis
    using assms(1) by (auto simp: services_inv_def same_identity_def withWindows_def scanUserService_def)
qed

lemma select_tables:
  assumes "select op q db = (res, db')"
  shows "db_services db' = db_services db" "db_windows db' = db_windows db"
  using assms by (cases rule: select_cases; simp)+

lemma read_keeps:
  assumes "select op q db = (res, db')"
  shows "services_inv u db' \<longleftrightarrow> services_inv u db" "same_identity svc db' \<longleftrightarrow> same_identity svc db"
  using services_inv_cong [OF select_tables [OF assms]] by simp_all

end
