(* ===== verification/Service_Handlers.thy ===== *)
theory Service_Handlers
  imports Service_Store
begin

text \<open>
  The HTTP handlers for authored services (\<open>internal/handler/service.go\<close>,
  \<open>internal/handler/boarding_wait.go\<close>, the error bodies of \<open>internal/handler/util.go\<close>).

  As in the source, a handler takes its store as an interface, here the record \<open>ServiceStore\<close> of
  operations on an abstract store state. The locale \<open>service_store\<close> states what the handlers rely
  on, and is interpreted on the repository of \<open>Service_Store\<close>. A request is given by the user in
  its context, the slug of its path and its decoded body; the identifier source and the outcome
  of JSON decoding are arguments. A response is its status, body and \<open>Location\<close> header.
\<close>

record 's ServiceStore =
  st_CreateUserService :: "UserService \<Rightarrow> 's \<Rightarrow> (db_error + unit) \<times> 's"
  st_GetUserServiceByID :: "string \<Rightarrow> 's \<Rightarrow> (db_error + UserService option) \<times> 's"
  st_GetUserServiceBySlug :: "string \<Rightarrow> 's \<Rightarrow> (db_error + UserService option) \<times> 's"
  st_ListUserServicesByOwner :: "string \<Rightarrow> 's \<Rightarrow> (db_error + UserService list) \<times> 's"
  st_UpdateUserService :: "UserService \<Rightarrow> 's \<Rightarrow> (db_error + unit) \<times> 's"
  st_DeleteUserService :: "string \<Rightarrow> 's \<Rightarrow> (db_error + unit) \<times> 's"
  st_GetRouteBySlug :: "string \<Rightarrow> 's \<Rightarrow> (db_error + Route option) \<times> 's"

subsection \<open>Requests and responses\<close>

datatype wait_field =
    WaitAbsent
  | WaitNull
  | WaitMalformed
  | WaitValue BoardingWaitOverride

record serviceRequest =
  rq_RouteSlug :: string
  rq_Name :: string
  rq_Subtext :: string
  rq_Description :: string
  rq_Vehicle :: VehicleParams
  rq_Stops :: "ServiceStopPoint list"
  rq_FrequencyWindows :: "FrequencyWindow list"
  rq_BoardingWait :: wait_field

datatype 'r decoded = TooLarge | NotJSON | Decoded 'r

datatype body =
    NoBody
  | ErrorBody string
  | WaitErrorBody wait_error
  | ValidationBody ValidationFaults
  | PlacementBody StopPlacementFault
  | ServiceBody UserService
  | ServicesBody "UserService list"
  | ScenarioBody UserScenario
  | ScenariosBody "UserScenario list"

record response =
  rp_status :: nat
  rp_body :: body
  rp_location :: string

definition respond :: "nat \<Rightarrow> body \<Rightarrow> response" where
  "respond status b = \<lparr>rp_status = status, rp_body = b, rp_location = []\<rparr>"

definition writeError :: "nat \<Rightarrow> string \<Rightarrow> response" where
  "writeError status msg = respond status (ErrorBody msg)"

definition writeInternalError :: response where
  "writeInternalError = writeError 500 ''internal error''"

subsection \<open>Boarding waits of a response\<close>

definition withBoardingWait :: "UserService \<Rightarrow> BoardingWaitOverride option \<Rightarrow> BoardingWaitPolicy \<Rightarrow> UserService" where
  "withBoardingWait svc scenario global =
     (case UserService_ResolveBoardingWait svc scenario global of
        Inr svc' \<Rightarrow> svc'
      | Inl _ \<Rightarrow>
          (case UserService_ResolveBoardingWait svc None DefaultBoardingWaitPolicy of
             Inr svc' \<Rightarrow> svc'
           | Inl _ \<Rightarrow> svc))"

definition withBoardingWaits ::
  "UserService list \<Rightarrow> BoardingWaitOverride option \<Rightarrow> BoardingWaitPolicy \<Rightarrow> UserService list" where
  "withBoardingWaits svcs scenario global = map (\<lambda>svc. withBoardingWait svc scenario global) svcs"

definition optionalBoardingWait_parse :: "wait_field \<Rightarrow> (wait_error option) + BoardingWaitOverride option option" where
  "optionalBoardingWait_parse w =
     (case w of
        WaitAbsent \<Rightarrow> Inr None
      | WaitNull \<Rightarrow> Inr (Some None)
      | WaitMalformed \<Rightarrow> Inl None
      | WaitValue ov \<Rightarrow> (case Override_Parse ov of Inl e \<Rightarrow> Inl (Some e) | Inr _ \<Rightarrow> Inr (Some (Some ov))))"

subsection \<open>Steps the handlers share\<close>

definition decodeServiceRequest ::
  "serviceRequest decoded \<Rightarrow> response + serviceRequest \<times> BoardingWaitOverride option option" where
  "decodeServiceRequest body =
     (case body of
        TooLarge \<Rightarrow> Inl (writeError 413 ''request body too large'')
      | NotJSON \<Rightarrow> Inl (writeError 400 ''request body is not valid JSON'')
      | Decoded req \<Rightarrow>
          (case optionalBoardingWait_parse (rq_BoardingWait req) of
             Inl None \<Rightarrow> Inl (respond 422 (ErrorBody ''boarding_wait''))
           | Inl (Some e) \<Rightarrow> Inl (respond 422 (WaitErrorBody e))
           | Inr wait \<Rightarrow> Inr (req, wait)))"

text \<open>\<open>applyTo\<close>: \<open>wait\<close> is \<open>None\<close> when the request does not mention the boarding wait.\<close>

definition applyTo ::
  "unicode_tables \<Rightarrow> serviceRequest \<Rightarrow> BoardingWaitOverride option option \<Rightarrow> UserService \<Rightarrow> UserService" where
  "applyTo u req wait svc =
     (let svc1 = svc\<lparr>us_Name := rq_Name req, us_Subtext := rq_Subtext req, us_Description := rq_Description req,
                     us_Vehicle := rq_Vehicle req, us_Stops := rq_Stops req,
                     us_FrequencyWindows := rq_FrequencyWindows req\<rparr>;
          svc2 = MintStopSlugs u (NormalizeStops svc1)
      in case wait of None \<Rightarrow> svc2 | Some w \<Rightarrow> svc2\<lparr>us_BoardingWait := w\<rparr>)"

definition loadService ::
  "'s ServiceStore \<Rightarrow> string \<Rightarrow> 's \<Rightarrow> (response + UserService) \<times> 's" where
  "loadService store slug s =
     (case st_GetUserServiceBySlug store slug s of
        (Inl _, s') \<Rightarrow> (Inl writeInternalError, s')
      | (Inr None, s') \<Rightarrow> (Inl (writeError 404 ''service not found''), s')
      | (Inr (Some svc), s') \<Rightarrow> (Inr svc, s'))"

definition authorizeService :: "User option \<Rightarrow> UserService \<Rightarrow> response option" where
  "authorizeService user svc =
     (case user of
        None \<Rightarrow> Some (writeError 401 ''authentication required'')
      | Some who \<Rightarrow>
          if \<not> CanAccess who (Some (us_OwnerID svc)) then Some (writeError 404 ''service not found'') else None)"

definition validateAndSnapService ::
  "unicode_tables \<Rightarrow> 's ServiceStore \<Rightarrow> User option \<Rightarrow> UserService \<Rightarrow> string \<Rightarrow> 's \<Rightarrow> (response + UserService) \<times> 's" where
  "validateAndSnapService u store user svc routeSlug0 s =
     (let routeSlug = TrimSpaceString u routeSlug0 in
      if routeSlug = [] then (Inl (writeError 422 ''route_slug is required''), s)
      else (case st_GetRouteBySlug store routeSlug s of
              (Inl _, s') \<Rightarrow> (Inl writeInternalError, s')
            | (Inr found, s') \<Rightarrow>
                (case found of
                   None \<Rightarrow> (Inl (writeError 422 (''unknown route_slug '' @ routeSlug)), s')
                 | Some rt \<Rightarrow>
                     if \<not> CanReference (case user of None \<Rightarrow> zeroUser | Some who \<Rightarrow> who) (rt_OwnerID rt)
                     then (Inl (writeError 422 (''unknown route_slug '' @ routeSlug)), s')
                     else (let svc1 = svc\<lparr>us_RouteID := rt_ID rt\<rparr> in
                           case UserService_Validate u svc1 of
                             Some faults \<Rightarrow> (Inl (respond 422 (ValidationBody faults)), s')
                           | None \<Rightarrow>
                               (case SnapToRoute rt svc1 of
                                  Inl (Placement f) \<Rightarrow> (Inl (respond 422 (PlacementBody f)), s')
                                | Inl _ \<Rightarrow> (Inl writeInternalError, s')
                                | Inr svc2 \<Rightarrow> (Inr svc2, s'))))))"

text \<open>\<open>mintSlug\<close> against a store whose state each lookup may move.\<close>

function mintLoopIn ::
  "(string \<Rightarrow> 's \<Rightarrow> (db_error + 'row option) \<times> 's) \<Rightarrow> string \<Rightarrow> nat \<Rightarrow> 's \<Rightarrow> (db_error mint_error + string) \<times> 's" where
  "mintLoopIn get base attempt s =
     (if attempt > maxSlugAttempts then (Inl (NoFreeSlug base), s)
      else (case get (slug_candidate base attempt) s of
              (Inl e, s') \<Rightarrow> (Inl (StoreError e), s')
            | (Inr None, s') \<Rightarrow> (Inr (slug_candidate base attempt), s')
            | (Inr (Some _), s') \<Rightarrow> mintLoopIn get base (Suc attempt) s'))"
  by auto
termination by (relation "measure (\<lambda>(get, base, attempt, s). Suc maxSlugAttempts - attempt)") auto

declare mintLoopIn.simps [simp del]

definition mintSlugIn ::
  "unicode_tables \<Rightarrow> 's ServiceStore \<Rightarrow> string \<Rightarrow> 's \<Rightarrow> (db_error mint_error + string) \<times> 's" where
  "mintSlugIn u store name s = mintLoopIn (st_GetUserServiceBySlug store) (transit_Slugify u name) 1 s"

definition reread :: "'s ServiceStore \<Rightarrow> UserService \<Rightarrow> 's \<Rightarrow> UserService \<times> 's" where
  "reread store svc s =
     (case st_GetUserServiceByID store (us_ID svc) s of
        (Inr (Some saved), s') \<Rightarrow> (saved, s')
      | (_, s') \<Rightarrow> (svc, s'))"

subsection \<open>The handlers\<close>

definition newService :: "string \<Rightarrow> string \<Rightarrow> string \<Rightarrow> UserService" where
  "newService i slug owner =
     \<lparr>us_ID = i, us_Slug = slug, us_RouteID = [], us_RouteSlug = [], us_RouteName = [], us_OwnerID = owner,
      us_Name = [], us_Subtext = [], us_Description = [],
      us_Vehicle = \<lparr>vp_MaxSpeedKMH = 0, vp_AccelerationMS2 = 0, vp_DecelerationMS2 = 0, vp_DwellS = 0\<rparr>,
      us_Stops = [], us_FrequencyWindows = [], us_CreatedAt = 0, us_UpdatedAt = 0, us_PublishedAt = None,
      us_BoardingWait = None, us_BoardingWaitPolicy = [], us_BoardingWaitSecs = 0, us_BoardingWaitSource = []\<rparr>"

definition CreateService ::
  "unicode_tables \<Rightarrow> 's ServiceStore \<Rightarrow> BoardingWaitPolicy \<Rightarrow> 'r + string \<Rightarrow> User option \<Rightarrow> serviceRequest decoded
    \<Rightarrow> 's \<Rightarrow> response \<times> 's" where
  "CreateService u store boardingWait newID user body s =
     (case user of
        None \<Rightarrow> (writeError 401 ''authentication required'', s)
      | Some who \<Rightarrow>
      (case decodeServiceRequest body of
         Inl r \<Rightarrow> (r, s)
       | Inr (req, wait) \<Rightarrow>
      (case newID of
         Inl _ \<Rightarrow> (writeInternalError, s)
       | Inr i \<Rightarrow>
      (case mintSlugIn u store (rq_Name req) s of
         (Inl _, s1) \<Rightarrow> (writeInternalError, s1)
       | (Inr slug, s1) \<Rightarrow>
      (case validateAndSnapService u store user (applyTo u req wait (newService i slug (u_ID who))) (rq_RouteSlug req) s1 of
         (Inl r, s2) \<Rightarrow> (r, s2)
       | (Inr svc, s2) \<Rightarrow>
      (case st_CreateUserService store svc s2 of
         (Inl _, s3) \<Rightarrow> (writeInternalError, s3)
       | (Inr _, s3) \<Rightarrow>
           (let (saved, s4) = reread store svc s3 in
            (\<lparr>rp_status = 201, rp_body = ServiceBody (withBoardingWait saved None boardingWait),
              rp_location = ''/api/services/'' @ us_Slug saved\<rparr>, s4))))))))"

definition GetService ::
  "'s ServiceStore \<Rightarrow> BoardingWaitPolicy \<Rightarrow> User option \<Rightarrow> string \<Rightarrow> 's \<Rightarrow> response \<times> 's" where
  "GetService store boardingWait user slug s =
     (case loadService store slug s of
        (Inl r, s') \<Rightarrow> (r, s')
      | (Inr svc, s') \<Rightarrow>
          (case authorizeService user svc of
             Some r \<Rightarrow> (r, s')
           | None \<Rightarrow> (respond 200 (ServiceBody (withBoardingWait svc None boardingWait)), s')))"

definition MyUserServices ::
  "'s ServiceStore \<Rightarrow> BoardingWaitPolicy \<Rightarrow> User option \<Rightarrow> 's \<Rightarrow> response \<times> 's" where
  "MyUserServices store boardingWait user s =
     (case user of
        None \<Rightarrow> (writeError 401 ''authentication required'', s)
      | Some who \<Rightarrow>
          (case st_ListUserServicesByOwner store (u_ID who) s of
             (Inl _, s') \<Rightarrow> (writeInternalError, s')
           | (Inr services, s') \<Rightarrow> (respond 200 (ServicesBody (withBoardingWaits services None boardingWait)), s')))"

definition UpdateService ::
  "unicode_tables \<Rightarrow> 's ServiceStore \<Rightarrow> BoardingWaitPolicy \<Rightarrow> User option \<Rightarrow> string \<Rightarrow> serviceRequest decoded
    \<Rightarrow> 's \<Rightarrow> response \<times> 's" where
  "UpdateService u store boardingWait user slug body s =
     (case loadService store slug s of
        (Inl r, s1) \<Rightarrow> (r, s1)
      | (Inr svc, s1) \<Rightarrow>
      (case authorizeService user svc of
         Some r \<Rightarrow> (r, s1)
       | None \<Rightarrow>
      (case decodeServiceRequest body of
         Inl r \<Rightarrow> (r, s1)
       | Inr (req, wait) \<Rightarrow>
      (case validateAndSnapService u store user (applyTo u req wait svc) (rq_RouteSlug req) s1 of
         (Inl r, s2) \<Rightarrow> (r, s2)
       | (Inr svc', s2) \<Rightarrow>
      (case st_UpdateUserService store svc' s2 of
         (Inl _, s3) \<Rightarrow> (writeInternalError, s3)
       | (Inr _, s3) \<Rightarrow>
           (let (saved, s4) = reread store svc' s3 in
            (respond 200 (ServiceBody (withBoardingWait saved None boardingWait)), s4)))))))"

definition DeleteService :: "'s ServiceStore \<Rightarrow> User option \<Rightarrow> string \<Rightarrow> 's \<Rightarrow> response \<times> 's" where
  "DeleteService store user slug s =
     (case loadService store slug s of
        (Inl r, s1) \<Rightarrow> (r, s1)
      | (Inr svc, s1) \<Rightarrow>
      (case authorizeService user svc of
         Some r \<Rightarrow> (r, s1)
       | None \<Rightarrow>
      (case st_DeleteUserService store (us_ID svc) s1 of
         (Inl _, s2) \<Rightarrow> (writeInternalError, s2)
       | (Inr _, s2) \<Rightarrow> (respond 204 NoBody, s2))))"

subsection \<open>What passes validation is fit to compile\<close>

lemma stopSlugsLoop_names:
  "map sp_Name xs = map sp_Name ys \<Longrightarrow> stopSlugsLoop u k taken xs = stopSlugsLoop u k taken ys"
proof (induction xs arbitrary: ys taken)
  case (Cons x xs)
  then obtain y ys' where "ys = y # ys'" "sp_Name x = sp_Name y" "map sp_Name xs = map sp_Name ys'" by auto
  with Cons.IH show ?case by (auto simp: Let_def)
qed simp

lemma StopSlugs_names:
  "us_Slug a = us_Slug b \<Longrightarrow> map sp_Name (us_Stops a) = map sp_Name (us_Stops b) \<Longrightarrow> StopSlugs u a = StopSlugs u b"
  unfolding StopSlugs_def by (simp only: stopSlugsLoop_names [of "us_Stops a" "us_Stops b"])

lemma map2_slug:
  "length slugs = length stops \<Longrightarrow> map sp_Slug (map2 (\<lambda>stop slug. stop\<lparr>sp_Slug := slug\<rparr>) stops slugs) = slugs \<and>
     map sp_Name (map2 (\<lambda>stop slug. stop\<lparr>sp_Slug := slug\<rparr>) stops slugs) = map sp_Name stops"
  by (induction slugs stops rule: list_induct2) simp_all

lemma MintStopSlugs_slugs: "map sp_Slug (us_Stops (MintStopSlugs u s)) = StopSlugs u (MintStopSlugs u s)"
proof -
  have len: "length (StopSlugs u s) = length (us_Stops s)" by (simp add: StopSlugs_def)
  have "StopSlugs u (MintStopSlugs u s) = StopSlugs u s"
    by (rule StopSlugs_names) (use map2_slug [OF len] in \<open>simp_all add: MintStopSlugs_def\<close>)
  with map2_slug [OF len] show ?thesis by (simp add: MintStopSlugs_def)
qed

lemma MintStopSlugs_fields [simp]:
  "length (us_Stops (MintStopSlugs u s)) = length (us_Stops s)" "us_ID (MintStopSlugs u s) = us_ID s"
  "us_Slug (MintStopSlugs u s) = us_Slug s" "us_Vehicle (MintStopSlugs u s) = us_Vehicle s"
  "us_BoardingWait (MintStopSlugs u s) = us_BoardingWait s"
  "us_FrequencyWindows (MintStopSlugs u s) = us_FrequencyWindows s"
  by (simp_all add: MintStopSlugs_def StopSlugs_def)

lemma applyTo_identity [simp]:
  "us_ID (applyTo u req wait svc) = us_ID svc" "us_Slug (applyTo u req wait svc) = us_Slug svc"
  "us_OwnerID (applyTo u req wait svc) = us_OwnerID svc"
  by (simp_all add: applyTo_def MintStopSlugs_def NormalizeStops_def Let_def split: option.split)

lemma applyTo_slugs: "map sp_Slug (us_Stops (applyTo u req wait svc)) = StopSlugs u (applyTo u req wait svc)"
proof -
  obtain svc1 where "applyTo u req wait svc =
      (case wait of None \<Rightarrow> MintStopSlugs u svc1 | Some w \<Rightarrow> (MintStopSlugs u svc1)\<lparr>us_BoardingWait := w\<rparr>)"
    by (auto simp: applyTo_def Let_def)
  moreover have "StopSlugs u (a\<lparr>us_BoardingWait := w\<rparr>) = StopSlugs u a" for a w by (rule StopSlugs_cong) simp_all
  ultimately show ?thesis using MintStopSlugs_slugs [of u svc1] by (cases wait) simp_all
qed

lemma good_override_parsed:
  assumes "optionalBoardingWait_parse w = Inr wait" and "good_override (us_BoardingWait svc)"
  shows "good_override (us_BoardingWait (applyTo u req wait svc))"
proof -
  have "us_BoardingWait (applyTo u req wait svc) = (case wait of None \<Rightarrow> us_BoardingWait svc | Some o' \<Rightarrow> o')"
    by (simp add: applyTo_def MintStopSlugs_def NormalizeStops_def Let_def split: option.split)
  moreover have "good_override o'" if "wait = Some o'" for o'
    using assms(1) that by (auto simp: optionalBoardingWait_parse_def good_override_def split: wait_field.splits sum.splits)
  ultimately show ?thesis using assms(2) by (simp split: option.split)
qed

lemma validated_fit:
  assumes "UserService_Validate u svc = None" and "SnapToRoute rt svc = Inr svc'"
    and "clean_slug (us_Slug svc)" and "good_override (us_BoardingWait svc)"
    and "map sp_Slug (us_Stops svc) = StopSlugs u svc"
  shows "fit u svc'" and "us_ID svc' = us_ID svc" and "us_Slug svc' = us_Slug svc"
proof -
  obtain line where line: "ToPhysicsLine (rt_Geometry rt) = Inr line" using SnapToRoute_line [OF assms(2)] by blast
  let ?snapped = "snap (projectLinePlanar line) (map placementStop (us_Stops svc))"
  have svc': "svc' = svc\<lparr>us_Stops := map2 commitSnap (us_Stops svc) ?snapped\<rparr>"
    using SnapToRoute_eq(2) [OF line refl assms(2)] .
  have len: "length ?snapped = length (us_Stops svc)" by (simp add: snap_def)
  show "us_ID svc' = us_ID svc" and slug: "us_Slug svc' = us_Slug svc" by (simp_all add: svc')
  have "StopSlugs u svc' = StopSlugs u svc"
    by (rule StopSlugs_names) (use map_commitSnap(3) [OF len] in \<open>simp_all add: svc'\<close>)
  moreover have "map sp_Slug (us_Stops svc') = map sp_Slug (us_Stops svc)" using map_commitSnap(4) [OF len] by (simp add: svc')
  moreover have "length (us_Stops svc') = length (us_Stops svc)" using len by (simp add: svc')
  ultimately show "fit u svc'"
    using assms(1,3-5) unfolding UserService_Validate_None fit_def by (simp add: svc')
qed

subsection \<open>What the handlers need of a store\<close>

text \<open>
  \<open>I\<close> is the invariant of the store, \<open>known svc s\<close> that a row with the id of \<open>svc\<close> also has its
  slug. A store keeps the invariant when it is given services fit to compile, hands out such
  services, and its reads change neither.
\<close>

locale service_store =
  fixes store :: "'s ServiceStore" and u :: unicode_tables and I :: "'s \<Rightarrow> bool" and known :: "UserService \<Rightarrow> 's \<Rightarrow> bool"
  assumes create_keeps: "I s \<Longrightarrow> fit u svc \<Longrightarrow> I (snd (st_CreateUserService store svc s))"
    and update_keeps: "I s \<Longrightarrow> fit u svc \<Longrightarrow> known svc s \<Longrightarrow> I (snd (st_UpdateUserService store svc s))"
    and delete_keeps: "I s \<Longrightarrow> I (snd (st_DeleteUserService store i s))"
    and by_id_keeps: "I (snd (st_GetUserServiceByID store i s)) \<longleftrightarrow> I s"
    and by_slug_keeps: "I (snd (st_GetUserServiceBySlug store slug s)) \<longleftrightarrow> I s"
    and list_keeps: "I (snd (st_ListUserServicesByOwner store owner s)) \<longleftrightarrow> I s"
    and route_keeps: "I (snd (st_GetRouteBySlug store slug s)) \<longleftrightarrow> I s"
    and route_known: "known svc (snd (st_GetRouteBySlug store slug s)) \<longleftrightarrow> known svc s"
    and loaded: "I s \<Longrightarrow> st_GetUserServiceBySlug store slug s = (Inr (Some svc), s') \<Longrightarrow> fit u svc \<and> known svc s'"
    and known_cong: "us_ID a = us_ID b \<Longrightarrow> us_Slug a = us_Slug b \<Longrightarrow> known a s \<longleftrightarrow> known b s"
begin

lemma loadService_keeps:
  assumes "I s" and "loadService store slug s = (res, s')"
  shows "I s'" and "res = Inr svc \<Longrightarrow> fit u svc \<and> known svc s'"
  using assms by_slug_keeps [of slug s] loaded [OF assms(1), of slug svc s']
  by (auto simp: loadService_def split: prod.splits sum.splits option.splits)

lemma validate_keeps:
  assumes "I s" and "validateAndSnapService u store user svc routeSlug s = (res, s')"
  shows "I s'" and "known x s' \<longleftrightarrow> known x s"
    and "res = Inr svc' \<Longrightarrow> \<exists>rt. UserService_Validate u (svc\<lparr>us_RouteID := rt_ID rt\<rparr>) = None \<and>
      SnapToRoute rt (svc\<lparr>us_RouteID := rt_ID rt\<rparr>) = Inr svc'"
  using assms route_keeps [of "TrimSpaceString u routeSlug" s] route_known [of x "TrimSpaceString u routeSlug" s]
  by (auto simp: validateAndSnapService_def Let_def split: prod.splits sum.splits option.splits snap_error.splits if_splits)

text \<open>The service \<open>applyTo\<close> built, once validated and snapped, is fit to compile.\<close>

lemma applied_fit:
  assumes "I s" and "validateAndSnapService u store user (applyTo u req wait svc) routeSlug s = (Inr svc', s')"
    and "decodeServiceRequest body = Inr (req, wait)" and "clean_slug (us_Slug svc)" and "good_override (us_BoardingWait svc)"
  shows "fit u svc'" and "us_ID svc' = us_ID svc" and "us_Slug svc' = us_Slug svc"
proof -
  let ?applied = "applyTo u req wait svc"
  obtain rt where v: "UserService_Validate u (?applied\<lparr>us_RouteID := rt_ID rt\<rparr>) = None"
    "SnapToRoute rt (?applied\<lparr>us_RouteID := rt_ID rt\<rparr>) = Inr svc'"
    using validate_keeps(3) [OF assms(1,2)] by blast
  have parsed: "optionalBoardingWait_parse (rq_BoardingWait req) = Inr wait"
    using assms(3) by (auto simp: decodeServiceRequest_def split: decoded.splits sum.splits option.splits)
  have "StopSlugs u (?applied\<lparr>us_RouteID := rt_ID rt\<rparr>) = StopSlugs u ?applied" by (rule StopSlugs_cong) simp_all
  then have slugs: "map sp_Slug (us_Stops (?applied\<lparr>us_RouteID := rt_ID rt\<rparr>)) = StopSlugs u (?applied\<lparr>us_RouteID := rt_ID rt\<rparr>)"
    using applyTo_slugs by simp
  note V = validated_fit [OF v _ _ slugs]
  show "fit u svc'" "us_ID svc' = us_ID svc" "us_Slug svc' = us_Slug svc"
    using V assms(4) good_override_parsed [OF parsed assms(5)] by simp_all
qed

lemma mintLoopIn_keeps:
  assumes "mintLoopIn (st_GetUserServiceBySlug store) base k s = (res, s')" and "I s" and "clean_slug base"
  shows "I s' \<and> (\<forall>slug. res = Inr slug \<longrightarrow> clean_slug slug)"
  using assms
proof (induction "st_GetUserServiceBySlug store" base k s rule: mintLoopIn.induct)
  case (1 base k s)
  show ?case
  proof (cases "k > maxSlugAttempts")
    case True
    with "1.prems" show ?thesis by (subst (asm) mintLoopIn.simps) auto
  next
    case False
    obtain r s1 where g: "st_GetUserServiceBySlug store (slug_candidate base k) s = (r, s1)" by fastforce
    have "I s1" using by_slug_keeps [of "slug_candidate base k" s] "1.prems"(2) g by simp
    with 1 False g clean_candidate [OF "1.prems"(3)] show ?thesis
      by (subst (asm) (2) mintLoopIn.simps) (auto split: sum.splits option.splits)
  qed
qed

lemma reread_keeps: "reread store svc s = (svc', s') \<Longrightarrow> I s' \<longleftrightarrow> I s"
  using by_id_keeps [of "us_ID svc" s] by (auto simp: reread_def split: prod.splits sum.splits option.splits)

end

context service_store
begin

text \<open>The last steps of both writing handlers: the write, then the read back.\<close>

lemma written_keeps:
  assumes "I (snd (write svc s))"
  shows "I (snd (case write svc s of
         (Inl _, s3) \<Rightarrow> (writeInternalError, s3)
       | (Inr _, s3) \<Rightarrow> (let (saved, s4) = reread store svc s3 in (f saved, s4))))"
proof -
  obtain r s3 where w: "write svc s = (r, s3)" by fastforce
  obtain saved s4 where rr: "reread store svc s3 = (saved, s4)" by fastforce
  from assms w have "I s3" by simp
  moreover from reread_keeps [OF rr] this have "I s4" by simp
  ultimately show ?thesis by (simp add: w rr split: sum.split)
qed

lemmas created_keeps = written_keeps [of "st_CreateUserService store", OF create_keeps]
lemmas updated_keeps = written_keeps [of "st_UpdateUserService store", OF update_keeps]

lemma CreateService_keeps:
  assumes "I s" and dashes: "dash_ok u"
  shows "I (snd (CreateService u store w newID user body s))"
proof (cases user)
  case (Some who)
  show ?thesis
  proof (cases "decodeServiceRequest body")
    case (Inr rw)
    obtain req wait where rw: "rw = (req, wait)" by fastforce
    show ?thesis
    proof (cases newID)
      case (Inr i)
      obtain r1 s1 where m: "mintSlugIn u store (rq_Name req) s = (r1, s1)" by fastforce
      note M = mintLoopIn_keeps [OF m [unfolded mintSlugIn_def] assms(1) transit_Slugify_clean [OF dashes]]
      show ?thesis
      proof (cases r1)
        case (Inr slug)
        let ?svc = "newService i slug (u_ID who)"
        obtain r2 s2 where v: "validateAndSnapService u store user (applyTo u req wait ?svc) (rq_RouteSlug req) s1 = (r2, s2)"
          by fastforce
        have I2: "I s2" using validate_keeps(1) [OF _ v] M by blast
        have fit: "fit u svc" if "r2 = Inr svc" for svc
          using applied_fit(1) [OF _ v [unfolded that]] \<open>decodeServiceRequest body = Inr rw\<close> rw M Inr
          by (simp add: newService_def good_override_def)
        show ?thesis
          using Some \<open>decodeServiceRequest body = Inr rw\<close> rw \<open>newID = Inr i\<close> m Inr v I2 created_keeps [OF I2 fit]
          by (cases r2) (simp_all add: CreateService_def)
      qed (use Some Inr rw M m \<open>decodeServiceRequest body = Inr rw\<close> in \<open>simp add: CreateService_def\<close>)
    qed (use Some Inr rw assms in \<open>simp add: CreateService_def\<close>)
  qed (use Some assms in \<open>simp add: CreateService_def\<close>)
qed (use assms in \<open>simp add: CreateService_def\<close>)

lemma UpdateService_keeps:
  assumes "I s"
  shows "I (snd (UpdateService u store w user slug body s))"
proof -
  obtain r1 s1 where l: "loadService store slug s = (r1, s1)" by fastforce
  note L = loadService_keeps [OF assms l]
  show ?thesis
  proof (cases "\<exists>svc req wait. r1 = Inr svc \<and> authorizeService user svc = None \<and> decodeServiceRequest body = Inr (req, wait)")
    case True
    then obtain svc req wait where p: "r1 = Inr svc" "authorizeService user svc = None" "decodeServiceRequest body = Inr (req, wait)"
      by blast
    obtain r2 s2 where v: "validateAndSnapService u store user (applyTo u req wait svc) (rq_RouteSlug req) s1 = (r2, s2)"
      by fastforce
    note I2 = validate_keeps(1) [OF L(1) v]
    have fit: "fit u svc' \<and> known svc' s2" if "r2 = Inr svc'" for svc'
    proof -
      have "clean_slug (us_Slug svc)" "good_override (us_BoardingWait svc)" using L(2) [OF p(1)] by (simp_all add: fit_def)
      note A = applied_fit [OF L(1) v [unfolded that] p(3) this]
      have "known svc' s2 \<longleftrightarrow> known svc s1" using known_cong [OF A(2,3), of s2] validate_keeps(2) [OF L(1) v, of svc] by simp
      with A(1) L(2) [OF p(1)] show ?thesis by blast
    qed
    show ?thesis
      using l p v I2 updated_keeps [OF I2] fit
      by (cases r2) (simp_all add: UpdateService_def)
  next
    case False
    with L(1) show ?thesis by (auto simp: UpdateService_def l split: sum.splits option.splits)
  qed
qed

lemma DeleteService_keeps:
  assumes "I s"
  shows "I (snd (DeleteService store user slug s))"
proof -
  obtain r1 s1 where l: "loadService store slug s = (r1, s1)" by fastforce
  note L = loadService_keeps(1) [OF assms l]
  then show ?thesis
    using delete_keeps [OF L] by (auto simp: DeleteService_def l split: prod.splits sum.splits option.splits) (metis snd_conv)+
qed

lemma GetService_keeps: "I s \<Longrightarrow> I (snd (GetService store w user slug s))"
  by (cases "loadService store slug s") (auto simp: GetService_def split: sum.splits option.splits dest: loadService_keeps(1))

lemma MyUserServices_keeps: "I s \<Longrightarrow> I (snd (MyUserServices store w user s))"
  using list_keeps by (auto simp: MyUserServices_def split: prod.splits sum.splits option.splits) (metis snd_conv)+

end

subsection \<open>The repository is such a store\<close>

definition repoStore :: "Db ServiceStore" where
  "repoStore = \<lparr>st_CreateUserService = CreateUserService, st_GetUserServiceByID = GetUserServiceByID,
     st_GetUserServiceBySlug = GetUserServiceBySlug, st_ListUserServicesByOwner = ListUserServicesByOwner,
     st_UpdateUserService = UpdateUserService, st_DeleteUserService = DeleteUserService,
     st_GetRouteBySlug = GetRouteBySlug\<rparr>"

lemma select_keeps [simp]:
  "services_inv u (snd (select op q db)) \<longleftrightarrow> services_inv u db"
  "same_identity svc (snd (select op q db)) \<longleftrightarrow> same_identity svc db"
  using read_keeps [of op q db "fst (select op q db)" "snd (select op q db)"] by simp_all

lemma loaded_by_slug:
  assumes "services_inv u db" and g: "GetUserServiceBySlug slug db = (Inr (Some svc), db')"
  shows "fit u svc \<and> same_identity svc db'"
proof -
  have "db' = snd (GetUserServiceBySlug slug db)" by (simp add: g)
  then have "same_identity svc db' \<longleftrightarrow> same_identity svc db"
    by (simp only: GetUserServiceBySlug_def getUserServiceBy_def select_keeps)
  with getUserServiceBy_fit [OF assms(1)] g show ?thesis by (simp add: GetUserServiceBySlug_def)
qed

interpretation repo: service_store repoStore u "services_inv u" same_identity
proof unfold_locales
  show "fit u svc \<and> same_identity svc db'"
    if "services_inv u db" "st_GetUserServiceBySlug repoStore slug db = (Inr (Some svc), db')" for db db' svc slug
    using that by (intro loaded_by_slug) (simp_all add: repoStore_def)
  show "same_identity a s \<longleftrightarrow> same_identity b s" if "us_ID a = us_ID b" "us_Slug a = us_Slug b" for a b s
    using that by (simp add: same_identity_def)
qed (simp_all add: repoStore_def CreateUserService_keeps UpdateUserService_keeps DeleteUserService_keeps
    GetUserServiceByID_def GetUserServiceBySlug_def getUserServiceBy_def ListUserServicesByOwner_def GetRouteBySlug_def)

end
