(* ===== verification/User_Scenarios.thy ===== *)
theory User_Scenarios
  imports Service_Handlers
begin

text \<open>
  User scenarios: the repository (\<open>internal/persistence/postgres/userscenario.go\<close>) and the handlers
  (\<open>internal/handler/userscenario.go\<close>). A scenario is a row with its declared interchanges and a set
  of membership rows that name authored services; the handlers admit only members the scenario's
  owner owns.
\<close>

subsection \<open>The repository\<close>

definition scanUserScenario :: "ScenarioRow \<Rightarrow> UserScenario" where
  "scanUserScenario c =
     \<lparr>uc_ID = cr_id c, uc_Slug = cr_slug c, uc_OwnerID = cr_owner_id c, uc_Name = cr_name c,
      uc_Description = cr_description c, uc_ServiceIDs = [], uc_InterchangePairs = cr_interchange_pairs c,
      uc_CreatedAt = cr_created_at c, uc_UpdatedAt = cr_updated_at c,
      uc_BoardingWait = scanBoardingWait (cr_wait_policy c) (cr_wait_secs c),
      uc_BoardingWaitPolicy = [], uc_BoardingWaitSecs = 0, uc_BoardingWaitSource = []\<rparr>"

definition listUserScenarioServiceIDs :: "Db \<Rightarrow> string \<Rightarrow> string list" where
  "listUserScenarioServiceIDs db scenarioID =
     SliceStable (less_by (\<lambda>i. i)) (map mb_service (filter (\<lambda>m. mb_scenario m = scenarioID) (db_members db)))"

definition serviceIDsByScenario :: "Db \<Rightarrow> string list \<Rightarrow> string \<Rightarrow> string list" where
  "serviceIDsByScenario db scenarioIDs i =
     map mb_service (SliceStable (less_by mb_service)
       (filter (\<lambda>m. mb_scenario m = i) (filter (\<lambda>m. mb_scenario m \<in> set scenarioIDs) (db_members db))))"

definition getUserScenarioBy :: "string \<Rightarrow> (ScenarioRow \<Rightarrow> bool) \<Rightarrow> UserScenario option repo" where
  "getUserScenarioBy op p = select op (\<lambda>db.
     case List.find p (db_scenarios db) of
       None \<Rightarrow> None
     | Some c \<Rightarrow> Some ((scanUserScenario c)\<lparr>uc_ServiceIDs := listUserScenarioServiceIDs db (cr_id c)\<rparr>))"

definition GetUserScenarioByID :: "string \<Rightarrow> UserScenario option repo" where
  "GetUserScenarioByID i = getUserScenarioBy ''GetUserScenarioByID'' (\<lambda>c. cr_id c = i)"

definition GetUserScenarioBySlug :: "string \<Rightarrow> UserScenario option repo" where
  "GetUserScenarioBySlug slug = getUserScenarioBy ''GetUserScenarioBySlug'' (\<lambda>c. cr_slug c = slug)"

definition recent_first :: "UserScenario \<Rightarrow> UserScenario \<Rightarrow> bool" where
  "recent_first a b \<longleftrightarrow> uc_UpdatedAt b < uc_UpdatedAt a \<or> (uc_UpdatedAt a = uc_UpdatedAt b \<and> uc_ID a < uc_ID b)"

definition ListUserScenariosByOwner :: "string \<Rightarrow> UserScenario list repo" where
  "ListUserScenariosByOwner ownerID = select ''ListUserScenariosByOwner'' (\<lambda>db.
     let out = SliceStable recent_first (map scanUserScenario (filter (\<lambda>c. cr_owner_id c = ownerID) (db_scenarios db)))
     in map (\<lambda>sc. sc\<lparr>uc_ServiceIDs := serviceIDsByScenario db (map uc_ID out) (uc_ID sc)\<rparr>) out)"

definition UserServiceIDsOwnedBy :: "string \<Rightarrow> string list \<Rightarrow> string list repo" where
  "UserServiceIDsOwnedBy ownerID ids =
     (if ids = [] then (\<lambda>db. (Inr [], db))
      else select ''UserServiceIDsOwnedBy'' (\<lambda>db.
        map sr_id (filter (\<lambda>s. sr_id s \<in> set ids \<and> sr_owner_id s = ownerID) (db_services db))))"

fun insertUserScenarioMembership :: "string \<Rightarrow> string list \<Rightarrow> Db \<Rightarrow> db_error + Db" where
  "insertUserScenarioMembership scenarioID [] db = Inr db"
| "insertUserScenarioMembership scenarioID (serviceID # rest) db =
     bind_res (require (\<not> list_ex (\<lambda>m. mb_scenario m = scenarioID \<and> mb_service m = serviceID) (db_members db))
         (UniqueViolation ''user_scenario_services_pkey'')) (\<lambda>_.
     bind_res (require (list_ex (\<lambda>c. cr_id c = scenarioID) (db_scenarios db)) (ForeignKeyViolation ''user_scenario_id'')) (\<lambda>_.
     bind_res (require (list_ex (\<lambda>s. sr_id s = serviceID) (db_services db)) (ForeignKeyViolation ''user_service_id'')) (\<lambda>_.
       insertUserScenarioMembership scenarioID rest
         (db\<lparr>db_members := db_members db @ [\<lparr>mb_scenario = scenarioID, mb_service = serviceID\<rparr>]\<rparr>))))"

definition scenarioRow :: "UserScenario \<Rightarrow> gotime \<Rightarrow> ScenarioRow" where
  "scenarioRow sc now =
     (let (kind, secs) = boardingWaitArgs (uc_BoardingWait sc) in
      \<lparr>cr_id = uc_ID sc, cr_slug = uc_Slug sc, cr_owner_id = uc_OwnerID sc, cr_name = uc_Name sc,
       cr_description = uc_Description sc, cr_interchange_pairs = uc_InterchangePairs sc,
       cr_wait_policy = kind, cr_wait_secs = secs, cr_created_at = now, cr_updated_at = now\<rparr>)"

definition wait_secs_ok :: "UserScenario \<Rightarrow> db_error + unit" where
  "wait_secs_ok sc =
     require (case snd (boardingWaitArgs (uc_BoardingWait sc)) of None \<Rightarrow> True | Some n \<Rightarrow> int4 n)
       (IntegerOutOfRange ''boarding_wait_fixed_secs'')"

definition repo_CreateUserScenario :: "UserScenario \<Rightarrow> unit repo" where
  "repo_CreateUserScenario sc = transact ''CreateUserScenario'' (\<lambda>db.
     bind_res (require (\<not> list_ex (\<lambda>c. cr_id c = uc_ID sc) (db_scenarios db)) (UniqueViolation ''user_scenarios_pkey'')) (\<lambda>_.
     bind_res (require (\<not> list_ex (\<lambda>c. cr_slug c = uc_Slug sc) (db_scenarios db)) (UniqueViolation ''user_scenarios_slug_key'')) (\<lambda>_.
     bind_res (require (list_ex (\<lambda>w. u_ID (ur_user w) = uc_OwnerID sc) (db_users db)) (ForeignKeyViolation ''owner_id'')) (\<lambda>_.
     bind_res (wait_secs_ok sc) (\<lambda>_.
     bind_res (insertUserScenarioMembership (uc_ID sc) (uc_ServiceIDs sc)
         (db\<lparr>db_scenarios := db_scenarios db @ [scenarioRow sc (db_now db)]\<rparr>)) (\<lambda>db'.
       Inr ((), db')))))))"

text \<open>The columns \<open>UpdateUserScenario\<close> sets: never the id, slug, owner or creation time.\<close>

definition updatedScenarioRow :: "UserScenario \<Rightarrow> gotime \<Rightarrow> ScenarioRow \<Rightarrow> ScenarioRow" where
  "updatedScenarioRow sc now c =
     (let (kind, secs) = boardingWaitArgs (uc_BoardingWait sc) in
      c\<lparr>cr_name := uc_Name sc, cr_description := uc_Description sc, cr_interchange_pairs := uc_InterchangePairs sc,
        cr_wait_policy := kind, cr_wait_secs := secs, cr_updated_at := now\<rparr>)"

definition repo_UpdateUserScenario :: "UserScenario \<Rightarrow> unit repo" where
  "repo_UpdateUserScenario sc = transact ''UpdateUserScenario'' (\<lambda>db.
     bind_res (wait_secs_ok sc) (\<lambda>_.
     bind_res (require (list_ex (\<lambda>c. cr_id c = uc_ID sc) (db_scenarios db)) (NoSuchRow ''UpdateUserScenario'' (uc_ID sc))) (\<lambda>_.
     bind_res (insertUserScenarioMembership (uc_ID sc) (uc_ServiceIDs sc)
         (db\<lparr>db_scenarios := update_where (\<lambda>c. cr_id c = uc_ID sc) (updatedScenarioRow sc (db_now db)) (db_scenarios db),
            db_members := delete_where (\<lambda>m. mb_scenario m = uc_ID sc) (db_members db)\<rparr>)) (\<lambda>db'.
       Inr ((), db')))))"

text \<open>Membership rows and compile jobs cascade with their scenario.\<close>

definition repo_DeleteUserScenario :: "string \<Rightarrow> unit repo" where
  "repo_DeleteUserScenario i = transact ''DeleteUserScenario'' (\<lambda>db.
     bind_res (require (list_ex (\<lambda>c. cr_id c = i) (db_scenarios db)) (NoSuchRow ''DeleteUserScenario'' i)) (\<lambda>_.
       Inr ((), db\<lparr>db_scenarios := delete_where (\<lambda>c. cr_id c = i) (db_scenarios db),
                   db_members := delete_where (\<lambda>m. mb_scenario m = i) (db_members db),
                   db_jobs := delete_where (\<lambda>j. job_UserScenarioID j = Some i) (db_jobs db)\<rparr>)))"

subsection \<open>The handlers\<close>

record 's ScenarioStore =
  sc_CreateUserScenario :: "UserScenario \<Rightarrow> 's \<Rightarrow> (db_error + unit) \<times> 's"
  sc_GetUserScenarioByID :: "string \<Rightarrow> 's \<Rightarrow> (db_error + UserScenario option) \<times> 's"
  sc_GetUserScenarioBySlug :: "string \<Rightarrow> 's \<Rightarrow> (db_error + UserScenario option) \<times> 's"
  sc_ListUserScenariosByOwner :: "string \<Rightarrow> 's \<Rightarrow> (db_error + UserScenario list) \<times> 's"
  sc_UpdateUserScenario :: "UserScenario \<Rightarrow> 's \<Rightarrow> (db_error + unit) \<times> 's"
  sc_DeleteUserScenario :: "string \<Rightarrow> 's \<Rightarrow> (db_error + unit) \<times> 's"
  sc_UserServiceIDsOwnedBy :: "string \<Rightarrow> string list \<Rightarrow> 's \<Rightarrow> (db_error + string list) \<times> 's"

record userScenarioRequest =
  uq_Name :: string
  uq_Description :: string
  uq_ServiceIDs :: "string list"
  uq_InterchangePairs :: "InterchangePair list"
  uq_BoardingWait :: wait_field

definition applyScenario ::
  "userScenarioRequest \<Rightarrow> BoardingWaitOverride option option \<Rightarrow> UserScenario \<Rightarrow> UserScenario" where
  "applyScenario req wait sc =
     (let sc1 = sc\<lparr>uc_Name := uq_Name req, uc_Description := uq_Description req, uc_ServiceIDs := uq_ServiceIDs req,
                   uc_InterchangePairs := uq_InterchangePairs req\<rparr>
      in case wait of None \<Rightarrow> sc1 | Some w \<Rightarrow> sc1\<lparr>uc_BoardingWait := w\<rparr>)"

definition withScenarioBoardingWait :: "UserScenario \<Rightarrow> BoardingWaitPolicy \<Rightarrow> UserScenario" where
  "withScenarioBoardingWait sc global =
     (case UserScenario_ResolveBoardingWait sc global of
        Inr sc' \<Rightarrow> sc'
      | Inl _ \<Rightarrow>
          (case UserScenario_ResolveBoardingWait sc DefaultBoardingWaitPolicy of
             Inr sc' \<Rightarrow> sc'
           | Inl _ \<Rightarrow> sc))"

definition withScenarioBoardingWaits :: "UserScenario list \<Rightarrow> BoardingWaitPolicy \<Rightarrow> UserScenario list" where
  "withScenarioBoardingWaits scenarios global = map (\<lambda>sc. withScenarioBoardingWait sc global) scenarios"

definition loadScenario :: "'s ScenarioStore \<Rightarrow> string \<Rightarrow> 's \<Rightarrow> (response + UserScenario) \<times> 's" where
  "loadScenario store slug s =
     (case sc_GetUserScenarioBySlug store slug s of
        (Inl _, s') \<Rightarrow> (Inl writeInternalError, s')
      | (Inr None, s') \<Rightarrow> (Inl (writeError 404 ''scenario not found''), s')
      | (Inr (Some sc), s') \<Rightarrow> (Inr sc, s'))"

definition authorizeScenario :: "User option \<Rightarrow> UserScenario \<Rightarrow> response option" where
  "authorizeScenario user sc =
     (case user of
        None \<Rightarrow> Some (writeError 401 ''authentication required'')
      | Some who \<Rightarrow>
          if \<not> CanAccess who (Some (uc_OwnerID sc)) then Some (writeError 404 ''scenario not found'') else None)"

definition decodeScenarioRequest ::
  "userScenarioRequest decoded \<Rightarrow> response + userScenarioRequest \<times> BoardingWaitOverride option option" where
  "decodeScenarioRequest body =
     (case body of
        TooLarge \<Rightarrow> Inl (writeError 413 ''request body too large'')
      | NotJSON \<Rightarrow> Inl (writeError 400 ''request body is not valid JSON'')
      | Decoded req \<Rightarrow>
          (case optionalBoardingWait_parse (uq_BoardingWait req) of
             Inl None \<Rightarrow> Inl (respond 422 (ErrorBody ''boarding_wait''))
           | Inl (Some e) \<Rightarrow> Inl (respond 422 (WaitErrorBody e))
           | Inr wait \<Rightarrow> Inr (req, wait)))"

definition validateScenario ::
  "unicode_tables \<Rightarrow> 's ScenarioStore \<Rightarrow> UserScenario \<Rightarrow> 's \<Rightarrow> response option \<times> 's" where
  "validateScenario u store sc s =
     (case UserScenario_Validate u sc of
        Some faults \<Rightarrow> (Some (respond 422 (ValidationBody faults)), s)
      | None \<Rightarrow>
          if uc_ServiceIDs sc = [] then (None, s)
          else (case sc_UserServiceIDsOwnedBy store (uc_OwnerID sc) (uc_ServiceIDs sc) s of
                  (Inl _, s') \<Rightarrow> (Some writeInternalError, s')
                | (Inr owned, s') \<Rightarrow>
                    (case List.find (\<lambda>i. i \<notin> set owned) (uc_ServiceIDs sc) of
                       Some i \<Rightarrow> (Some (writeError 422 (''unknown or unauthorized service_id: '' @ i)), s')
                     | None \<Rightarrow> (None, s'))))"

definition mintScenarioSlugIn ::
  "unicode_tables \<Rightarrow> 's ScenarioStore \<Rightarrow> string \<Rightarrow> 's \<Rightarrow> (db_error mint_error + string) \<times> 's" where
  "mintScenarioSlugIn u store name s = mintLoopIn (sc_GetUserScenarioBySlug store) (transit_Slugify u name) 1 s"

definition rereadScenario :: "'s ScenarioStore \<Rightarrow> UserScenario \<Rightarrow> 's \<Rightarrow> UserScenario \<times> 's" where
  "rereadScenario store sc s =
     (case sc_GetUserScenarioByID store (uc_ID sc) s of
        (Inr (Some saved), s') \<Rightarrow> (saved, s')
      | (_, s') \<Rightarrow> (sc, s'))"

definition newScenario :: "string \<Rightarrow> string \<Rightarrow> UserScenario" where
  "newScenario i owner =
     \<lparr>uc_ID = i, uc_Slug = [], uc_OwnerID = owner, uc_Name = [], uc_Description = [], uc_ServiceIDs = [],
      uc_InterchangePairs = [], uc_CreatedAt = 0, uc_UpdatedAt = 0, uc_BoardingWait = None,
      uc_BoardingWaitPolicy = [], uc_BoardingWaitSecs = 0, uc_BoardingWaitSource = []\<rparr>"

definition CreateUserScenario ::
  "unicode_tables \<Rightarrow> 's ScenarioStore \<Rightarrow> BoardingWaitPolicy \<Rightarrow> 'r + string \<Rightarrow> User option \<Rightarrow> userScenarioRequest decoded
    \<Rightarrow> 's \<Rightarrow> response \<times> 's" where
  "CreateUserScenario u store boardingWait newID user body s =
     (case user of
        None \<Rightarrow> (writeError 401 ''authentication required'', s)
      | Some who \<Rightarrow>
      (case decodeScenarioRequest body of
         Inl r \<Rightarrow> (r, s)
       | Inr (req, wait) \<Rightarrow>
      (case newID of
         Inl _ \<Rightarrow> (writeInternalError, s)
       | Inr i \<Rightarrow>
      (let sc = applyScenario req wait (newScenario i (u_ID who)) in
       case validateScenario u store sc s of
         (Some r, s1) \<Rightarrow> (r, s1)
       | (None, s1) \<Rightarrow>
      (case mintScenarioSlugIn u store (uc_Name sc) s1 of
         (Inl _, s2) \<Rightarrow> (writeInternalError, s2)
       | (Inr slug, s2) \<Rightarrow>
      (case sc_CreateUserScenario store (sc\<lparr>uc_Slug := slug\<rparr>) s2 of
         (Inl _, s3) \<Rightarrow> (writeInternalError, s3)
       | (Inr _, s3) \<Rightarrow>
           (let (saved, s4) = rereadScenario store (sc\<lparr>uc_Slug := slug\<rparr>) s3 in
            (\<lparr>rp_status = 201, rp_body = ScenarioBody (withScenarioBoardingWait saved boardingWait),
              rp_location = ''/api/user-scenarios/'' @ uc_Slug saved\<rparr>, s4))))))))"

definition GetUserScenario ::
  "'s ScenarioStore \<Rightarrow> BoardingWaitPolicy \<Rightarrow> User option \<Rightarrow> string \<Rightarrow> 's \<Rightarrow> response \<times> 's" where
  "GetUserScenario store boardingWait user slug s =
     (case loadScenario store slug s of
        (Inl r, s') \<Rightarrow> (r, s')
      | (Inr sc, s') \<Rightarrow>
          (case authorizeScenario user sc of
             Some r \<Rightarrow> (r, s')
           | None \<Rightarrow> (respond 200 (ScenarioBody (withScenarioBoardingWait sc boardingWait)), s')))"

definition MyUserScenarios ::
  "'s ScenarioStore \<Rightarrow> BoardingWaitPolicy \<Rightarrow> User option \<Rightarrow> 's \<Rightarrow> response \<times> 's" where
  "MyUserScenarios store boardingWait user s =
     (case user of
        None \<Rightarrow> (writeError 401 ''authentication required'', s)
      | Some who \<Rightarrow>
          (case sc_ListUserScenariosByOwner store (u_ID who) s of
             (Inl _, s') \<Rightarrow> (writeInternalError, s')
           | (Inr scenarios, s') \<Rightarrow> (respond 200 (ScenariosBody (withScenarioBoardingWaits scenarios boardingWait)), s')))"

definition UpdateUserScenario ::
  "unicode_tables \<Rightarrow> 's ScenarioStore \<Rightarrow> BoardingWaitPolicy \<Rightarrow> User option \<Rightarrow> string \<Rightarrow> userScenarioRequest decoded
    \<Rightarrow> 's \<Rightarrow> response \<times> 's" where
  "UpdateUserScenario u store boardingWait user slug body s =
     (case loadScenario store slug s of
        (Inl r, s1) \<Rightarrow> (r, s1)
      | (Inr sc0, s1) \<Rightarrow>
      (case authorizeScenario user sc0 of
         Some r \<Rightarrow> (r, s1)
       | None \<Rightarrow>
      (case decodeScenarioRequest body of
         Inl r \<Rightarrow> (r, s1)
       | Inr (req, wait) \<Rightarrow>
      (let sc = applyScenario req wait sc0 in
       case validateScenario u store sc s1 of
         (Some r, s2) \<Rightarrow> (r, s2)
       | (None, s2) \<Rightarrow>
      (case sc_UpdateUserScenario store sc s2 of
         (Inl _, s3) \<Rightarrow> (writeInternalError, s3)
       | (Inr _, s3) \<Rightarrow>
           (let (saved, s4) = rereadScenario store sc s3 in
            (respond 200 (ScenarioBody (withScenarioBoardingWait saved boardingWait)), s4)))))))"

definition DeleteUserScenario :: "'s ScenarioStore \<Rightarrow> User option \<Rightarrow> string \<Rightarrow> 's \<Rightarrow> response \<times> 's" where
  "DeleteUserScenario store user slug s =
     (case loadScenario store slug s of
        (Inl r, s1) \<Rightarrow> (r, s1)
      | (Inr sc, s1) \<Rightarrow>
      (case authorizeScenario user sc of
         Some r \<Rightarrow> (r, s1)
       | None \<Rightarrow>
      (case sc_DeleteUserScenario store (uc_ID sc) s1 of
         (Inl _, s2) \<Rightarrow> (writeInternalError, s2)
       | (Inr _, s2) \<Rightarrow> (respond 204 NoBody, s2))))"

subsection \<open>What the handlers need of a store\<close>

lemma mintLoopIn_state:
  assumes "mintLoopIn get base k s = (res, s')" and "P s" and "\<And>slug s. P s \<Longrightarrow> P (snd (get slug s))"
  shows "P s'"
  using assms
proof (induction get base k s rule: mintLoopIn.induct)
  case (1 get base k s)
  obtain r s1 where g: "get (slug_candidate base k) s = (r, s1)" by fastforce
  show ?case
  proof (cases "k > maxSlugAttempts")
    case True
    with "1.prems"(1,2) show ?thesis by (subst (asm) mintLoopIn.simps) auto
  next
    case False
    have "P s1" using "1.prems"(3) [OF "1.prems"(2), of "slug_candidate base k"] g by simp
    with 1 False g show ?thesis by (subst (asm) (2) mintLoopIn.simps) (auto split: sum.splits option.splits)
  qed
qed

text \<open>
  \<open>J\<close> is the invariant of the store; \<open>owns owner ids s\<close> says that the services \<open>ids\<close> exist and belong
  to \<open>owner\<close>, \<open>known sc s\<close> that a row with the id of \<open>sc\<close> has its owner.
\<close>

locale scenario_store =
  fixes store :: "'s ScenarioStore" and J :: "'s \<Rightarrow> bool" and owns :: "string \<Rightarrow> string list \<Rightarrow> 's \<Rightarrow> bool"
    and known :: "UserScenario \<Rightarrow> 's \<Rightarrow> bool"
  assumes create_keeps: "J s \<Longrightarrow> owns (uc_OwnerID sc) (uc_ServiceIDs sc) s \<Longrightarrow> J (snd (sc_CreateUserScenario store sc s))"
    and update_keeps: "J s \<Longrightarrow> owns (uc_OwnerID sc) (uc_ServiceIDs sc) s \<Longrightarrow> known sc s \<Longrightarrow>
      J (snd (sc_UpdateUserScenario store sc s))"
    and delete_keeps: "J s \<Longrightarrow> J (snd (sc_DeleteUserScenario store i s))"
    and by_id_keeps: "J (snd (sc_GetUserScenarioByID store i s)) \<longleftrightarrow> J s"
    and by_slug_keeps: "J (snd (sc_GetUserScenarioBySlug store slug s)) \<longleftrightarrow> J s"
    and by_slug_owns: "owns owner ids (snd (sc_GetUserScenarioBySlug store slug s)) \<longleftrightarrow> owns owner ids s"
    and list_keeps: "J (snd (sc_ListUserScenariosByOwner store owner s)) \<longleftrightarrow> J s"
    and owned_keeps: "J (snd (sc_UserServiceIDsOwnedBy store owner ids s)) \<longleftrightarrow> J s"
    and owned_known: "known sc (snd (sc_UserServiceIDsOwnedBy store owner ids s)) \<longleftrightarrow> known sc s"
    and owned: "sc_UserServiceIDsOwnedBy store owner ids s = (Inr found, s') \<Longrightarrow> set ids \<subseteq> set found \<Longrightarrow> owns owner ids s'"
    and owns_none: "owns owner [] s"
    and loaded: "J s \<Longrightarrow> sc_GetUserScenarioBySlug store slug s = (Inr (Some sc), s') \<Longrightarrow> known sc s'"
    and known_cong: "uc_ID a = uc_ID b \<Longrightarrow> uc_OwnerID a = uc_OwnerID b \<Longrightarrow> known a s \<longleftrightarrow> known b s"
begin

lemma loadScenario_keeps:
  assumes "J s" and "loadScenario store slug s = (res, s')"
  shows "J s'" and "res = Inr sc \<Longrightarrow> known sc s'"
  using assms by_slug_keeps [of slug s] loaded [OF assms(1), of slug sc s']
  by (auto simp: loadScenario_def split: prod.splits sum.splits option.splits)

text \<open>Validation passes only scenarios whose members their owner owns.\<close>

lemma validateScenario_keeps:
  assumes "J s" and "validateScenario u store sc s = (res, s')"
  shows "J s'" and "known x s' \<longleftrightarrow> known x s" and "res = None \<Longrightarrow> owns (uc_OwnerID sc) (uc_ServiceIDs sc) s'"
proof -
  let ?q = "sc_UserServiceIDsOwnedBy store (uc_OwnerID sc) (uc_ServiceIDs sc) s"
  show "J s'" and "known x s' \<longleftrightarrow> known x s"
    using assms owned_keeps [of "uc_OwnerID sc" "uc_ServiceIDs sc" s] owned_known [of x "uc_OwnerID sc" "uc_ServiceIDs sc" s]
    by (auto simp: validateScenario_def split: prod.splits sum.splits option.splits if_splits)
  show "owns (uc_OwnerID sc) (uc_ServiceIDs sc) s'" if "res = None"
  proof (cases "uc_ServiceIDs sc = []")
    case True
    then show ?thesis by (simp add: owns_none)
  next
    case False
    with assms(2) that obtain found where "?q = (Inr found, s')" "List.find (\<lambda>i. i \<notin> set found) (uc_ServiceIDs sc) = None"
      by (auto simp: validateScenario_def split: prod.splits sum.splits option.splits if_splits)
    then show ?thesis by (intro owned) (auto simp: find_None_iff)
  qed
qed

lemma applied [simp]:
  "uc_ID (applyScenario req wait sc) = uc_ID sc" "uc_OwnerID (applyScenario req wait sc) = uc_OwnerID sc"
  by (simp_all add: applyScenario_def Let_def split: option.split)

lemma rereadScenario_keeps: "J (snd (rereadScenario store sc s)) \<longleftrightarrow> J s"
  using by_id_keeps [of "uc_ID sc" s] by (auto simp: rereadScenario_def split: prod.splits sum.splits option.splits)

lemma written_keeps:
  assumes "J (snd (write sc s))"
  shows "J (snd (case write sc s of
         (Inl _, s3) \<Rightarrow> (writeInternalError, s3)
       | (Inr _, s3) \<Rightarrow> (let (saved, s4) = rereadScenario store sc s3 in (f saved, s4))))"
  using assms rereadScenario_keeps [of sc "snd (write sc s)"]
  by (auto simp: case_prod_beta Let_def split: sum.split)

lemma CreateUserScenario_keeps:
  assumes "J s"
  shows "J (snd (CreateUserScenario u store w newID user body s))"
proof (cases "\<exists>who req wait i. user = Some who \<and> decodeScenarioRequest body = Inr (req, wait) \<and> newID = Inr i")
  case True
  then obtain who req wait i where p: "user = Some who" "decodeScenarioRequest body = Inr (req, wait)" "newID = Inr i" by blast
  let ?sc = "applyScenario req wait (newScenario i (u_ID who))"
  obtain r1 s1 where v: "validateScenario u store ?sc s = (r1, s1)" by fastforce
  note V = validateScenario_keeps [OF assms v]
  obtain r2 s2 where m: "mintScenarioSlugIn u store (uc_Name ?sc) s1 = (r2, s2)" by fastforce
  have m2: "J s2 \<and> (owns (uc_OwnerID ?sc) (uc_ServiceIDs ?sc) s1 \<longrightarrow> owns (uc_OwnerID ?sc) (uc_ServiceIDs ?sc) s2)"
    by (rule mintLoopIn_state [OF m [unfolded mintScenarioSlugIn_def]]) (use V(1) in \<open>simp_all add: by_slug_keeps by_slug_owns\<close>)
  show ?thesis
  proof (cases r1)
    case None
    have "J (snd (sc_CreateUserScenario store (?sc\<lparr>uc_Slug := slug\<rparr>) s2))" for slug
      using m2 V(3) [OF None] by (intro create_keeps) simp_all
    from written_keeps [of "sc_CreateUserScenario store", OF this] show ?thesis
      using p v m None m2 by (cases r2) (simp_all add: CreateUserScenario_def Let_def)
  qed (use p v V(1) in \<open>simp add: CreateUserScenario_def Let_def\<close>)
qed (use assms in \<open>auto simp: CreateUserScenario_def split: option.split sum.split\<close>)

lemma UpdateUserScenario_keeps:
  assumes "J s"
  shows "J (snd (UpdateUserScenario u store w user slug body s))"
proof -
  obtain r1 s1 where l: "loadScenario store slug s = (r1, s1)" by fastforce
  note L = loadScenario_keeps [OF assms l]
  show ?thesis
  proof (cases "\<exists>sc req wait. r1 = Inr sc \<and> authorizeScenario user sc = None \<and> decodeScenarioRequest body = Inr (req, wait)")
    case True
    then obtain sc req wait where p: "r1 = Inr sc" "authorizeScenario user sc = None" "decodeScenarioRequest body = Inr (req, wait)"
      by blast
    let ?sc = "applyScenario req wait sc"
    obtain r2 s2 where v: "validateScenario u store ?sc s1 = (r2, s2)" by fastforce
    note V = validateScenario_keeps [OF L(1) v]
    have "known ?sc s2" using V(2) [of ?sc] known_cong [of ?sc sc s1] L(2) [OF p(1)] by simp
    then have "r2 = None \<Longrightarrow> J (snd (sc_UpdateUserScenario store ?sc s2))" by (intro update_keeps V(1) V(3))
    then show ?thesis
      using l p v V(1) written_keeps [of "sc_UpdateUserScenario store" ?sc s2] by (cases r2) (simp_all add: UpdateUserScenario_def Let_def)
  next
    case False
    with L(1) show ?thesis by (auto simp: UpdateUserScenario_def l split: sum.splits option.splits)
  qed
qed

lemma DeleteUserScenario_keeps:
  assumes "J s"
  shows "J (snd (DeleteUserScenario store user slug s))"
proof -
  obtain r1 s1 where l: "loadScenario store slug s = (r1, s1)" by fastforce
  note L = loadScenario_keeps(1) [OF assms l]
  then show ?thesis
    using delete_keeps [OF L] by (auto simp: DeleteUserScenario_def l split: prod.splits sum.splits option.splits) (metis snd_conv)+
qed

end

subsection \<open>The members of a scenario belong to its owner\<close>

definition owns :: "string \<Rightarrow> string list \<Rightarrow> Db \<Rightarrow> bool" where
  "owns owner ids db \<longleftrightarrow> (\<forall>i \<in> set ids. \<exists>s \<in> set (db_services db). sr_id s = i \<and> sr_owner_id s = owner)"

definition known_scenario :: "UserScenario \<Rightarrow> Db \<Rightarrow> bool" where
  "known_scenario sc db \<longleftrightarrow> (\<forall>c \<in> set (db_scenarios db). cr_id c = uc_ID sc \<longrightarrow> cr_owner_id c = uc_OwnerID sc)"

definition member_ok :: "ServiceRow list \<Rightarrow> ScenarioRow list \<Rightarrow> MemberRow \<Rightarrow> bool" where
  "member_ok services scenarios m \<longleftrightarrow>
     (\<exists>c \<in> set scenarios. \<exists>s \<in> set services.
        cr_id c = mb_scenario m \<and> sr_id s = mb_service m \<and> sr_owner_id s = cr_owner_id c)"

definition members_ok :: "Db \<Rightarrow> bool" where
  "members_ok db \<longleftrightarrow> distinct (map cr_id (db_scenarios db)) \<and> distinct (map cr_slug (db_scenarios db)) \<and>
     (\<forall>m \<in> set (db_members db). member_ok (db_services db) (db_scenarios db) m)"

lemma members_ok_cong:
  assumes "db_services db' = db_services db" "db_scenarios db' = db_scenarios db" "db_members db' = db_members db"
  shows "members_ok db' \<longleftrightarrow> members_ok db" "owns owner ids db' \<longleftrightarrow> owns owner ids db" "known_scenario sc db' \<longleftrightarrow> known_scenario sc db"
  using assms by (simp_all add: members_ok_def owns_def known_scenario_def)

lemma members_ok_outages [simp]:
  "members_ok (db\<lparr>db_outages := r\<rparr>) \<longleftrightarrow> members_ok db" "owns owner ids (db\<lparr>db_outages := r\<rparr>) \<longleftrightarrow> owns owner ids db"
  "known_scenario sc (db\<lparr>db_outages := r\<rparr>) \<longleftrightarrow> known_scenario sc db"
  by (rule members_ok_cong; simp)+

lemma members_ok_select [simp]:
  "members_ok (snd (select op q db)) \<longleftrightarrow> members_ok db" "owns owner ids (snd (select op q db)) \<longleftrightarrow> owns owner ids db"
  "known_scenario sc (snd (select op q db)) \<longleftrightarrow> known_scenario sc db"
  using select_cases [of op q db "fst (select op q db)" "snd (select op q db)"] by (metis members_ok_outages prod.collapse)+

lemma insertUserScenarioMembership_Inr:
  assumes "insertUserScenarioMembership k ids db = Inr db'"
  shows "db' = db\<lparr>db_members := db_members db @ map (\<lambda>i. \<lparr>mb_scenario = k, mb_service = i\<rparr>) ids\<rparr>"
  using assms by (induction k ids db rule: insertUserScenarioMembership.induct) auto

lemma members_inserted:
  assumes "members_ok db" and "owns owner ids db" and "c \<in> set (db_scenarios db)" "cr_id c = k" "cr_owner_id c = owner"
  shows "members_ok (db\<lparr>db_members := db_members db @ map (\<lambda>i. \<lparr>mb_scenario = k, mb_service = i\<rparr>) ids\<rparr>)"
  using assms by (fastforce simp: members_ok_def owns_def member_ok_def)

lemma repo_CreateUserScenario_keeps:
  assumes "members_ok db" and "owns (uc_OwnerID sc) (uc_ServiceIDs sc) db"
  shows "members_ok (snd (repo_CreateUserScenario sc db))"
proof -
  let ?I = "\<lambda>db. members_ok db \<and> owns (uc_OwnerID sc) (uc_ServiceIDs sc) db"
  have "?I (snd (repo_CreateUserScenario sc db))"
    unfolding repo_CreateUserScenario_def
  proof (rule transact_preserves [where I = ?I], goal_cases start outage body)
    case (body db x db')
    let ?db = "db\<lparr>db_scenarios := db_scenarios db @ [scenarioRow sc (db_now db)]\<rparr>"
    from body have db': "db' = ?db\<lparr>db_members := db_members ?db @ map (\<lambda>i. \<lparr>mb_scenario = uc_ID sc, mb_service = i\<rparr>) (uc_ServiceIDs sc)\<rparr>"
      and new: "\<forall>c \<in> set (db_scenarios db). cr_id c \<noteq> uc_ID sc \<and> cr_slug c \<noteq> uc_Slug sc"
      by (auto dest!: insertUserScenarioMembership_Inr simp: list_ex_iff)
    have row: "cr_id (scenarioRow sc t) = uc_ID sc" "cr_owner_id (scenarioRow sc t) = uc_OwnerID sc"
      "cr_slug (scenarioRow sc t) = uc_Slug sc" for t
      by (simp_all add: scenarioRow_def case_prod_beta)
    have "members_ok ?db" using body(1) new row by (auto simp: members_ok_def member_ok_def)
    moreover have "owns (uc_OwnerID sc) (uc_ServiceIDs sc) ?db" using body(1) by (simp add: owns_def)
    ultimately have "members_ok db'" unfolding db' by (rule members_inserted) (use row in auto)
    with body(1) show ?case by (simp add: db' owns_def)
  qed (use assms in simp_all)
  then show ?thesis ..
qed

lemma repo_UpdateUserScenario_keeps:
  assumes "members_ok db" and "owns (uc_OwnerID sc) (uc_ServiceIDs sc) db" and "known_scenario sc db"
  shows "members_ok (snd (repo_UpdateUserScenario sc db))"
proof -
  obtain res db' where r: "repo_UpdateUserScenario sc db = (res, db')" by fastforce
  from r [unfolded repo_UpdateUserScenario_def] show ?thesis
  proof (cases rule: transact_cases)
    case (committed x rest)
    let ?db = "db\<lparr>db_outages := rest\<rparr>"
    let ?db1 = "?db\<lparr>db_scenarios := update_where (\<lambda>c. cr_id c = uc_ID sc) (updatedScenarioRow sc (db_now db)) (db_scenarios db),
      db_members := delete_where (\<lambda>m. mb_scenario m = uc_ID sc) (db_members db)\<rparr>"
    from committed have db': "db' = ?db1\<lparr>db_members := db_members ?db1 @ map (\<lambda>i. \<lparr>mb_scenario = uc_ID sc, mb_service = i\<rparr>) (uc_ServiceIDs sc)\<rparr>"
      and ex: "\<exists>c \<in> set (db_scenarios db). cr_id c = uc_ID sc"
      by (auto dest!: insertUserScenarioMembership_Inr simp: list_ex_iff)
    have row: "cr_id (updatedScenarioRow sc t c) = cr_id c" "cr_owner_id (updatedScenarioRow sc t c) = cr_owner_id c"
      "cr_slug (updatedScenarioRow sc t c) = cr_slug c" for t c
      by (simp_all add: updatedScenarioRow_def case_prod_beta)
    have keys: "map cr_id (db_scenarios ?db1) = map cr_id (db_scenarios db)" "map cr_slug (db_scenarios ?db1) = map cr_slug (db_scenarios db)"
      by (simp_all add: update_where_key row)
    have kept: "\<exists>c' \<in> set (db_scenarios ?db1). cr_id c' = cr_id c \<and> cr_owner_id c' = cr_owner_id c" if "c \<in> set (db_scenarios db)" for c
      using that row by (intro rev_bexI [where x = "if cr_id c = uc_ID sc then updatedScenarioRow sc (db_now db) c else c"])
        (simp_all add: update_where_def)
    have "members_ok ?db1"
      using assms(1) unfolding members_ok_def keys
      by (auto simp: member_ok_def) (metis kept [simplified])
    moreover have "owns (uc_OwnerID sc) (uc_ServiceIDs sc) ?db1" using assms(2) by (simp add: owns_def)
    moreover obtain c where "c \<in> set (db_scenarios ?db1)" "cr_id c = uc_ID sc" "cr_owner_id c = uc_OwnerID sc"
      using ex kept assms(3) unfolding known_scenario_def by metis
    ultimately have "members_ok db'" unfolding db' by (rule members_inserted)
    with r show ?thesis by simp
  qed (use assms(1) r in simp)
qed

lemma repo_DeleteUserScenario_keeps:
  assumes "members_ok db"
  shows "members_ok (snd (repo_DeleteUserScenario i db))"
  unfolding repo_DeleteUserScenario_def
proof (rule transact_preserves [where I = members_ok, OF assms], goal_cases outage body)
  case (body db x db')
  then show ?case by (auto simp: members_ok_def member_ok_def delete_where_def distinct_map_filter) metis
qed simp

text \<open>The service repository keeps the members too: it never changes the owner of a row, and a deleted
  service takes its memberships along.\<close>

lemma members_ok_mono:
  assumes "members_ok db" and "db_scenarios db' = db_scenarios db" and "set (db_members db') \<subseteq> set (db_members db)"
    and "\<And>s. s \<in> set (db_services db) \<Longrightarrow> sr_id s \<in> mb_service ` set (db_members db') \<Longrightarrow>
      \<exists>s' \<in> set (db_services db'). sr_id s' = sr_id s \<and> sr_owner_id s' = sr_owner_id s"
  shows "members_ok db'"
proof -
  have "member_ok (db_services db') (db_scenarios db') m" if m: "m \<in> set (db_members db')" for m
  proof -
    from assms(1,3) m obtain c s where cs: "c \<in> set (db_scenarios db)" "s \<in> set (db_services db)"
      "cr_id c = mb_scenario m" "sr_id s = mb_service m" "sr_owner_id s = cr_owner_id c"
      unfolding members_ok_def member_ok_def by blast
    from assms(4) [OF cs(2)] m cs show ?thesis unfolding member_ok_def assms(2) by (metis imageI)
  qed
  with assms(1,2) show ?thesis by (simp add: members_ok_def)
qed

lemma CreateUserService_members: "members_ok db \<Longrightarrow> members_ok (snd (CreateUserService svc db))"
  unfolding CreateUserService_def
  by (erule transact_preserves [where I = members_ok]) (auto simp: Let_def elim!: members_ok_mono)

lemma UpdateUserService_members:
  assumes "members_ok db"
  shows "members_ok (snd (UpdateUserService svc db))"
  unfolding UpdateUserService_def
proof (rule transact_preserves [where I = members_ok, OF assms], goal_cases outage body)
  case (body db x db')
  let ?upd = "\<lambda>s. if sr_id s = us_ID svc then updatedRow svc (db_now db) s else s"
  from body(2) have t: "db_services db' = map ?upd (db_services db)" "db_scenarios db' = db_scenarios db" "db_members db' = db_members db"
    by (auto simp: Let_def update_where_def)
  have same: "sr_id (?upd s) = sr_id s \<and> sr_owner_id (?upd s) = sr_owner_id s" for s by (simp add: updatedRow_def case_prod_beta)
  show ?case
    by (rule members_ok_mono [OF body(1)]) (use t same in \<open>simp_all only: set_map bex_simps order_refl, blast\<close>)
qed simp

lemma DeleteUserService_members:
  assumes "members_ok db"
  shows "members_ok (snd (DeleteUserService i db))"
  unfolding DeleteUserService_def
proof (rule transact_preserves [where I = members_ok, OF assms], goal_cases outage body)
  case (body db x db')
  then show ?case by (auto elim!: members_ok_mono)
qed simp

definition scenarioRepo :: "Db ScenarioStore" where
  "scenarioRepo = \<lparr>sc_CreateUserScenario = repo_CreateUserScenario, sc_GetUserScenarioByID = GetUserScenarioByID,
     sc_GetUserScenarioBySlug = GetUserScenarioBySlug, sc_ListUserScenariosByOwner = ListUserScenariosByOwner,
     sc_UpdateUserScenario = repo_UpdateUserScenario, sc_DeleteUserScenario = repo_DeleteUserScenario,
     sc_UserServiceIDsOwnedBy = UserServiceIDsOwnedBy\<rparr>"

lemma UserServiceIDsOwnedBy_owns:
  assumes "UserServiceIDsOwnedBy owner ids db = (Inr found, db')" and "set ids \<subseteq> set found"
  shows "owns owner ids db'"
proof (cases "ids = []")
  case False
  from assms(1) False [unfolded not_def] show ?thesis
    unfolding UserServiceIDsOwnedBy_def if_not_P [OF False]
  proof (cases rule: select_cases)
    case (found rest)
    with assms(2) show ?thesis by (auto simp: owns_def)
  qed simp
qed (simp add: owns_def)

lemma GetUserScenarioBySlug_known:
  assumes "members_ok db" and "GetUserScenarioBySlug slug db = (Inr (Some sc), db')"
  shows "known_scenario sc db'"
  using assms(2) unfolding GetUserScenarioBySlug_def getUserScenarioBy_def
proof (cases rule: select_cases)
  case (found rest)
  then obtain c where c: "List.find (\<lambda>c. cr_slug c = slug) (db_scenarios db) = Some c"
    and sc: "uc_ID sc = cr_id c" "uc_OwnerID sc = cr_owner_id c"
    by (auto simp: scanUserScenario_def split: option.splits)
  have "known_scenario sc db"
    using assms(1) find_SomeD [OF c] by (auto simp: known_scenario_def sc members_ok_def distinct_map inj_on_def)
  with found(2) show ?thesis by simp
qed simp

lemma owned_select:
  "members_ok (snd (UserServiceIDsOwnedBy owner ids db)) \<longleftrightarrow> members_ok db"
  "known_scenario sc (snd (UserServiceIDsOwnedBy owner ids db)) \<longleftrightarrow> known_scenario sc db"
  by (simp_all add: UserServiceIDsOwnedBy_def)

interpretation scenarios: scenario_store scenarioRepo members_ok owns known_scenario
proof unfold_locales
  show "owns owner ids db'"
    if "sc_UserServiceIDsOwnedBy scenarioRepo owner ids db = (Inr found, db')" "set ids \<subseteq> set found" for owner ids db found db'
    using that by (intro UserServiceIDsOwnedBy_owns) (simp_all add: scenarioRepo_def)
  show "known_scenario sc db'"
    if "members_ok db" "sc_GetUserScenarioBySlug scenarioRepo slug db = (Inr (Some sc), db')" for db slug sc db'
    using that by (intro GetUserScenarioBySlug_known) (simp_all add: scenarioRepo_def)
  show "known_scenario a db \<longleftrightarrow> known_scenario b db" if "uc_ID a = uc_ID b" "uc_OwnerID a = uc_OwnerID b" for a b db
    using that by (simp add: known_scenario_def)
  show "owns owner [] db" for owner db by (simp add: owns_def)
qed (simp_all add: scenarioRepo_def repo_CreateUserScenario_keeps repo_UpdateUserScenario_keeps repo_DeleteUserScenario_keeps
    GetUserScenarioByID_def GetUserScenarioBySlug_def getUserScenarioBy_def ListUserScenariosByOwner_def owned_select)

end
