(* ===== verification/Handover.thy ===== *)
theory Handover
  imports User_Scenarios
begin

text \<open>
  Handing an authored service over to another account: \<open>internal/persistence/postgres/handover.go\<close>,
  the record of \<open>internal/transit/handover.go\<close>, and the handlers of
  \<open>internal/handler/handover.go\<close> and \<open>internal/handler/adminhandover.go\<close>.

  Each transaction is one step: the source's row locks make concurrent transactions on one
  service take effect one after the other, so their interleavings are the orders of these
  steps. The handlers themselves are several steps. Identifiers the source draws with
  \<open>NewUUID\<close> are arguments (\<open>Inl\<close> when the random source failed).
\<close>

abbreviation HandoverPending :: string where "HandoverPending \<equiv> ''pending''"
abbreviation HandoverAccepted :: string where "HandoverAccepted \<equiv> ''accepted''"
abbreviation HandoverDeclined :: string where "HandoverDeclined \<equiv> ''declined''"
abbreviation HandoverCancelled :: string where "HandoverCancelled \<equiv> ''cancelled''"
abbreviation HandoverExpired :: string where "HandoverExpired \<equiv> ''expired''"

record ServiceHandover =
  sh_ID :: string
  sh_UserServiceID :: string
  sh_ServiceSlug :: string
  sh_ServiceName :: string
  sh_FromUserID :: string
  sh_FromName :: string
  sh_ToUserID :: string
  sh_ToName :: string
  sh_Status :: string
  sh_CreatedAt :: gotime
  sh_DecidedAt :: "gotime option"
  sh_ExpiresAt :: gotime
  sh_ForcedBy :: "string option"

subsection \<open>Reading offers\<close>

definition expiredPending :: "gotime \<Rightarrow> HandoverRow \<Rightarrow> bool" where
  "expiredPending now h \<longleftrightarrow> hr_status h = HandoverPending \<and> hr_expires_at h \<le> now"

definition livePending :: "gotime \<Rightarrow> HandoverRow \<Rightarrow> bool" where
  "livePending now h \<longleftrightarrow> hr_status h = HandoverPending \<and> hr_expires_at h > now"

definition findUser :: "Db \<Rightarrow> string \<Rightarrow> User option" where
  "findUser db i = map_option ur_user (List.find (\<lambda>r. u_ID (ur_user r) = i) (db_users db))"

definition findService :: "Db \<Rightarrow> string \<Rightarrow> ServiceRow option" where
  "findService db i = List.find (\<lambda>s. sr_id s = i) (db_services db)"

text \<open>\<open>handoverSelect\<close> and \<open>scanHandover\<close>: the row joined with its service and both parties.\<close>

definition scanHandover :: "Db \<Rightarrow> HandoverRow \<Rightarrow> ServiceHandover option" where
  "scanHandover db h =
     (case (findService db (hr_service h), findUser db (hr_from h), findUser db (hr_to h)) of
        (Some s, Some f, Some t) \<Rightarrow>
          Some \<lparr>sh_ID = hr_id h, sh_UserServiceID = hr_service h, sh_ServiceSlug = sr_slug s, sh_ServiceName = sr_name s,
            sh_FromUserID = hr_from h, sh_FromName = u_Name f, sh_ToUserID = hr_to h, sh_ToName = u_Name t,
            sh_Status = (if expiredPending (db_now db) h then HandoverExpired else hr_status h),
            sh_CreatedAt = hr_created_at h, sh_DecidedAt = hr_decided_at h, sh_ExpiresAt = hr_expires_at h,
            sh_ForcedBy = hr_forced_by h\<rparr>
      | _ \<Rightarrow> None)"

definition readHandover :: "Db \<Rightarrow> string \<Rightarrow> ServiceHandover option" where
  "readHandover db i =
     (case List.find (\<lambda>h. hr_id h = i) (db_handovers db) of None \<Rightarrow> None | Some h \<Rightarrow> scanHandover db h)"

definition readBack :: "string \<Rightarrow> string \<Rightarrow> Db \<Rightarrow> db_error + ServiceHandover \<times> Db" where
  "readBack op i db = (case readHandover db i of None \<Rightarrow> Inl (DbFault (op @ '' read'')) | Some h \<Rightarrow> Inr (h, db))"

definition HasPendingServiceHandover :: "string \<Rightarrow> bool repo" where
  "HasPendingServiceHandover serviceID = select ''HasPendingServiceHandover'' (\<lambda>db.
     list_ex (\<lambda>h. hr_service h = serviceID \<and> livePending (db_now db) h) (db_handovers db))"

definition handover_order :: "ServiceHandover \<Rightarrow> ServiceHandover \<Rightarrow> bool" where
  "handover_order a b \<longleftrightarrow> sh_CreatedAt b < sh_CreatedAt a \<or> (sh_CreatedAt a = sh_CreatedAt b \<and> sh_ID a < sh_ID b)"

definition ListPendingServiceHandovers :: "string \<Rightarrow> ServiceHandover list repo" where
  "ListPendingServiceHandovers userID = select ''ListPendingServiceHandovers'' (\<lambda>db.
     SliceStable handover_order (List.map_filter (scanHandover db)
       (filter (\<lambda>h. (hr_from h = userID \<or> hr_to h = userID) \<and> livePending (db_now db) h) (db_handovers db))))"

subsection \<open>Offering and deciding\<close>

definition expireStalePending :: "string \<Rightarrow> Db \<Rightarrow> Db" where
  "expireStalePending serviceID db =
     db\<lparr>db_handovers := update_where (\<lambda>h. hr_service h = serviceID \<and> expiredPending (db_now db) h)
          (\<lambda>h. h\<lparr>hr_status := HandoverExpired, hr_decided_at := Some (hr_expires_at h)\<rparr>) (db_handovers db)\<rparr>"

text \<open>An insert into \<open>service_handovers\<close> under the table's constraints.\<close>

definition insertHandover :: "HandoverRow \<Rightarrow> Db \<Rightarrow> db_error + Db" where
  "insertHandover h db =
     bind_res (require (hr_from h \<noteq> hr_to h) (CheckViolation ''service_handovers_not_to_self'')) (\<lambda>_.
     bind_res (require (hr_forced_by h = None \<or> hr_status h = HandoverAccepted)
         (CheckViolation ''service_handovers_forced_is_accepted'')) (\<lambda>_.
     bind_res (require (\<not> list_ex (\<lambda>r. hr_id r = hr_id h) (db_handovers db)) (UniqueViolation ''service_handovers_pkey'')) (\<lambda>_.
     bind_res (require (\<not> (hr_status h = HandoverPending \<and>
           list_ex (\<lambda>r. hr_service r = hr_service h \<and> hr_status r = HandoverPending) (db_handovers db)))
         (UniqueViolation ''service_handovers_one_pending'')) (\<lambda>_.
     bind_res (require (findService db (hr_service h) \<noteq> None) (ForeignKeyViolation ''user_service_id'')) (\<lambda>_.
     bind_res (require (list_all (\<lambda>i. findUser db i \<noteq> None)
         (hr_from h # hr_to h # (case hr_forced_by h of None \<Rightarrow> [] | Some admin \<Rightarrow> [admin])))
         (ForeignKeyViolation ''user_id'')) (\<lambda>_.
       Inr (db\<lparr>db_handovers := db_handovers db @ [h]\<rparr>)))))))"

definition pendingRow :: "ServiceHandover \<Rightarrow> gotime \<Rightarrow> gotime \<Rightarrow> HandoverRow" where
  "pendingRow h ttl now =
     \<lparr>hr_id = sh_ID h, hr_service = sh_UserServiceID h, hr_from = sh_FromUserID h, hr_to = sh_ToUserID h,
      hr_status = HandoverPending, hr_created_at = now, hr_decided_at = None, hr_expires_at = now + ttl, hr_forced_by = None\<rparr>"

definition OfferServiceHandover :: "ServiceHandover \<Rightarrow> gotime \<Rightarrow> ServiceHandover repo" where
  "OfferServiceHandover h ttl = transact ''OfferServiceHandover'' (\<lambda>db.
     bind_res (case insertHandover (pendingRow h ttl (db_now db)) (expireStalePending (sh_UserServiceID h) db) of
                 Inl e \<Rightarrow> Inl (if e = UniqueViolation ''service_handovers_one_pending'' then ErrHandoverPending else e)
               | Inr db' \<Rightarrow> Inr db')
       (readBack ''OfferServiceHandover'' (sh_ID h)))"

datatype handoverParty = sender | recipient

definition partyOf :: "handoverParty \<Rightarrow> HandoverRow \<Rightarrow> string" where
  "partyOf p h = (case p of sender \<Rightarrow> hr_from h | recipient \<Rightarrow> hr_to h)"

definition decideHandover :: "string \<Rightarrow> handoverParty \<Rightarrow> string \<Rightarrow> string \<Rightarrow> string \<Rightarrow> ServiceHandover repo" where
  "decideHandover op p i callerID status db =
     (case transact op (\<lambda>db.
             let hit = (\<lambda>h. hr_id h = i \<and> partyOf p h = callerID \<and> livePending (db_now db) h) in
             Inr (length (filter hit (db_handovers db)) = 1,
                  db\<lparr>db_handovers := update_where hit (\<lambda>h. h\<lparr>hr_status := status, hr_decided_at := Some (db_now db)\<rparr>)
                       (db_handovers db)\<rparr>)) db of
        (Inl e, db1) \<Rightarrow> (Inl e, db1)
      | (Inr True, db1) \<Rightarrow> transact (op @ '' read'') (readBack op i) db1
      | (Inr False, db1) \<Rightarrow>
          (case select (op @ '' lookup'') (\<lambda>db. list_ex (\<lambda>h. hr_id h = i \<and> partyOf p h = callerID) (db_handovers db)) db1 of
             (Inl e, db2) \<Rightarrow> (Inl e, db2)
           | (Inr found, db2) \<Rightarrow> (Inl (if found then ErrHandoverNotPending else ErrHandoverNotFound), db2)))"

definition CancelServiceHandover :: "string \<Rightarrow> string \<Rightarrow> ServiceHandover repo" where
  "CancelServiceHandover i fromUserID = decideHandover ''CancelServiceHandover'' sender i fromUserID HandoverCancelled"

definition DeclineServiceHandover :: "string \<Rightarrow> string \<Rightarrow> ServiceHandover repo" where
  "DeclineServiceHandover i toUserID = decideHandover ''DeclineServiceHandover'' recipient i toUserID HandoverDeclined"

subsection \<open>Moving a service\<close>

definition refuseDisabledRecipient :: "string \<Rightarrow> string \<Rightarrow> Db \<Rightarrow> db_error + unit" where
  "refuseDisabledRecipient op userID db =
     (case findUser db userID of
        None \<Rightarrow> Inl (DbFault (op @ '' recipient''))
      | Some who \<Rightarrow> if u_DisabledAt who \<noteq> None then Inl ErrHandoverRecipientDisabled else Inr ())"

definition lockUserService :: "Db \<Rightarrow> string \<Rightarrow> (string \<times> string) option" where
  "lockUserService db serviceID = map_option (\<lambda>s. (sr_owner_id s, sr_route_id s)) (findService db serviceID)"

definition scenarioSlugsContaining :: "Db \<Rightarrow> string \<Rightarrow> string list" where
  "scenarioSlugsContaining db serviceID =
     SliceStable (less_by (\<lambda>s. s)) (concat (map (\<lambda>m. map cr_slug (filter (\<lambda>c. cr_id c = mb_scenario m) (db_scenarios db)))
       (filter (\<lambda>m. mb_service m = serviceID) (db_members db))))"

definition maxRouteCopyAttempts :: nat where "maxRouteCopyAttempts = 100"

text \<open>The insert-or-skip loop of \<open>copyRouteTo\<close>: the unique index on the slug decides.\<close>

function copyRouteLoop :: "Route \<Rightarrow> string \<Rightarrow> string \<Rightarrow> nat \<Rightarrow> Db \<Rightarrow> db_error + Db" where
  "copyRouteLoop rt copyID ownerID attempt db =
     (if attempt > maxRouteCopyAttempts then Inl (NoFreeRouteSlug (rt_Slug rt))
      else if list_ex (\<lambda>r. rt_Slug r = suffixed (rt_Slug rt) attempt) (db_routes db)
      then copyRouteLoop rt copyID ownerID (Suc attempt) db
      else Inr (db\<lparr>db_routes := db_routes db @
             [rt\<lparr>rt_ID := copyID, rt_ScenarioID := None, rt_OwnerID := Some ownerID, rt_Slug := suffixed (rt_Slug rt) attempt\<rparr>]\<rparr>))"
  by auto
termination by (relation "measure (\<lambda>(rt, copyID, ownerID, attempt, db). Suc maxRouteCopyAttempts - attempt)") auto

declare copyRouteLoop.simps [simp del]

definition copyRouteTo :: "string \<Rightarrow> 'r + string \<Rightarrow> Route \<Rightarrow> string \<Rightarrow> Db \<Rightarrow> db_error + string \<times> Db" where
  "copyRouteTo op newID rt ownerID db =
     (case newID of
        Inl _ \<Rightarrow> Inl UuidSource
      | Inr copyID \<Rightarrow>
          bind_res (require (\<not> list_ex (\<lambda>r. rt_ID r = copyID) (db_routes db)) (UniqueViolation ''routes_pkey'')) (\<lambda>_.
          bind_res (copyRouteLoop rt copyID ownerID 2 db) (\<lambda>db'. Inr (copyID, db'))))"

definition setRoute :: "string \<Rightarrow> string \<Rightarrow> Db \<Rightarrow> Db" where
  "setRoute serviceID routeID db =
     db\<lparr>db_services := update_where (\<lambda>s. sr_id s = serviceID) (\<lambda>s. s\<lparr>sr_route_id := routeID\<rparr>) (db_services db)\<rparr>"

definition setOwner :: "string \<Rightarrow> string \<Rightarrow> Db \<Rightarrow> Db" where
  "setOwner serviceID ownerID db =
     db\<lparr>db_services := update_where (\<lambda>s. sr_id s = serviceID)
          (\<lambda>s. s\<lparr>sr_owner_id := ownerID, sr_updated_at := db_now db\<rparr>) (db_services db),
        db_jobs := update_where (\<lambda>j. job_UserServiceID j = Some serviceID)
          (\<lambda>j. j\<lparr>job_OwnerID := Some ownerID\<rparr>) (db_jobs db)\<rparr>"

definition moveLockedUserService ::
  "string \<Rightarrow> 'r + string \<Rightarrow> string \<Rightarrow> string \<Rightarrow> string \<Rightarrow> Db \<Rightarrow> db_error + Db" where
  "moveLockedUserService op newID serviceID routeID toUserID db =
     (let slugs = scenarioSlugsContaining db serviceID in
      if slugs \<noteq> [] then Inl (ServiceInScenariosError slugs)
      else (case List.find (\<lambda>r. rt_ID r = routeID) (db_routes db) of
              None \<Rightarrow> Inl (DbFault (op @ '' route''))
            | Some rt \<Rightarrow>
                bind_res
                  (case rt_OwnerID rt of
                     None \<Rightarrow> Inr db
                   | Some routeOwner \<Rightarrow>
                       if routeOwner = toUserID then Inr db
                       else bind_res (copyRouteTo op newID rt toUserID db) (\<lambda>(copyID, db1). Inr (setRoute serviceID copyID db1)))
                  (\<lambda>db2. Inr (setOwner serviceID toUserID db2))))"

definition closeHandover :: "string \<Rightarrow> Db \<Rightarrow> Db" where
  "closeHandover i db =
     db\<lparr>db_handovers := update_where (\<lambda>h. hr_id h = i)
          (\<lambda>h. h\<lparr>hr_status := HandoverAccepted, hr_decided_at := Some (db_now db)\<rparr>) (db_handovers db)\<rparr>"

definition AcceptServiceHandover :: "'r + string \<Rightarrow> string \<Rightarrow> string \<Rightarrow> ServiceHandover repo" where
  "AcceptServiceHandover newID i toUserID = transact ''AcceptServiceHandover'' (\<lambda>db.
     case List.find (\<lambda>h. hr_id h = i \<and> hr_to h = toUserID) (db_handovers db) of
       None \<Rightarrow> Inl ErrHandoverNotFound
     | Some h \<Rightarrow>
         (case lockUserService db (hr_service h) of
            None \<Rightarrow> Inl ErrHandoverNotFound
          | Some (ownerID, routeID) \<Rightarrow>
              if \<not> livePending (db_now db) h then Inl ErrHandoverNotPending
              else if ownerID \<noteq> hr_from h then Inl ErrHandoverSenderNotOwner
              else bind_res (refuseDisabledRecipient ''AcceptServiceHandover'' toUserID db) (\<lambda>_.
                   bind_res (moveLockedUserService ''AcceptServiceHandover'' newID (hr_service h) routeID toUserID db) (\<lambda>db1.
                     readBack ''AcceptServiceHandover'' i (closeHandover i db1)))))"

definition cancelPending :: "string \<Rightarrow> Db \<Rightarrow> Db" where
  "cancelPending serviceID db =
     db\<lparr>db_handovers := update_where (\<lambda>h. hr_service h = serviceID \<and> livePending (db_now db) h)
          (\<lambda>h. h\<lparr>hr_status := HandoverCancelled, hr_decided_at := Some (db_now db)\<rparr>) (db_handovers db)\<rparr>"

definition forcedRow :: "string \<Rightarrow> string \<Rightarrow> string \<Rightarrow> string \<Rightarrow> string \<Rightarrow> gotime \<Rightarrow> HandoverRow" where
  "forcedRow i serviceID ownerID toUserID forcedBy now =
     \<lparr>hr_id = i, hr_service = serviceID, hr_from = ownerID, hr_to = toUserID, hr_status = HandoverAccepted,
      hr_created_at = now, hr_decided_at = Some now, hr_expires_at = now, hr_forced_by = Some forcedBy\<rparr>"

definition TransferUserService ::
  "'r + string \<Rightarrow> 'r + string \<Rightarrow> string \<Rightarrow> string \<Rightarrow> string \<Rightarrow> ServiceHandover repo" where
  "TransferUserService newRouteID newID serviceID toUserID forcedBy = transact ''TransferUserService'' (\<lambda>db.
     case lockUserService db serviceID of
       None \<Rightarrow> Inl (NoSuchRow ''TransferUserService'' serviceID)
     | Some (ownerID, routeID) \<Rightarrow>
         if ownerID = toUserID then Inl ErrHandoverToOwner
         else bind_res (refuseDisabledRecipient ''TransferUserService'' toUserID db) (\<lambda>_.
              bind_res (moveLockedUserService ''TransferUserService'' newRouteID serviceID routeID toUserID db) (\<lambda>db1.
              (let db2 = cancelPending serviceID (expireStalePending serviceID db1) in
               case newID of
                 Inl _ \<Rightarrow> Inl UuidSource
               | Inr i \<Rightarrow>
                   bind_res (insertHandover (forcedRow i serviceID ownerID toUserID forcedBy (db_now db2)) db2) (\<lambda>db3.
                     readBack ''TransferUserService'' i db3)))))"

subsection \<open>The handlers\<close>

definition HandoverTTL :: gotime where
  "HandoverTTL = 14 * 24 * 3600 * 1000000000"

definition GetUserByEmail :: "string \<Rightarrow> User option repo" where
  "GetUserByEmail email = select ''scanUser'' (\<lambda>db. List.find (\<lambda>who. u_Email who = email) (map ur_user (db_users db)))"

definition GetUserByID :: "string \<Rightarrow> User option repo" where
  "GetUserByID i = select ''scanUser'' (\<lambda>db. findUser db i)"

datatype handover_body =
    HandoverError string
  | HandoverScenarios "string list"
  | OfferAccepted string
  | IncomingHandover ServiceHandover
  | OutgoingHandover ServiceHandover
  | MyHandoversBody "ServiceHandover list" "ServiceHandover list"
  | ForcedHandover ServiceHandover

text \<open>\<open>strings.ToLower(strings.TrimSpace(email))\<close>\<close>

definition normalizeEmail :: "unicode_tables \<Rightarrow> string \<Rightarrow> string" where
  "normalizeEmail u email = concat (map encode_rune (map (ToLower u) (runes (TrimSpaceString u email))))"

definition of_response :: "response \<Rightarrow> nat \<times> handover_body" where
  "of_response r = (rp_status r, HandoverError (case rp_body r of ErrorBody m \<Rightarrow> m | _ \<Rightarrow> []))"

abbreviation internalError :: "nat \<times> handover_body" where
  "internalError \<equiv> (500, HandoverError ''internal error'')"

text \<open>The body of the request carries the recipient's address.\<close>

definition OfferHandover ::
  "unicode_tables \<Rightarrow> 'r + string \<Rightarrow> User option \<Rightarrow> string \<Rightarrow> string decoded \<Rightarrow> Db \<Rightarrow> (nat \<times> handover_body) \<times> Db" where
  "OfferHandover u newID user slug body db =
     (case loadService repoStore slug db of
        (Inl r, db1) \<Rightarrow> (of_response r, db1)
      | (Inr svc, db1) \<Rightarrow>
      (case authorizeService user svc of
         Some r \<Rightarrow> (of_response r, db1)
       | None \<Rightarrow>
      (case body of
         TooLarge \<Rightarrow> ((413, HandoverError ''request body too large''), db1)
       | NotJSON \<Rightarrow> ((400, HandoverError ''request body is not valid JSON''), db1)
       | Decoded toEmail \<Rightarrow>
      (let email = normalizeEmail u toEmail in
       if email = [] then ((400, HandoverError ''to_email is required''), db1)
       else (case HasPendingServiceHandover (us_ID svc) db1 of
         (Inl _, db2) \<Rightarrow> (internalError, db2)
       | (Inr pending, db2) \<Rightarrow>
         if pending then ((409, HandoverError ''service already has a pending handover''), db2)
         else (case GetUserByEmail email db2 of
           (Inl _, db3) \<Rightarrow> (internalError, db3)
         | (Inr None, db3) \<Rightarrow> ((202, OfferAccepted email), db3)
         | (Inr (Some to), db3) \<Rightarrow>
           if u_ID to = us_OwnerID svc then ((422, HandoverError ''a service cannot be handed over to its owner''), db3)
           else if u_DisabledAt to \<noteq> None then ((202, OfferAccepted email), db3)
           else (case newID of
             Inl _ \<Rightarrow> (internalError, db3)
           | Inr i \<Rightarrow>
             (case OfferServiceHandover \<lparr>sh_ID = i, sh_UserServiceID = us_ID svc, sh_ServiceSlug = [], sh_ServiceName = [],
                     sh_FromUserID = us_OwnerID svc, sh_FromName = [], sh_ToUserID = u_ID to, sh_ToName = [], sh_Status = [],
                     sh_CreatedAt = 0, sh_DecidedAt = None, sh_ExpiresAt = 0, sh_ForcedBy = None\<rparr> HandoverTTL db3 of
                (Inl e, db4) \<Rightarrow>
                  (if e = ErrHandoverPending then (409, HandoverError ''service already has a pending handover'')
                   else internalError, db4)
              | (Inr _, db4) \<Rightarrow> ((202, OfferAccepted email), db4)))))))))"

definition MyHandovers :: "User option \<Rightarrow> Db \<Rightarrow> (nat \<times> handover_body) \<times> Db" where
  "MyHandovers user db =
     (case user of
        None \<Rightarrow> ((401, HandoverError ''authentication required''), db)
      | Some who \<Rightarrow>
          (case ListPendingServiceHandovers (u_ID who) db of
             (Inl _, db1) \<Rightarrow> (internalError, db1)
           | (Inr hs, db1) \<Rightarrow>
               ((200, MyHandoversBody (filter (\<lambda>h. sh_ToUserID h = u_ID who) hs)
                        (filter (\<lambda>h. sh_FromUserID h = u_ID who) hs)), db1)))"

definition handoverRefusal :: "db_error \<Rightarrow> nat \<times> handover_body" where
  "handoverRefusal e =
     (case e of
        ErrHandoverNotFound \<Rightarrow> (404, HandoverError ''handover not found'')
      | ErrHandoverNotPending \<Rightarrow> (409, HandoverError ''handover is no longer pending'')
      | ErrHandoverSenderNotOwner \<Rightarrow> (409, HandoverError ''the sender no longer owns this service'')
      | ErrHandoverRecipientDisabled \<Rightarrow> (409, HandoverError ''the recipient's account is disabled'')
      | ServiceInScenariosError slugs \<Rightarrow> (409, HandoverScenarios slugs)
      | _ \<Rightarrow> internalError)"

definition decide ::
  "(string \<Rightarrow> string \<Rightarrow> ServiceHandover repo) \<Rightarrow> (ServiceHandover \<Rightarrow> handover_body) \<Rightarrow> User option \<Rightarrow> string \<Rightarrow> Db
    \<Rightarrow> (nat \<times> handover_body) \<times> Db" where
  "decide act view user i db =
     (case user of
        None \<Rightarrow> ((401, HandoverError ''authentication required''), db)
      | Some who \<Rightarrow>
          if \<not> IsUUID i then ((404, HandoverError ''handover not found''), db)
          else (case act i (u_ID who) db of
                  (Inl e, db1) \<Rightarrow> (handoverRefusal e, db1)
                | (Inr h, db1) \<Rightarrow> ((200, view h), db1)))"

definition CancelHandover :: "User option \<Rightarrow> string \<Rightarrow> Db \<Rightarrow> (nat \<times> handover_body) \<times> Db" where
  "CancelHandover = decide CancelServiceHandover OutgoingHandover"

definition DeclineHandover :: "User option \<Rightarrow> string \<Rightarrow> Db \<Rightarrow> (nat \<times> handover_body) \<times> Db" where
  "DeclineHandover = decide DeclineServiceHandover IncomingHandover"

definition AcceptHandover :: "'r + string \<Rightarrow> User option \<Rightarrow> string \<Rightarrow> Db \<Rightarrow> (nat \<times> handover_body) \<times> Db" where
  "AcceptHandover newID = decide (AcceptServiceHandover newID) IncomingHandover"

definition ForceHandover ::
  "'r + string \<Rightarrow> 'r + string \<Rightarrow> User option \<Rightarrow> string \<Rightarrow> string decoded \<Rightarrow> Db \<Rightarrow> (nat \<times> handover_body) \<times> Db" where
  "ForceHandover newRouteID newID user slug body db =
     (case user of
        None \<Rightarrow> ((401, HandoverError ''authentication required''), db)
      | Some admin \<Rightarrow>
      (case loadService repoStore slug db of
        (Inl r, db1) \<Rightarrow> (of_response r, db1)
      | (Inr svc, db1) \<Rightarrow>
      (case body of
         TooLarge \<Rightarrow> ((413, HandoverError ''request body too large''), db1)
       | NotJSON \<Rightarrow> ((400, HandoverError ''request body is not valid JSON''), db1)
       | Decoded userID \<Rightarrow>
         if userID = [] then ((400, HandoverError ''user_id is required''), db1)
         else if \<not> IsUUID userID then ((422, HandoverError ''user_id does not name an active account''), db1)
         else (case GetUserByID userID db1 of
           (Inl _, db2) \<Rightarrow> (internalError, db2)
         | (Inr None, db2) \<Rightarrow> ((422, HandoverError ''user_id does not name an active account''), db2)
         | (Inr (Some to), db2) \<Rightarrow>
           if u_DisabledAt to \<noteq> None then ((422, HandoverError ''user_id does not name an active account''), db2)
           else if u_ID to = us_OwnerID svc then ((422, HandoverError ''a service cannot be handed over to its owner''), db2)
           else (case TransferUserService newRouteID newID (us_ID svc) (u_ID to) (u_ID admin) db2 of
             (Inr h, db3) \<Rightarrow> ((200, ForcedHandover h), db3)
           | (Inl e, db3) \<Rightarrow>
               (case e of
                  ServiceInScenariosError slugs \<Rightarrow> ((409, HandoverScenarios slugs), db3)
                | ErrHandoverToOwner \<Rightarrow> ((422, HandoverError ''a service cannot be handed over to its owner''), db3)
                | ErrHandoverRecipientDisabled \<Rightarrow> ((422, HandoverError ''user_id does not name an active account''), db3)
                | _ \<Rightarrow> (internalError, db3)))))))"

subsection \<open>The invariant of the offers\<close>

definition handover_ok :: "HandoverRow \<Rightarrow> bool" where
  "handover_ok h \<longleftrightarrow>
     hr_status h \<in> {HandoverPending, HandoverAccepted, HandoverDeclined, HandoverCancelled, HandoverExpired} \<and>
     (hr_status h = HandoverPending \<longleftrightarrow> hr_decided_at h = None) \<and> hr_from h \<noteq> hr_to h \<and>
     (hr_forced_by h \<noteq> None \<longrightarrow> hr_status h = HandoverAccepted)"

abbreviation pending :: "HandoverRow \<Rightarrow> bool" where
  "pending h \<equiv> hr_status h = HandoverPending"

definition offers_ok :: "HandoverRow list \<Rightarrow> bool" where
  "offers_ok hs \<longleftrightarrow> distinct (map hr_id hs) \<and> (\<forall>h \<in> set hs. handover_ok h) \<and>
     distinct (map hr_service (filter pending hs))"

text \<open>Closing some of the pending offers keeps the table within its constraints.\<close>

definition closing :: "(HandoverRow \<Rightarrow> HandoverRow) \<Rightarrow> bool" where
  "closing f \<longleftrightarrow> (\<forall>h. \<exists>st d. f h = h\<lparr>hr_status := st, hr_decided_at := Some d\<rparr> \<and>
     st \<in> {HandoverAccepted, HandoverDeclined, HandoverCancelled, HandoverExpired})"

lemma closing_row:
  assumes "closing f"
  shows "hr_id (f h) = hr_id h" "hr_service (f h) = hr_service h" "\<not> pending (f h)"
    and "handover_ok h \<Longrightarrow> pending h \<Longrightarrow> handover_ok (f h)"
proof -
  obtain st d where f: "f h = h\<lparr>hr_status := st, hr_decided_at := Some d\<rparr>"
    "st \<in> {HandoverAccepted, HandoverDeclined, HandoverCancelled, HandoverExpired}"
    using assms unfolding closing_def by blast
  then show "hr_id (f h) = hr_id h" "hr_service (f h) = hr_service h" "\<not> pending (f h)" by auto
  show "handover_ok (f h)" if "handover_ok h" "pending h"
    using that f by (auto simp: handover_ok_def)
qed

lemma offers_closed:
  assumes ok: "offers_ok hs" and f: "closing f" and hit: "\<And>h. h \<in> set hs \<Longrightarrow> hit h \<Longrightarrow> pending h"
  shows "offers_ok (update_where hit f hs)"
proof -
  have "map hr_service (filter pending (update_where hit f hs)) = map hr_service (filter (\<lambda>h. pending h \<and> \<not> hit h) hs)"
    by (induction hs) (simp_all add: update_where_def closing_row [OF f])
  moreover have "filter (\<lambda>h. pending h \<and> \<not> hit h) hs = filter (\<lambda>h. \<not> hit h) (filter pending hs)" by simp
  ultimately have "distinct (map hr_service (filter pending (update_where hit f hs)))"
    using ok by (simp only: offers_ok_def distinct_map_filter)
  moreover have "map hr_id (update_where hit f hs) = map hr_id hs" by (rule update_where_key) (rule closing_row [OF f])
  moreover have "\<forall>h \<in> set (update_where hit f hs). handover_ok h"
    using ok hit closing_row(4) [OF f] by (auto simp: set_update_where offers_ok_def)
  ultimately show ?thesis using ok by (simp add: offers_ok_def)
qed

lemma closing_updates:
  "closing (\<lambda>h. h\<lparr>hr_status := HandoverExpired, hr_decided_at := Some (hr_expires_at h)\<rparr>)"
  "st \<in> {HandoverAccepted, HandoverDeclined, HandoverCancelled} \<Longrightarrow> closing (\<lambda>h. h\<lparr>hr_status := st, hr_decided_at := Some d\<rparr>)"
  by (auto simp: closing_def)

lemma expireStalePending_ok: "offers_ok (db_handovers db) \<Longrightarrow> offers_ok (db_handovers (expireStalePending k db))"
  unfolding expireStalePending_def by simp (erule offers_closed [OF _ closing_updates(1)], simp add: expiredPending_def)

lemma cancelPending_ok: "offers_ok (db_handovers db) \<Longrightarrow> offers_ok (db_handovers (cancelPending k db))"
  unfolding cancelPending_def by simp (erule offers_closed [OF _ closing_updates(2)], simp_all add: livePending_def)

lemma closeHandover_ok:
  assumes "offers_ok (db_handovers db)" and "h \<in> set (db_handovers db)" and "hr_id h = i" and "pending h"
  shows "offers_ok (db_handovers (closeHandover i db))"
proof -
  have "pending g" if "g \<in> set (db_handovers db)" "hr_id g = i" for g
    using assms that by (auto simp: offers_ok_def distinct_map inj_on_def)
  with assms(1) show ?thesis
    unfolding closeHandover_def by simp (erule offers_closed [OF _ closing_updates(2)], simp_all)
qed

lemma insertHandover_Inr:
  assumes "insertHandover h db = Inr db'"
  shows "db' = db\<lparr>db_handovers := db_handovers db @ [h]\<rparr>" "hr_from h \<noteq> hr_to h"
    "hr_id h \<notin> hr_id ` set (db_handovers db)" "hr_forced_by h \<noteq> None \<Longrightarrow> hr_status h = HandoverAccepted"
    "pending h \<Longrightarrow> hr_service h \<notin> hr_service ` set (filter pending (db_handovers db))"
  using assms by (auto simp: insertHandover_def list_ex_iff)

lemma insertHandover_ok:
  assumes "insertHandover h db = Inr db'" and "offers_ok (db_handovers db)"
    and "hr_status h \<in> {HandoverPending, HandoverAccepted}" and "pending h \<longleftrightarrow> hr_decided_at h = None"
  shows "offers_ok (db_handovers db')"
  using insertHandover_Inr [OF assms(1)] assms(2-4) by (auto simp: offers_ok_def handover_ok_def)

subsection \<open>What moves with a service\<close>

lemma update_where_twice:
  "(\<And>r. p (f r) = p r) \<Longrightarrow> update_where p g (update_where p f rows) = update_where p (\<lambda>r. g (f r)) rows"
  by (simp add: update_where_def)

lemma copyRouteLoop_Inr:
  "copyRouteLoop rt copyID ownerID k db = Inr db' \<Longrightarrow>
     \<exists>slug. slug \<notin> rt_Slug ` set (db_routes db) \<and> db' = db\<lparr>db_routes := db_routes db @
       [rt\<lparr>rt_ID := copyID, rt_ScenarioID := None, rt_OwnerID := Some ownerID, rt_Slug := slug\<rparr>]\<rparr>"
proof (induction rt copyID ownerID k db rule: copyRouteLoop.induct)
  case (1 rt copyID ownerID k db)
  show ?case
  proof (cases "list_ex (\<lambda>r. rt_Slug r = suffixed (rt_Slug rt) k) (db_routes db)")
    case True
    with 1 show ?thesis by (subst (asm) (2) copyRouteLoop.simps) (auto split: if_splits)
  next
    case False
    with "1.prems" have "db' = db\<lparr>db_routes := db_routes db @
       [rt\<lparr>rt_ID := copyID, rt_ScenarioID := None, rt_OwnerID := Some ownerID, rt_Slug := suffixed (rt_Slug rt) k\<rparr>]\<rparr>"
      by (subst (asm) copyRouteLoop.simps) (auto split: if_splits)
    moreover have "suffixed (rt_Slug rt) k \<notin> rt_Slug ` set (db_routes db)" using False by (auto simp: list_ex_iff)
    ultimately show ?thesis by blast
  qed
qed

definition movedRow :: "string \<Rightarrow> string \<Rightarrow> gotime \<Rightarrow> ServiceRow \<Rightarrow> ServiceRow" where
  "movedRow routeID ownerID now s = s\<lparr>sr_route_id := routeID, sr_owner_id := ownerID, sr_updated_at := now\<rparr>"

text \<open>
  The tables after a move: the service row has the new owner and a route that is curated or the
  new owner's, with the geometry and track data of the old one; its compile jobs follow; nothing
  else changes but one added route.
\<close>

definition moved :: "string \<Rightarrow> string \<Rightarrow> string \<Rightarrow> Db \<Rightarrow> Db \<Rightarrow> bool" where
  "moved serviceID routeID toUserID db db' \<longleftrightarrow>
     (\<exists>rt rt' added. rt \<in> set (db_routes db) \<and> rt_ID rt = routeID \<and> rt' \<in> set (db_routes db') \<and>
        rt_OwnerID rt' \<in> {None, Some toUserID} \<and> rt_Geometry rt' = rt_Geometry rt \<and> rt_Segments rt' = rt_Segments rt \<and>
        db' = db\<lparr>db_routes := db_routes db @ added,
          db_services := update_where (\<lambda>s. sr_id s = serviceID) (movedRow (rt_ID rt') toUserID (db_now db)) (db_services db),
          db_jobs := update_where (\<lambda>j. job_UserServiceID j = Some serviceID) (\<lambda>j. j\<lparr>job_OwnerID := Some toUserID\<rparr>) (db_jobs db)\<rparr>)"

lemma moveLocked_moved:
  assumes "moveLockedUserService op newID serviceID routeID toUserID db = Inr db'"
    and route: "\<And>s. s \<in> set (db_services db) \<Longrightarrow> sr_id s = serviceID \<Longrightarrow> sr_route_id s = routeID"
  shows "scenarioSlugsContaining db serviceID = []" and "moved serviceID routeID toUserID db db'"
proof -
  from assms(1) show "scenarioSlugsContaining db serviceID = []"
    by (auto simp: moveLockedUserService_def Let_def split: if_splits)
  from assms(1) obtain rt db2 where rt: "List.find (\<lambda>r. rt_ID r = routeID) (db_routes db) = Some rt"
    and db': "db' = setOwner serviceID toUserID db2"
    and db2: "(case rt_OwnerID rt of
                     None \<Rightarrow> Inr db
                   | Some routeOwner \<Rightarrow>
                       if routeOwner = toUserID then Inr db
                       else bind_res (copyRouteTo op newID rt toUserID db) (\<lambda>(copyID, db1). Inr (setRoute serviceID copyID db1))) = Inr db2"
    by (auto simp: moveLockedUserService_def Let_def split: if_splits option.splits)
  have rt_in: "rt \<in> set (db_routes db)" "rt_ID rt = routeID" using rt by (auto simp: find_Some_iff)
  show "moved serviceID routeID toUserID db db'"
  proof (cases "rt_OwnerID rt \<in> {None, Some toUserID}")
    case True
    with db2 have "db2 = db" by (auto split: option.splits if_splits)
    moreover have "update_where (\<lambda>s. sr_id s = serviceID) (\<lambda>s. s\<lparr>sr_owner_id := toUserID, sr_updated_at := db_now db\<rparr>) (db_services db) =
        update_where (\<lambda>s. sr_id s = serviceID) (movedRow (rt_ID rt) toUserID (db_now db)) (db_services db)"
      unfolding update_where_def
      by (rule map_cong [OF refl]) (use route rt_in(2) in \<open>auto simp: movedRow_def\<close>)
    ultimately show ?thesis
      unfolding moved_def db' setOwner_def using True rt_in by (intro exI [of _ rt] exI [of _ "[]"]) auto
  next
    case False
    with db2 obtain copyID db1 where c: "copyRouteTo op newID rt toUserID db = Inr (copyID, db1)" "db2 = setRoute serviceID copyID db1"
      by (auto split: option.splits if_splits)
    from c(1) obtain slug where db1: "db1 = db\<lparr>db_routes := db_routes db @
       [rt\<lparr>rt_ID := copyID, rt_ScenarioID := None, rt_OwnerID := Some toUserID, rt_Slug := slug\<rparr>]\<rparr>"
      by (auto simp: copyRouteTo_def dest!: copyRouteLoop_Inr split: sum.splits)
    let ?copy = "rt\<lparr>rt_ID := copyID, rt_ScenarioID := None, rt_OwnerID := Some toUserID, rt_Slug := slug\<rparr>"
    show ?thesis
      unfolding moved_def db' c(2) db1 setOwner_def setRoute_def using rt_in
      by (intro exI [of _ rt] exI [of _ ?copy] exI [of _ "[?copy]"]) (auto simp: update_where_twice movedRow_def [abs_def])
  qed
qed

lemma fit_same:
  assumes "us_Slug a = us_Slug b" "us_Stops a = us_Stops b" "us_Vehicle a = us_Vehicle b"
    "us_BoardingWait a = us_BoardingWait b" "us_FrequencyWindows a = us_FrequencyWindows b"
  shows "fit u a \<longleftrightarrow> fit u b"
  using StopSlugs_cong [OF assms(1,2), of u] assms by (simp add: fit_def)

lemma moved_services_inv:
  assumes "moved serviceID routeID toUserID db db'" and inv: "services_inv u db"
  shows "services_inv u db'"
proof -
  obtain rid where sv: "db_services db' = update_where (\<lambda>s. sr_id s = serviceID) (movedRow rid toUserID (db_now db)) (db_services db)"
    and win: "db_windows db' = db_windows db" using assms(1) by (auto simp: moved_def)
  have keys: "map sr_id (db_services db') = map sr_id (db_services db)" "map sr_slug (db_services db') = map sr_slug (db_services db)"
    by (simp_all add: sv update_where_key movedRow_def)
  have "fit u (stored db' s r)" if s: "s \<in> set (db_services db')" for s r
  proof -
    obtain s0 where s0: "s0 \<in> set (db_services db)" "s = s0 \<or> s = movedRow rid toUserID (db_now db) s0"
      using s by (auto simp: sv set_update_where split: if_splits)
    have "fit u (stored db' s r) \<longleftrightarrow> fit u (stored db s0 r)"
      by (rule fit_same) (use s0(2) in \<open>auto simp: withWindows_def scanUserService_def listUserFrequencyWindows_def win movedRow_def\<close>)
    with inv s0(1) show ?thesis by (simp add: services_inv_def)
  qed
  with inv keys win show ?thesis by (simp add: services_inv_def) (metis set_map)
qed

lemma moved_handovers: "moved k r t db db' \<Longrightarrow> db_handovers db' = db_handovers db"
  by (auto simp: moved_def)

text \<open>A move is refused while a scenario holds the service, so it takes no member from its owner.\<close>

lemma scenarioSlugsContaining_Nil:
  assumes "scenarioSlugsContaining db k = []" and "members_ok db" and "m \<in> set (db_members db)"
  shows "mb_service m \<noteq> k"
proof
  assume "mb_service m = k"
  from assms(2,3) obtain c where c: "c \<in> set (db_scenarios db)" "cr_id c = mb_scenario m"
    unfolding members_ok_def member_ok_def by blast
  let ?slugs = "concat (map (\<lambda>m. map cr_slug (filter (\<lambda>c. cr_id c = mb_scenario m) (db_scenarios db)))
    (filter (\<lambda>m. mb_service m = k) (db_members db)))"
  have "cr_slug c \<in> set ?slugs" using c assms(3) \<open>mb_service m = k\<close> by auto
  moreover have "set (SliceStable (less_by (\<lambda>s. s)) ?slugs) = set ?slugs" by simp
  ultimately show False using assms(1) unfolding scenarioSlugsContaining_def by (metis empty_iff empty_set)
qed

lemma moved_members:
  assumes "moved k r t db db'" and "members_ok db" and "scenarioSlugsContaining db k = []"
  shows "members_ok db'"
proof -
  from assms(1) obtain rid where t: "db_scenarios db' = db_scenarios db" "db_members db' = db_members db"
    and sv: "db_services db' = update_where (\<lambda>s. sr_id s = k) (movedRow rid t (db_now db)) (db_services db)"
    by (auto simp: moved_def)
  have "s \<in> set (db_services db')" if "s \<in> set (db_services db)" "sr_id s \<in> mb_service ` set (db_members db)" for s
    using update_where_image [OF that(1), of "\<lambda>s. sr_id s = k" "movedRow rid t (db_now db)"] that(2)
      scenarioSlugsContaining_Nil [OF assms(3,2)] by (auto simp: sv)
  with t show ?thesis by (intro members_ok_mono [OF assms(2)]) auto
qed

subsection \<open>Every operation keeps the invariants\<close>

text \<open>The invariant of the database the authored services and their offers live in.\<close>

definition db_inv :: "unicode_tables \<Rightarrow> Db \<Rightarrow> bool" where
  "db_inv u db \<longleftrightarrow> services_inv u db \<and> offers_ok (db_handovers db) \<and> members_ok db"

lemma db_inv_outages [simp]: "db_inv u (db\<lparr>db_outages := r\<rparr>) \<longleftrightarrow> db_inv u db"
  by (simp add: db_inv_def)

lemma services_inv_handovers [simp]: "services_inv u (db\<lparr>db_handovers := hs\<rparr>) \<longleftrightarrow> services_inv u db"
  by (rule services_inv_cong) simp_all

lemma members_ok_handovers [simp]: "members_ok (db\<lparr>db_handovers := hs\<rparr>) \<longleftrightarrow> members_ok db"
  by (rule members_ok_cong) simp_all

lemma readBack_Inr [simp]: "readBack op i db = Inr (h, db') \<longleftrightarrow> readHandover db i = Some h \<and> db' = db"
  by (auto simp: readBack_def split: option.splits)

lemma services_inv_offers [simp]:
  "services_inv u (expireStalePending k db) \<longleftrightarrow> services_inv u db"
  "services_inv u (cancelPending k db) \<longleftrightarrow> services_inv u db"
  "services_inv u (closeHandover i db) \<longleftrightarrow> services_inv u db"
  "members_ok (expireStalePending k db) \<longleftrightarrow> members_ok db"
  "members_ok (cancelPending k db) \<longleftrightarrow> members_ok db"
  "members_ok (closeHandover i db) \<longleftrightarrow> members_ok db"
  by (simp_all add: expireStalePending_def cancelPending_def closeHandover_def)

lemma db_inv_select: "db_inv u db \<Longrightarrow> db_inv u (snd (select op q db))"
  unfolding select_def by (rule transact_preserves [where I = "db_inv u"]) auto

lemma OfferServiceHandover_keeps:
  assumes "db_inv u db"
  shows "db_inv u (snd (OfferServiceHandover h ttl db))"
  unfolding OfferServiceHandover_def
proof (rule transact_preserves [where I = "db_inv u", OF assms], goal_cases outage body)
  case (body db x db')
  then have "insertHandover (pendingRow h ttl (db_now db)) (expireStalePending (sh_UserServiceID h) db) = Inr db'"
    by (auto split: sum.splits)
  note ins = this
  have "offers_ok (db_handovers (expireStalePending (sh_UserServiceID h) db))"
    by (rule expireStalePending_ok) (use body(1) in \<open>simp add: db_inv_def\<close>)
  from insertHandover_ok [OF ins this] insertHandover_Inr(1) [OF ins] body(1) show ?case
    by (simp add: db_inv_def pendingRow_def)
qed simp_all

lemma decideHandover_keeps:
  assumes "db_inv u db" and st: "status \<in> {HandoverDeclined, HandoverCancelled}"
  shows "db_inv u (snd (decideHandover op p i callerID status db))"
proof -
  define act where "act = transact op (\<lambda>db.
             let hit = (\<lambda>h. hr_id h = i \<and> partyOf p h = callerID \<and> livePending (db_now db) h) in
             Inr (length (filter hit (db_handovers db)) = 1,
                  db\<lparr>db_handovers := update_where hit (\<lambda>h. h\<lparr>hr_status := status, hr_decided_at := Some (db_now db)\<rparr>)
                       (db_handovers db)\<rparr>))"
  have "db_inv u (snd (act db))"
    unfolding act_def
  proof (rule transact_preserves [where I = "db_inv u", OF assms(1)], goal_cases outage body)
    case (body db x db')
    then show ?case
      using st by (auto simp: Let_def db_inv_def livePending_def intro!: offers_closed closing_updates(2))
  qed simp
  moreover obtain r db1 where r: "act db = (r, db1)" by fastforce
  moreover have "db_inv u (snd (transact op' (readBack op i) db1))" if "db_inv u db1" for op'
    by (rule transact_preserves [where I = "db_inv u", OF that]) simp_all
  moreover obtain r2 db2 where
    r2: "select (op @ '' lookup'') (\<lambda>db. list_ex (\<lambda>h. hr_id h = i \<and> partyOf p h = callerID) (db_handovers db)) db1 = (r2, db2)"
    by fastforce
  moreover have "db_inv u db2" if "db_inv u db1"
    using db_inv_select [OF that, of "op @ '' lookup''" "\<lambda>db. list_ex (\<lambda>h. hr_id h = i \<and> partyOf p h = callerID) (db_handovers db)"]
    by (simp only: r2 snd_conv)
  ultimately show ?thesis
    unfolding decideHandover_def act_def [symmetric] by (simp split: sum.split bool.split)
qed

lemma lockUserService_Some:
  assumes "lockUserService db k = Some (ownerID, routeID)" and "services_inv u db"
  shows "\<exists>s \<in> set (db_services db). sr_id s = k \<and> sr_owner_id s = ownerID \<and> sr_route_id s = routeID"
    and "s \<in> set (db_services db) \<Longrightarrow> sr_id s = k \<Longrightarrow> sr_route_id s = routeID \<and> sr_owner_id s = ownerID"
proof -
  obtain s0 where s0: "s0 \<in> set (db_services db)" "sr_id s0 = k" "sr_owner_id s0 = ownerID" "sr_route_id s0 = routeID"
    using assms(1) by (auto simp: lockUserService_def findService_def dest!: find_SomeD)
  then show "\<exists>s \<in> set (db_services db). sr_id s = k \<and> sr_owner_id s = ownerID \<and> sr_route_id s = routeID" by blast
  show "sr_route_id s = routeID \<and> sr_owner_id s = ownerID" if "s \<in> set (db_services db)" "sr_id s = k"
    using assms(2) s0 that by (auto simp: services_inv_def distinct_map inj_on_def)
qed

text \<open>What an accept does when it commits: the offer was live and its sender the owner.\<close>

lemma AcceptServiceHandover_committed:
  assumes "AcceptServiceHandover newID i toUserID db = (Inr h, db')" and inv: "db_inv u db"
  shows "\<exists>row s db1. row \<in> set (db_handovers db) \<and> hr_id row = i \<and> hr_to row = toUserID \<and> livePending (db_now db) row \<and>
    s \<in> set (db_services db) \<and> sr_id s = hr_service row \<and> sr_owner_id s = hr_from row \<and>
    refuseDisabledRecipient ''AcceptServiceHandover'' toUserID db = Inr () \<and>
    scenarioSlugsContaining db (hr_service row) = [] \<and>
    (\<exists>rest. moved (hr_service row) (sr_route_id s) toUserID (db\<lparr>db_outages := rest\<rparr>) db1) \<and>
    db' = closeHandover i db1 \<and> readHandover db' i = Some h"
  using assms(1) unfolding AcceptServiceHandover_def
proof (cases rule: transact_cases)
  case (committed x rest)
  let ?db = "db\<lparr>db_outages := rest\<rparr>"
  from committed obtain row ownerID routeID db1 where
    row: "List.find (\<lambda>h. hr_id h = i \<and> hr_to h = toUserID) (db_handovers db) = Some row"
    and lock: "lockUserService ?db (hr_service row) = Some (ownerID, routeID)"
    and live: "livePending (db_now db) row" and owner: "ownerID = hr_from row"
    and enabled: "refuseDisabledRecipient ''AcceptServiceHandover'' toUserID ?db = Inr ()"
    and move: "moveLockedUserService ''AcceptServiceHandover'' newID (hr_service row) routeID toUserID ?db = Inr db1"
    and reply: "readHandover (closeHandover i db1) i = Some h" "db' = closeHandover i db1"
    by (auto split: option.splits prod.splits if_splits)
  have inv': "services_inv u ?db" using inv by (simp add: db_inv_def)
  obtain s where s: "s \<in> set (db_services db)" "sr_id s = hr_service row" "sr_owner_id s = ownerID" "sr_route_id s = routeID"
    using lockUserService_Some(1) [OF lock inv'] by auto
  have "scenarioSlugsContaining ?db (hr_service row) = []" "moved (hr_service row) routeID toUserID ?db db1"
    using moveLocked_moved [OF move] lockUserService_Some(2) [OF lock inv'] by auto
  moreover have "scenarioSlugsContaining ?db (hr_service row) = scenarioSlugsContaining db (hr_service row)"
    "refuseDisabledRecipient op toUserID ?db = refuseDisabledRecipient op toUserID db" for op
    by (simp_all add: scenarioSlugsContaining_def refuseDisabledRecipient_def findUser_def)
  ultimately show ?thesis
    using find_SomeD [OF row] live owner enabled reply s by (intro exI [of _ row] exI [of _ s] exI [of _ db1]) auto
qed simp

lemma transact_failed: "transact op body db = (Inl e, db') \<Longrightarrow> \<exists>rest. db' = db\<lparr>db_outages := rest\<rparr>"
  by (auto elim: transact_cases)

lemma AcceptServiceHandover_keeps:
  assumes "db_inv u db"
  shows "db_inv u (snd (AcceptServiceHandover newID i toUserID db))"
proof (cases "AcceptServiceHandover newID i toUserID db")
  case (Pair res db')
  show ?thesis
  proof (cases res)
    case (Inl e)
    then obtain rest where "db' = db\<lparr>db_outages := rest\<rparr>"
      using transact_failed Pair unfolding AcceptServiceHandover_def by blast
    with assms Pair show ?thesis by simp
  next
    case (Inr h)
    obtain row db1 rest and s :: ServiceRow where r: "row \<in> set (db_handovers db)" "hr_id row = i" "livePending (db_now db) row"
      "moved (hr_service row) (sr_route_id s) toUserID (db\<lparr>db_outages := rest\<rparr>) db1" "db' = closeHandover i db1"
      "scenarioSlugsContaining db (hr_service row) = []"
      using AcceptServiceHandover_committed [OF Pair [unfolded Inr] assms] by blast
    have "db_handovers db1 = db_handovers db" using moved_handovers [OF r(4)] by simp
    moreover have "services_inv u db1" using moved_services_inv [OF r(4)] assms by (simp add: db_inv_def)
    moreover have "members_ok db1"
      by (rule moved_members [OF r(4)]) (use assms r(6) in \<open>simp_all add: db_inv_def scenarioSlugsContaining_def\<close>)
    moreover have "offers_ok (db_handovers (closeHandover i db1))"
      using closeHandover_ok [of db1 row i] r(1-3) assms calculation(1) by (simp add: db_inv_def livePending_def)
    ultimately show ?thesis using Pair r(5) by (simp add: db_inv_def)
  qed
qed

lemma TransferUserService_keeps:
  assumes "db_inv u db"
  shows "db_inv u (snd (TransferUserService newRouteID newID k toUserID forcedBy db))"
  unfolding TransferUserService_def
proof (rule transact_preserves [where I = "db_inv u", OF assms], goal_cases outage body)
  case (body db x db')
  then obtain i where "newID = Inr i" by (cases newID) (auto simp: Let_def split: option.splits prod.splits if_splits)
  with body obtain ownerID routeID db1 db2 where lock: "lockUserService db k = Some (ownerID, routeID)"
    and move: "moveLockedUserService ''TransferUserService'' newRouteID k routeID toUserID db = Inr db1"
    and db2: "db2 = cancelPending k (expireStalePending k db1)"
    and ins: "insertHandover (forcedRow i k ownerID toUserID forcedBy (db_now db2)) db2 = Inr db'"
    by (auto simp: Let_def split: option.splits prod.splits if_splits sum.splits)
  have inv: "services_inv u db" "offers_ok (db_handovers db)" "members_ok db" using body(1) by (simp_all add: db_inv_def)
  have m: "moved k routeID toUserID db db1" "scenarioSlugsContaining db k = []"
    using moveLocked_moved [OF move] lockUserService_Some(2) [OF lock inv(1)] by blast+
  have "offers_ok (db_handovers db2)"
    unfolding db2 by (intro cancelPending_ok expireStalePending_ok) (simp add: moved_handovers [OF m(1)] inv)
  moreover have "services_inv u db2" unfolding db2 using moved_services_inv [OF m(1) inv(1)] by simp
  moreover have "members_ok db2" unfolding db2 using moved_members [OF m(1) inv(3) m(2)] by simp
  ultimately show ?case
    using insertHandover_ok [OF ins] insertHandover_Inr(1) [OF ins] by (simp add: db_inv_def forcedRow_def)
qed simp

subsection \<open>Reachable databases\<close>

text \<open>
  Steps of the running system that touch authored services, user scenarios and handover offers:
  the service and scenario handlers, the handover transactions with any arguments (so in any
  interleaving of the handlers that issue them), and anything that leaves those tables alone.
\<close>

inductive db_step :: "unicode_tables \<Rightarrow> BoardingWaitPolicy \<Rightarrow> Db \<Rightarrow> Db \<Rightarrow> bool" for u w where
  create: "db_step u w db (snd (CreateService u repoStore w (newID :: unit + string) user body db))"
| update: "db_step u w db (snd (UpdateService u repoStore w user slug body db))"
| delete: "db_step u w db (snd (DeleteService repoStore user slug db))"
| offer: "db_step u w db (snd (OfferServiceHandover h ttl db))"
| cancel: "db_step u w db (snd (CancelServiceHandover i callerID db))"
| decline: "db_step u w db (snd (DeclineServiceHandover i callerID db))"
| accept: "db_step u w db (snd (AcceptServiceHandover (newID :: unit + string) i callerID db))"
| transfer: "db_step u w db (snd (TransferUserService (newRouteID :: unit + string) newID serviceID toUserID forcedBy db))"
| create_scenario: "db_step u w db (snd (CreateUserScenario u scenarioRepo w (newID :: unit + string) user sbody db))"
| update_scenario: "db_step u w db (snd (UpdateUserScenario u scenarioRepo w user slug sbody db))"
| delete_scenario: "db_step u w db (snd (DeleteUserScenario scenarioRepo user slug db))"
| other: "db_services db' = db_services db \<Longrightarrow> db_windows db' = db_windows db \<Longrightarrow> db_handovers db' = db_handovers db
    \<Longrightarrow> db_scenarios db' = db_scenarios db \<Longrightarrow> db_members db' = db_members db \<Longrightarrow> db_step u w db db'"

inductive_cases db_step_cases: "db_step u w db db'"

definition fresh_db :: "Db \<Rightarrow> bool" where
  "fresh_db db \<longleftrightarrow> db_services db = [] \<and> db_windows db = [] \<and> db_handovers db = [] \<and> db_scenarios db = [] \<and> db_members db = []"

lemma fresh_db_inv: "fresh_db db \<Longrightarrow> db_inv u db"
  by (simp add: fresh_db_def db_inv_def services_inv_def offers_ok_def members_ok_def)

text \<open>The repository keeps the offers too, so it is a service store for the whole invariant.\<close>

abbreviation offers_inv :: "Db \<Rightarrow> bool" where
  "offers_inv db \<equiv> offers_ok (db_handovers db)"

lemma offers_ok_filter: "offers_ok hs \<Longrightarrow> offers_ok (filter p hs)"
proof -
  have "filter pending (filter p hs) = filter p (filter pending hs)" by (simp add: conj_commute)
  then show "offers_ok hs \<Longrightarrow> offers_ok (filter p hs)" by (simp only: offers_ok_def distinct_map_filter) auto
qed

lemma CreateUserService_offers: "offers_inv db \<Longrightarrow> offers_inv (snd (CreateUserService svc db))"
  unfolding CreateUserService_def by (erule transact_preserves [where I = offers_inv]) (auto simp: Let_def)

lemma UpdateUserService_offers: "offers_inv db \<Longrightarrow> offers_inv (snd (UpdateUserService svc db))"
  unfolding UpdateUserService_def by (erule transact_preserves [where I = offers_inv]) (auto simp: Let_def)

lemma DeleteUserService_offers: "offers_inv db \<Longrightarrow> offers_inv (snd (DeleteUserService i db))"
  unfolding DeleteUserService_def
  by (erule transact_preserves [where I = offers_inv]) (auto simp: delete_where_def offers_ok_filter)

lemma select_offers [simp]: "db_handovers (snd (select op q db)) = db_handovers db"
  using select_cases [of op q db "fst (select op q db)" "snd (select op q db)"] by force

interpretation offers: service_store repoStore u "db_inv u" same_identity
proof unfold_locales
  show "fit u svc \<and> same_identity svc db'"
    if "db_inv u db" "st_GetUserServiceBySlug repoStore slug db = (Inr (Some svc), db')" for db db' svc slug
    using repo.loaded [OF _ that(2), of u] that(1) by (simp add: db_inv_def)
  show "same_identity a s \<longleftrightarrow> same_identity b s" if "us_ID a = us_ID b" "us_Slug a = us_Slug b" for a b s
    using repo.known_cong [OF that] .
qed (simp_all add: db_inv_def repoStore_def CreateUserService_keeps UpdateUserService_keeps DeleteUserService_keeps
    CreateUserService_offers UpdateUserService_offers DeleteUserService_offers
    CreateUserService_members UpdateUserService_members DeleteUserService_members
    GetUserServiceByID_def GetUserServiceBySlug_def getUserServiceBy_def ListUserServicesByOwner_def GetRouteBySlug_def)

text \<open>The scenario repository leaves services, windows and offers alone, so it keeps the invariant too.\<close>

definition other_tables :: "Db \<Rightarrow> ServiceRow list \<times> WindowRow list \<times> HandoverRow list" where
  "other_tables db = (db_services db, db_windows db, db_handovers db)"

lemma scenario_writes_other:
  "other_tables (snd (repo_CreateUserScenario sc db)) = other_tables db"
  "other_tables (snd (repo_UpdateUserScenario sc db)) = other_tables db"
  "other_tables (snd (repo_DeleteUserScenario i db)) = other_tables db"
  unfolding repo_CreateUserScenario_def repo_UpdateUserScenario_def repo_DeleteUserScenario_def
  by (rule transact_table; auto simp: other_tables_def dest!: insertUserScenarioMembership_Inr)+

lemma db_inv_other:
  assumes "other_tables db' = other_tables db" and "members_ok db'" and "db_inv u db"
  shows "db_inv u db'"
  using assms services_inv_cong(1) [of db' db u] by (simp add: db_inv_def other_tables_def)

lemma db_inv_read [simp]: "db_inv u (snd (select op q db)) \<longleftrightarrow> db_inv u db"
  by (simp add: db_inv_def)

lemma db_inv_members: "db_inv u db \<Longrightarrow> members_ok db"
  by (simp add: db_inv_def)

interpretation scenario_offers: scenario_store scenarioRepo "db_inv u" owns known_scenario
proof unfold_locales
  show "db_inv u (snd (sc_CreateUserScenario scenarioRepo sc db))"
    if "db_inv u db" "owns (uc_OwnerID sc) (uc_ServiceIDs sc) db" for sc db
    using that by (intro db_inv_other [OF _ _ that(1)])
      (simp_all add: scenarioRepo_def scenario_writes_other repo_CreateUserScenario_keeps db_inv_members)
  show "db_inv u (snd (sc_UpdateUserScenario scenarioRepo sc db))"
    if "db_inv u db" "owns (uc_OwnerID sc) (uc_ServiceIDs sc) db" "known_scenario sc db" for sc db
    using that by (intro db_inv_other [OF _ _ that(1)])
      (simp_all add: scenarioRepo_def scenario_writes_other repo_UpdateUserScenario_keeps db_inv_members)
  show "db_inv u (snd (sc_DeleteUserScenario scenarioRepo i db))" if "db_inv u db" for i db
    using that by (intro db_inv_other [OF _ _ that])
      (simp_all add: scenarioRepo_def scenario_writes_other repo_DeleteUserScenario_keeps db_inv_members)
  show "db_inv u (snd (sc_UserServiceIDsOwnedBy scenarioRepo owner ids db)) \<longleftrightarrow> db_inv u db" for owner ids db
    by (simp add: scenarioRepo_def UserServiceIDsOwnedBy_def)
  show "known_scenario sc db'"
    if "db_inv u db" "sc_GetUserScenarioBySlug scenarioRepo slug db = (Inr (Some sc), db')" for db slug sc db'
    using scenarios.loaded [OF _ that(2)] that(1) by (simp add: db_inv_def)
  show "known_scenario a db \<longleftrightarrow> known_scenario b db" if "uc_ID a = uc_ID b" "uc_OwnerID a = uc_OwnerID b" for a b db
    using that by (rule scenarios.known_cong)
  show "owns owner ids db'"
    if "sc_UserServiceIDsOwnedBy scenarioRepo owner ids db = (Inr found, db')" "set ids \<subseteq> set found" for owner ids db found db'
    using that by (rule scenarios.owned)
  show "owns owner [] db" for owner db by (rule scenarios.owns_none)
qed (simp_all add: scenarioRepo_def GetUserScenarioByID_def GetUserScenarioBySlug_def getUserScenarioBy_def
    ListUserScenariosByOwner_def owned_select)

lemma db_step_keeps:
  assumes "db_step u w db db'" and "db_inv u db" and "dash_ok u"
  shows "db_inv u db'"
  using assms
proof cases
  case (other)
  then show ?thesis using assms(2) services_inv_cong(1) [of db' db u] members_ok_cong(1) [of db' db] by (simp add: db_inv_def)
qed (simp_all add: offers.CreateService_keeps offers.UpdateService_keeps offers.DeleteService_keeps OfferServiceHandover_keeps
    CancelServiceHandover_def DeclineServiceHandover_def decideHandover_keeps AcceptServiceHandover_keeps TransferUserService_keeps
    scenario_offers.CreateUserScenario_keeps scenario_offers.UpdateUserScenario_keeps scenario_offers.DeleteUserScenario_keeps)

lemma reachable_db_inv:
  assumes "fresh_db db0" and "(db_step u w)\<^sup>*\<^sup>* db0 db" and "dash_ok u"
  shows "db_inv u db"
  using assms(2) by (induction rule: rtranclp_induct) (use assms fresh_db_inv db_step_keeps in blast)+


subsection \<open>A concrete database\<close>

definition sampleUser :: "string \<Rightarrow> UserRow" where
  "sampleUser name = \<lparr>ur_user = \<lparr>u_ID = name, u_Email = name, u_Name = name, u_IsAdmin = False, u_CreatedAt = 0, u_UpdatedAt = 0,
     u_DisabledAt = None\<rparr>, ur_password_hash = []\<rparr>"

definition sampleServiceRow :: "string \<Rightarrow> ServiceRow" where
  "sampleServiceRow owner =
     \<lparr>sr_id = ''s'', sr_slug = ''red'', sr_route_id = ''r'', sr_owner_id = owner, sr_name = ''Red'', sr_subtext = [],
      sr_description = [], sr_vehicle = us_Vehicle sampleAuthored,
      sr_stops = us_Stops (MintStopSlugs sampleTables sampleAuthored),
      sr_wait_policy = None, sr_wait_secs = None, sr_created_at = 0, sr_updated_at = 0\<rparr>"

definition sampleDb :: "HandoverRow list \<Rightarrow> Db" where
  "sampleDb offers =
     \<lparr>db_users = map sampleUser [''ann'', ''bob'', ''cat''], db_sessions = [], db_routes = [sampleRoute\<lparr>rt_OwnerID := Some ''ann''\<rparr>],
      db_services = [sampleServiceRow ''ann''], db_windows = [], db_scenarios = [], db_members = [], db_handovers = offers,
      db_jobs = [], db_publications = [], db_curated = [], db_stations = [], db_vehicle_types = [], db_line_services = [],
      db_links = [], db_time_sets = [], db_segments = [], db_now = 0, db_outages = []\<rparr>"

definition sampleOffer :: "string \<Rightarrow> string \<Rightarrow> string \<Rightarrow> ServiceHandover" where
  "sampleOffer i from to =
     \<lparr>sh_ID = i, sh_UserServiceID = ''s'', sh_ServiceSlug = [], sh_ServiceName = [], sh_FromUserID = from, sh_FromName = [],
      sh_ToUserID = to, sh_ToName = [], sh_Status = [], sh_CreatedAt = 0, sh_DecidedAt = None, sh_ExpiresAt = 0,
      sh_ForcedBy = None\<rparr>"

lemmas sample_db_defs = sampleDb_def sampleUser_def sampleServiceRow_def sampleRoute_def sampleOffer_def pendingRow_def
  findUser_def findService_def lockUserService_def readHandover_def readBack_def scanHandover_def livePending_def expiredPending_def


lemma sample_db_inv: "db_inv sampleTables (sampleDb [])"
proof -
  have "fit sampleTables (stored (sampleDb []) (sampleServiceRow ''ann'') r)" for r
  proof -
    let ?svc = "MintStopSlugs sampleTables sampleAuthored"
    have "fit sampleTables ?svc"
      by (simp add: fit_def MintStopSlugs_slugs) (simp add: sampleAuthored_def sampleUserService_def clean_slug_def no_dd_def good_override_def)
    then show ?thesis
      by (rule fit_stored) (simp_all add: sampleServiceRow_def sampleDb_def listUserFrequencyWindows_def,
          simp_all add: sampleAuthored_def sampleUserService_def boardingWaitArgs_def)
  qed
  then show ?thesis by (simp add: db_inv_def services_inv_def offers_ok_def members_ok_def sampleDb_def)
qed

subsection \<open>Accepting an offer\<close>

lemma readHandover_closed:
  assumes "readHandover (closeHandover i db) i = Some h"
  shows "sh_Status h = HandoverAccepted"
proof -
  from assms obtain row where "List.find (\<lambda>g. hr_id g = i) (db_handovers (closeHandover i db)) = Some row"
    and h: "scanHandover (closeHandover i db) row = Some h"
    by (auto simp: readHandover_def split: option.splits)
  then have row: "row \<in> set (db_handovers (closeHandover i db))" "hr_id row = i" by (auto dest: find_SomeD)
  from row(1) have "(\<exists>x \<in> set (db_handovers db) \<inter> {r. hr_id r = i}.
      row = x\<lparr>hr_status := HandoverAccepted, hr_decided_at := Some (db_now db)\<rparr>) \<or> row \<in> set (db_handovers db) \<and> hr_id row \<noteq> i"
    unfolding closeHandover_def update_where_def by (simp add: image_iff)
  then have "hr_status row = HandoverAccepted"
  proof
    assume "row \<in> set (db_handovers db) \<and> hr_id row \<noteq> i"
    then show ?thesis using row(2) by blast
  qed (elim bexE, simp)
  then have "\<not> expiredPending t row" for t by (simp add: expiredPending_def)
  with h \<open>hr_status row = HandoverAccepted\<close> show ?thesis by (auto simp: scanHandover_def split: option.splits)
qed

text \<open>
  C26: An accept that succeeds had a live offer to its caller made by the service's owner, for a
  service that was in no scenario. It makes the caller the owner, keeps everything else of the
  service and every other service, leaves it on a route that is curated or the caller's own with
  the same geometry and track data, hands its compile jobs over, and closes the offer as accepted.
\<close>

theorem AcceptServiceHandover_moves:
  assumes "db_inv u db" and "AcceptServiceHandover newID i toUserID db = (Inr h, db')"
  shows "\<exists>row s rt rt'. row \<in> set (db_handovers db) \<and> hr_id row = i \<and> hr_to row = toUserID \<and> livePending (db_now db) row \<and>
    s \<in> set (db_services db) \<and> sr_id s = hr_service row \<and> sr_owner_id s = hr_from row \<and>
    scenarioSlugsContaining db (sr_id s) = [] \<and>
    s\<lparr>sr_route_id := rt_ID rt', sr_owner_id := toUserID, sr_updated_at := db_now db\<rparr> \<in> set (db_services db') \<and>
    (\<forall>t \<in> set (db_services db). sr_id t \<noteq> sr_id s \<longrightarrow> t \<in> set (db_services db')) \<and>
    rt \<in> set (db_routes db) \<and> rt_ID rt = sr_route_id s \<and> rt' \<in> set (db_routes db') \<and>
    rt_OwnerID rt' \<in> {None, Some toUserID} \<and> rt_Geometry rt' = rt_Geometry rt \<and> rt_Segments rt' = rt_Segments rt \<and>
    (\<forall>j \<in> set (db_jobs db'). job_UserServiceID j = Some (sr_id s) \<longrightarrow> job_OwnerID j = Some toUserID) \<and>
    sh_Status h = HandoverAccepted"
proof -
  obtain row s db1 rest where r: "row \<in> set (db_handovers db)" "hr_id row = i" "hr_to row = toUserID" "livePending (db_now db) row"
    and s: "s \<in> set (db_services db)" "sr_id s = hr_service row" "sr_owner_id s = hr_from row"
    and sc: "scenarioSlugsContaining db (hr_service row) = []"
    and m: "moved (hr_service row) (sr_route_id s) toUserID (db\<lparr>db_outages := rest\<rparr>) db1"
    and db': "db' = closeHandover i db1" "readHandover db' i = Some h"
    using AcceptServiceHandover_committed [OF assms(2,1)] by blast
  from m obtain rt rt' added where rt: "rt \<in> set (db_routes db)" "rt_ID rt = sr_route_id s" "rt' \<in> set (db_routes db1)"
    "rt_OwnerID rt' \<in> {None, Some toUserID}" "rt_Geometry rt' = rt_Geometry rt" "rt_Segments rt' = rt_Segments rt"
    and db1: "db_services db1 = update_where (\<lambda>t. sr_id t = hr_service row) (movedRow (rt_ID rt') toUserID (db_now db)) (db_services db)"
      "db_jobs db1 = update_where (\<lambda>j. job_UserServiceID j = Some (hr_service row)) (\<lambda>j. j\<lparr>job_OwnerID := Some toUserID\<rparr>) (db_jobs db)"
    unfolding moved_def by auto
  have tables: "db_services db' = db_services db1" "db_routes db' = db_routes db1" "db_jobs db' = db_jobs db1"
    by (simp_all add: db'(1) closeHandover_def)
  have "s\<lparr>sr_route_id := rt_ID rt', sr_owner_id := toUserID, sr_updated_at := db_now db\<rparr> \<in> set (db_services db')"
    unfolding tables db1 set_update_where using s by (intro bexI [of _ s]) (simp_all add: movedRow_def)
  moreover have "\<forall>t \<in> set (db_services db). sr_id t \<noteq> sr_id s \<longrightarrow> t \<in> set (db_services db')"
    unfolding tables db1 set_update_where using s(2) by auto
  moreover have "\<forall>j \<in> set (db_jobs db'). job_UserServiceID j = Some (sr_id s) \<longrightarrow> job_OwnerID j = Some toUserID"
    unfolding tables db1 using s(2) by (auto simp: update_where_def)
  moreover have "sh_Status h = HandoverAccepted" using readHandover_closed db' by blast
  ultimately show ?thesis
    using r s sc rt tables(2) by (intro exI [of _ row] exI [of _ s] exI [of _ rt] exI [of _ rt']) simp
qed

definition offeredDb :: Db where
  "offeredDb = snd (OfferServiceHandover (sampleOffer ''h'' ''ann'' ''bob'') 10 (sampleDb []))"

lemma offeredDb: "offeredDb = sampleDb [pendingRow (sampleOffer ''h'' ''ann'' ''bob'') 10 0]"
  by (simp add: offeredDb_def OfferServiceHandover_def transact_def insertHandover_def expireStalePending_def update_where_def
      require_def sample_db_defs)

lemma AcceptServiceHandover_moves_witness:
  "\<exists>h db'. AcceptServiceHandover (Inr ''r9'' :: unit + string) ''h'' ''bob'' offeredDb = (Inr h, db') \<and> sh_Status h = HandoverAccepted"
proof -
  have "db_inv sampleTables offeredDb" unfolding offeredDb_def by (rule OfferServiceHandover_keeps) (rule sample_db_inv)
  moreover obtain h db' where "AcceptServiceHandover (Inr ''r9'' :: unit + string) ''h'' ''bob'' offeredDb = (Inr h, db')"
    unfolding offeredDb
    by (simp add: AcceptServiceHandover_def transact_def refuseDisabledRecipient_def moveLockedUserService_def
        scenarioSlugsContaining_def copyRouteTo_def copyRouteLoop.simps maxRouteCopyAttempts_def require_def setRoute_def setOwner_def
        closeHandover_def update_where_def suffixed_def dec_string.simps sample_db_defs)
  ultimately show ?thesis using AcceptServiceHandover_moves by blast
qed

end
