(* ===== verification/Handover_Races.thy ===== *)
theory Handover_Races
  imports Handover
begin

text \<open>
  Two interleavings of handlers with an administrator's transfer. Both handlers check the owner of
  a service in one statement and act on it in a later transaction that checks nothing; a
  transfer between the two leaves rows the other operations then trip over.
\<close>

definition transferred :: "(db_error + ServiceHandover) \<times> Db" where
  "transferred = TransferUserService (Inr ''r9'' :: unit + string) (Inr ''h9'') ''s'' ''cat'' ''bob'' (sampleDb [])"

definition sampleScenario :: "string \<Rightarrow> UserScenario" where
  "sampleScenario owner = (newScenario ''c'' owner)\<lparr>uc_Slug := ''mine'', uc_Name := ''Mine'', uc_ServiceIDs := [''s'']\<rparr>"

definition movedSampleRow :: ServiceRow where
  "movedSampleRow = (sampleServiceRow ''cat'')\<lparr>sr_route_id := ''r9''\<rparr>"

lemma transferred_db:
  "snd transferred = (sampleDb [forcedRow ''h9'' ''s'' ''ann'' ''cat'' ''bob'' 0])
     \<lparr>db_services := [movedSampleRow],
      db_routes := [sampleRoute\<lparr>rt_OwnerID := Some ''ann''\<rparr>,
        sampleRoute\<lparr>rt_OwnerID := Some ''cat'', rt_ID := ''r9'', rt_ScenarioID := None, rt_Slug := suffixed (rt_Slug sampleRoute) 2\<rparr>]\<rparr>"
  by (simp add: transferred_def TransferUserService_def transact_def refuseDisabledRecipient_def moveLockedUserService_def
      scenarioSlugsContaining_def copyRouteTo_def copyRouteLoop.simps maxRouteCopyAttempts_def require_def setRoute_def setOwner_def
      insertHandover_def forcedRow_def cancelPending_def expireStalePending_def update_where_def suffixed_def dec_string.simps
      movedSampleRow_def sample_db_defs)

lemma transferred_ok: "\<exists>h. fst transferred = Inr h"
  by (simp add: transferred_def TransferUserService_def transact_def refuseDisabledRecipient_def moveLockedUserService_def
      scenarioSlugsContaining_def copyRouteTo_def copyRouteLoop.simps maxRouteCopyAttempts_def require_def setRoute_def setOwner_def
      insertHandover_def forcedRow_def cancelPending_def expireStalePending_def update_where_def suffixed_def dec_string.simps
      sample_db_defs)

definition scenarioDb :: Db where
  "scenarioDb = snd (repo_CreateUserScenario (sampleScenario ''ann'') (snd transferred))"

lemma scenarioDb:
  "scenarioDb = (snd transferred)\<lparr>db_scenarios := [scenarioRow (sampleScenario ''ann'') 0],
     db_members := [\<lparr>mb_scenario = ''c'', mb_service = ''s''\<rparr>]\<rparr>"
  "fst (repo_CreateUserScenario (sampleScenario ''ann'') (snd transferred)) = Inr ()"
  unfolding scenarioDb_def transferred_db
  by (simp_all add: repo_CreateUserScenario_def transact_def require_def sampleScenario_def newScenario_def
      wait_secs_ok_def boardingWaitArgs_def scenarioRow_def movedSampleRow_def sample_db_defs)


definition staleOfferDb :: Db where
  "staleOfferDb = snd (OfferServiceHandover (sampleOffer ''h'' ''ann'' ''bob'') HandoverTTL (snd transferred))"

lemma staleOfferDb:
  "staleOfferDb = (snd transferred)\<lparr>db_handovers := db_handovers (snd transferred) @ [pendingRow (sampleOffer ''h'' ''ann'' ''bob'') HandoverTTL 0]\<rparr>"
  "\<exists>h. fst (OfferServiceHandover (sampleOffer ''h'' ''ann'' ''bob'') HandoverTTL (snd transferred)) = Inr h"
  unfolding staleOfferDb_def transferred_db
  by (simp_all add: OfferServiceHandover_def transact_def insertHandover_def expireStalePending_def update_where_def
      require_def forcedRow_def movedSampleRow_def HandoverTTL_def sample_db_defs)

text \<open>
  C34: \<open>OfferHandover\<close> checks that the caller owns the service and then stores the offer in a
  transaction that does not look at the owner. If the service is transferred in between, the
  offer is stored in the name of the old owner: its recipient cannot accept it, the new owner can
  neither cancel it nor make an offer of their own, and all that until it expires.
\<close>

theorem stale_offer_race:
  "CanAccess (ur_user (sampleUser ''ann'')) (Some (sr_owner_id (sampleServiceRow ''ann''))) \<and>
   (\<exists>h. fst transferred = Inr h) \<and>
   (\<exists>h. fst (OfferServiceHandover (sampleOffer ''h'' ''ann'' ''bob'') HandoverTTL (snd transferred)) = Inr h) \<and>
   map sr_owner_id (db_services staleOfferDb) = [''cat''] \<and>
   fst (AcceptServiceHandover (Inr ''r8'' :: unit + string) ''h'' ''bob'' staleOfferDb) = Inl ErrHandoverSenderNotOwner \<and>
   fst (CancelServiceHandover ''h'' ''cat'' staleOfferDb) = Inl ErrHandoverNotFound \<and>
   fst (OfferServiceHandover (sampleOffer ''h7'' ''cat'' ''bob'') HandoverTTL staleOfferDb) = Inl ErrHandoverPending"
proof (intro conjI)
  show "CanAccess (ur_user (sampleUser ''ann'')) (Some (sr_owner_id (sampleServiceRow ''ann'')))"
    by (simp add: CanAccess_def sampleUser_def sampleServiceRow_def)
  show "\<exists>h. fst transferred = Inr h" by (rule transferred_ok)
  show "\<exists>h. fst (OfferServiceHandover (sampleOffer ''h'' ''ann'' ''bob'') HandoverTTL (snd transferred)) = Inr h" by (rule staleOfferDb(2))
  show "map sr_owner_id (db_services staleOfferDb) = [''cat'']"
    by (simp add: staleOfferDb(1) transferred_db movedSampleRow_def sample_db_defs)
  show "fst (AcceptServiceHandover (Inr ''r8'' :: unit + string) ''h'' ''bob'' staleOfferDb) = Inl ErrHandoverSenderNotOwner"
    by (simp add: staleOfferDb(1) transferred_db AcceptServiceHandover_def transact_def movedSampleRow_def forcedRow_def
        HandoverTTL_def sample_db_defs)
  show "fst (CancelServiceHandover ''h'' ''cat'' staleOfferDb) = Inl ErrHandoverNotFound"
    by (simp add: staleOfferDb(1) transferred_db CancelServiceHandover_def decideHandover_def transact_def select_def movedSampleRow_def
        forcedRow_def partyOf_def update_where_def sample_db_defs)
  show "fst (OfferServiceHandover (sampleOffer ''h7'' ''cat'' ''bob'') HandoverTTL staleOfferDb) = Inl ErrHandoverPending"
    by (simp add: staleOfferDb(1) transferred_db OfferServiceHandover_def transact_def insertHandover_def expireStalePending_def
        update_where_def require_def forcedRow_def movedSampleRow_def HandoverTTL_def sample_db_defs)
qed

end
