(* ===== verification/Seed_Store.thy ===== *)
theory Seed_Store
  imports Service_Store
begin

text \<open>
  The repository of the seeded domain: scenarios, routes, stations, vehicle types, line services
  and travel times (\<open>internal/persistence/postgres/postgres.go\<close>, \<open>owned.go\<close>). A service is stored
  with its stops and frequency windows as child rows; a read returns the stops by sequence and the
  windows by start time. Child rows and references are checked as the migrations declare them.
\<close>

subsection \<open>Scenarios\<close>

definition CreateScenario :: "Scenario \<Rightarrow> unit repo" where
  "CreateScenario sc = transact ''CreateScenario'' (\<lambda>db.
     bind_res (require (\<not> list_ex (\<lambda>c. sc_ID c = sc_ID sc) (db_curated db)) (UniqueViolation ''scenarios_pkey'')) (\<lambda>_.
     bind_res (require (\<not> list_ex (\<lambda>c. sc_Slug c = sc_Slug sc) (db_curated db)) (UniqueViolation ''scenarios_slug_key'')) (\<lambda>_.
     bind_res (require (case sc_OwnerID sc of None \<Rightarrow> True | Some i \<Rightarrow> list_ex (\<lambda>w. u_ID (ur_user w) = i) (db_users db))
         (ForeignKeyViolation ''owner_id'')) (\<lambda>_.
       Inr ((), db\<lparr>db_curated := db_curated db @ [sc]\<rparr>)))))"

definition GetScenarioByID :: "string \<Rightarrow> Scenario option repo" where
  "GetScenarioByID i = select ''GetScenarioByID'' (\<lambda>db. List.find (\<lambda>c. sc_ID c = i) (db_curated db))"

definition GetScenarioBySlug :: "string \<Rightarrow> Scenario option repo" where
  "GetScenarioBySlug slug = select ''GetScenarioBySlug'' (\<lambda>db. List.find (\<lambda>c. sc_Slug c = slug) (db_curated db))"

definition ListCuratedScenarios :: "Scenario list repo" where
  "ListCuratedScenarios = select ''ListCuratedScenarios'' (\<lambda>db.
     SliceStable (less_by sc_Slug) (filter (\<lambda>c. sc_OwnerID c = None) (db_curated db)))"

definition ListScenariosByOwner :: "string \<Rightarrow> Scenario list repo" where
  "ListScenariosByOwner ownerID = select ''ListScenariosByOwner'' (\<lambda>db.
     SliceStable (less_by sc_Slug) (filter (\<lambda>c. sc_OwnerID c = Some ownerID) (db_curated db)))"

definition UpdateScenario :: "Scenario \<Rightarrow> unit repo" where
  "UpdateScenario sc = transact ''UpdateScenario'' (\<lambda>db.
     let hit = (\<lambda>c. sc_ID c = sc_ID sc) in
     bind_res (require (list_ex hit (db_curated db)) (NoSuchRow ''UpdateScenario'' (sc_ID sc))) (\<lambda>_.
       Inr ((), db\<lparr>db_curated := update_where hit
         (\<lambda>c. c\<lparr>sc_Name := sc_Name sc, sc_Subtext := sc_Subtext sc, sc_Description := sc_Description sc\<rparr>) (db_curated db)\<rparr>)))"

subsection \<open>Routes\<close>

definition route_refs_ok :: "Db \<Rightarrow> Route \<Rightarrow> bool" where
  "route_refs_ok db rt \<longleftrightarrow>
     (case rt_ScenarioID rt of None \<Rightarrow> True | Some i \<Rightarrow> list_ex (\<lambda>c. sc_ID c = i) (db_curated db))"

definition CreateRoute :: "Route \<Rightarrow> unit repo" where
  "CreateRoute rt = transact ''CreateRoute'' (\<lambda>db.
     bind_res (require (\<not> list_ex (\<lambda>r. rt_ID r = rt_ID rt) (db_routes db)) (UniqueViolation ''routes_pkey'')) (\<lambda>_.
     bind_res (require (\<not> list_ex (\<lambda>r. rt_Slug r = rt_Slug rt) (db_routes db)) (UniqueViolation ''routes_slug_key'')) (\<lambda>_.
     bind_res (require (route_refs_ok db rt) (ForeignKeyViolation ''scenario_id'')) (\<lambda>_.
     bind_res (require (case rt_OwnerID rt of None \<Rightarrow> True | Some i \<Rightarrow> list_ex (\<lambda>w. u_ID (ur_user w) = i) (db_users db))
         (ForeignKeyViolation ''owner_id'')) (\<lambda>_.
       Inr ((), db\<lparr>db_routes := db_routes db @ [rt]\<rparr>))))))"

definition ListRoutesByScenario :: "string \<Rightarrow> Route list repo" where
  "ListRoutesByScenario scenarioID = select ''ListRoutesByScenario'' (\<lambda>db.
     SliceStable (less_by rt_ID) (filter (\<lambda>r. rt_ScenarioID r = Some scenarioID) (db_routes db)))"

text \<open>\<open>UpdateRoute\<close> sets every column but the id and the owner.\<close>

definition updatedRoute :: "Route \<Rightarrow> Route \<Rightarrow> Route" where
  "updatedRoute rt r = rt\<lparr>rt_ID := rt_ID r, rt_OwnerID := rt_OwnerID r\<rparr>"

definition UpdateRoute :: "Route \<Rightarrow> unit repo" where
  "UpdateRoute rt = transact ''UpdateRoute'' (\<lambda>db.
     let hit = (\<lambda>r. rt_ID r = rt_ID rt) in
     bind_res (require (list_ex hit (db_routes db)) (NoSuchRow ''UpdateRoute'' (rt_ID rt))) (\<lambda>_.
     bind_res (require (\<not> list_ex (\<lambda>r. \<not> hit r \<and> rt_Slug r = rt_Slug rt) (db_routes db)) (UniqueViolation ''routes_slug_key'')) (\<lambda>_.
     bind_res (require (route_refs_ok db rt) (ForeignKeyViolation ''scenario_id'')) (\<lambda>_.
       Inr ((), db\<lparr>db_routes := update_where hit (updatedRoute rt) (db_routes db)\<rparr>)))))"

subsection \<open>Stations\<close>

definition CreateStation :: "Station \<Rightarrow> unit repo" where
  "CreateStation st = transact ''CreateStation'' (\<lambda>db.
     bind_res (require (\<not> list_ex (\<lambda>r. st_ID r = st_ID st) (db_stations db)) (UniqueViolation ''stations_pkey'')) (\<lambda>_.
     bind_res (require (\<not> list_ex (\<lambda>r. st_ScenarioID r = st_ScenarioID st \<and> st_Slug r = st_Slug st) (db_stations db))
         (UniqueViolation ''stations_scenario_id_slug_key'')) (\<lambda>_.
     bind_res (require (list_ex (\<lambda>c. sc_ID c = st_ScenarioID st) (db_curated db)) (ForeignKeyViolation ''scenario_id'')) (\<lambda>_.
     bind_res (require (case st_OwnerID st of None \<Rightarrow> True | Some i \<Rightarrow> list_ex (\<lambda>w. u_ID (ur_user w) = i) (db_users db))
         (ForeignKeyViolation ''owner_id'')) (\<lambda>_.
       Inr ((), db\<lparr>db_stations := db_stations db @ [st]\<rparr>))))))"

definition ListStationsByScenario :: "string \<Rightarrow> Station list repo" where
  "ListStationsByScenario scenarioID = select ''ListStationsByScenario'' (\<lambda>db.
     SliceStable (less_by st_Slug) (filter (\<lambda>s. st_ScenarioID s = scenarioID) (db_stations db)))"

text \<open>\<open>UpdateStation\<close> sets every column but the id, the scenario and the owner.\<close>

definition updatedStation :: "Station \<Rightarrow> Station \<Rightarrow> Station" where
  "updatedStation st r = st\<lparr>st_ID := st_ID r, st_ScenarioID := st_ScenarioID r, st_OwnerID := st_OwnerID r\<rparr>"

definition UpdateStation :: "Station \<Rightarrow> unit repo" where
  "UpdateStation st = transact ''UpdateStation'' (\<lambda>db.
     let hit = (\<lambda>r. st_ID r = st_ID st) in
     bind_res (require (list_ex hit (db_stations db)) (NoSuchRow ''UpdateStation'' (st_ID st))) (\<lambda>_.
     bind_res (require (list_all (\<lambda>r. hit r \<longrightarrow> \<not> list_ex (\<lambda>q. \<not> hit q \<and> st_ScenarioID q = st_ScenarioID r \<and> st_Slug q = st_Slug st)
           (db_stations db)) (db_stations db)) (UniqueViolation ''stations_scenario_id_slug_key'')) (\<lambda>_.
       Inr ((), db\<lparr>db_stations := update_where hit (updatedStation st) (db_stations db)\<rparr>))))"

subsection \<open>Vehicle types\<close>

definition vehicle_ints_ok :: "VehicleType \<Rightarrow> bool" where
  "vehicle_ints_ok vt \<longleftrightarrow> int4 (vt_DwellLevelS vt) \<and> int4 (vt_DwellStepS vt)"

definition CreateVehicleType :: "VehicleType \<Rightarrow> unit repo" where
  "CreateVehicleType vt = transact ''CreateVehicleType'' (\<lambda>db.
     bind_res (require (vehicle_ints_ok vt) (IntegerOutOfRange ''dwell_s'')) (\<lambda>_.
       Inr ((), if list_ex (\<lambda>v. vt_ID v = vt_ID vt) (db_vehicle_types db) then db
                else db\<lparr>db_vehicle_types := db_vehicle_types db @ [vt]\<rparr>)))"

definition ListVehicleTypes :: "VehicleType list repo" where
  "ListVehicleTypes = select ''ListVehicleTypes'' (\<lambda>db. SliceStable (less_by vt_ID) (db_vehicle_types db))"

definition GetVehicleTypeByID :: "string \<Rightarrow> VehicleType option repo" where
  "GetVehicleTypeByID i = select ''GetVehicleTypeByID'' (\<lambda>db. List.find (\<lambda>v. vt_ID v = i) (db_vehicle_types db))"

definition UpdateVehicleType :: "VehicleType \<Rightarrow> unit repo" where
  "UpdateVehicleType vt = transact ''UpdateVehicleType'' (\<lambda>db.
     let hit = (\<lambda>v. vt_ID v = vt_ID vt) in
     bind_res (require (vehicle_ints_ok vt) (IntegerOutOfRange ''dwell_s'')) (\<lambda>_.
     bind_res (require (list_ex hit (db_vehicle_types db)) (NoSuchRow ''UpdateVehicleType'' (vt_ID vt))) (\<lambda>_.
       Inr ((), db\<lparr>db_vehicle_types := update_where hit (\<lambda>v. vt\<lparr>vt_ID := vt_ID v\<rparr>) (db_vehicle_types db)\<rparr>))))"

subsection \<open>Line services\<close>

text \<open>
  The row a service is stored as: the override through its two columns, and no resolved wait. The
  child rows are those \<open>insertServiceChildren\<close> inserts, in order.
\<close>

definition lineRow :: "Service \<Rightarrow> Service" where
  "lineRow svc = svc\<lparr>svc_BoardingWait := (let (kind, secs) = boardingWaitArgs (svc_BoardingWait svc) in scanBoardingWait kind secs),
     svc_BoardingWaitPolicy := [], svc_BoardingWaitSecs := 0, svc_BoardingWaitSource := []\<rparr>"

definition insertServiceChildren :: "Db \<Rightarrow> Service \<Rightarrow> db_error + unit" where
  "insertServiceChildren db svc =
     bind_res (require (distinct (map ss_Sequence (svc_Stops svc))) (UniqueViolation ''service_stops_pkey'')) (\<lambda>_.
     bind_res (require (list_all (\<lambda>stop. list_ex (\<lambda>r. st_ID r = ss_StationID stop) (db_stations db)) (svc_Stops svc))
         (ForeignKeyViolation ''station_id'')) (\<lambda>_.
     bind_res (require (list_all (\<lambda>stop. int4 (ss_Sequence stop) \<and> (case ss_DwellS stop of None \<Rightarrow> True | Some n \<Rightarrow> int4 n)) (svc_Stops svc))
         (IntegerOutOfRange ''service_stops'')) (\<lambda>_.
       require (list_all (\<lambda>fw. int4 (fw_HeadwayS fw)) (svc_FrequencyWindows svc)) (IntegerOutOfRange ''headway_s''))))"

definition line_refs_ok :: "Db \<Rightarrow> Service \<Rightarrow> db_error + unit" where
  "line_refs_ok db svc =
     bind_res (require (list_ex (\<lambda>r. rt_ID r = svc_RouteID svc) (db_routes db)) (ForeignKeyViolation ''route_id'')) (\<lambda>_.
     bind_res (require (list_ex (\<lambda>v. vt_ID v = svc_VehicleTypeID svc) (db_vehicle_types db)) (ForeignKeyViolation ''vehicle_type_id'')) (\<lambda>_.
       require (case snd (boardingWaitArgs (svc_BoardingWait svc)) of None \<Rightarrow> True | Some n \<Rightarrow> int4 n)
         (IntegerOutOfRange ''boarding_wait_fixed_secs'')))"

definition repo_CreateService :: "Service \<Rightarrow> unit repo" where
  "repo_CreateService svc = transact ''CreateService'' (\<lambda>db.
     bind_res (require (\<not> list_ex (\<lambda>s. svc_ID s = svc_ID svc) (db_line_services db)) (UniqueViolation ''services_pkey'')) (\<lambda>_.
     bind_res (require (list_ex (\<lambda>c. sc_ID c = svc_ScenarioID svc) (db_curated db)) (ForeignKeyViolation ''scenario_id'')) (\<lambda>_.
     bind_res (line_refs_ok db svc) (\<lambda>_.
     bind_res (require (case svc_OwnerID svc of None \<Rightarrow> True | Some i \<Rightarrow> list_ex (\<lambda>w. u_ID (ur_user w) = i) (db_users db))
         (ForeignKeyViolation ''owner_id'')) (\<lambda>_.
     bind_res (insertServiceChildren db svc) (\<lambda>_.
       Inr ((), db\<lparr>db_line_services := db_line_services db @ [lineRow svc]\<rparr>)))))))"

definition listServiceStops :: "Service \<Rightarrow> ServiceStop list" where
  "listServiceStops row = SliceStable (less_by ss_Sequence) (svc_Stops row)"

definition listFrequencyWindows :: "Service \<Rightarrow> FrequencyWindow list" where
  "listFrequencyWindows row = SliceStable (less_by fw_StartTime) (svc_FrequencyWindows row)"

definition withChildren :: "Service \<Rightarrow> Service" where
  "withChildren row = row\<lparr>svc_Stops := listServiceStops row, svc_FrequencyWindows := listFrequencyWindows row\<rparr>"

definition listServicesBy :: "string \<Rightarrow> (Service \<Rightarrow> bool) \<Rightarrow> Service list repo" where
  "listServicesBy op p = select op (\<lambda>db. map withChildren (SliceStable (less_by svc_ID) (filter p (db_line_services db))))"

definition ListServicesByScenario :: "string \<Rightarrow> Service list repo" where
  "ListServicesByScenario scenarioID = listServicesBy ''ListServicesByScenario'' (\<lambda>s. svc_ScenarioID s = scenarioID)"

definition ListServicesByOwner :: "string \<Rightarrow> Service list repo" where
  "ListServicesByOwner ownerID = listServicesBy ''ListServicesByOwner'' (\<lambda>s. svc_OwnerID s = Some ownerID)"

definition GetServiceByID :: "string \<Rightarrow> Service option repo" where
  "GetServiceByID i db =
     (case listServicesBy ''GetServiceByID'' (\<lambda>s. svc_ID s = i) db of
        (Inl e, db') \<Rightarrow> (Inl e, db')
      | (Inr [], db') \<Rightarrow> (Inr None, db')
      | (Inr (s # _), db') \<Rightarrow> (Inr (Some s), db'))"

text \<open>
  The columns \<open>UpdateService\<close> sets, with the child rows replaced: not the scenario, the
  provenance or the owner.
\<close>

definition updatedLine :: "Service \<Rightarrow> Service \<Rightarrow> Service" where
  "updatedLine svc s =
     s\<lparr>svc_RouteID := svc_RouteID svc, svc_VehicleTypeID := svc_VehicleTypeID svc, svc_Name := svc_Name svc,
       svc_Direction := svc_Direction svc, svc_Active := svc_Active svc, svc_BoardingWait := svc_BoardingWait (lineRow svc),
       svc_Stops := svc_Stops svc, svc_FrequencyWindows := svc_FrequencyWindows svc\<rparr>"

definition repo_UpdateService :: "Service \<Rightarrow> unit repo" where
  "repo_UpdateService svc = transact ''UpdateService'' (\<lambda>db.
     let hit = (\<lambda>s. svc_ID s = svc_ID svc) in
     bind_res (require (list_ex hit (db_line_services db)) (NoSuchRow ''UpdateService'' (svc_ID svc))) (\<lambda>_.
     bind_res (line_refs_ok db svc) (\<lambda>_.
     bind_res (insertServiceChildren db svc) (\<lambda>_.
       Inr ((), db\<lparr>db_line_services := update_where hit (updatedLine svc) (db_line_services db)\<rparr>)))))"

definition AddServiceToScenario :: "string \<Rightarrow> string \<Rightarrow> unit repo" where
  "AddServiceToScenario scenarioID serviceID = transact ''AddServiceToScenario'' (\<lambda>db.
     bind_res (require (list_ex (\<lambda>c. sc_ID c = scenarioID) (db_curated db)) (ForeignKeyViolation ''scenario_id'')) (\<lambda>_.
     bind_res (require (list_ex (\<lambda>s. svc_ID s = serviceID) (db_line_services db)) (ForeignKeyViolation ''service_id'')) (\<lambda>_.
       Inr ((), if (scenarioID, serviceID) \<in> set (db_links db) then db
                else db\<lparr>db_links := db_links db @ [(scenarioID, serviceID)]\<rparr>))))"

definition ListServiceIDsByScenario :: "string \<Rightarrow> string list repo" where
  "ListServiceIDsByScenario scenarioID = select ''ListServiceIDsByScenario'' (\<lambda>db.
     SliceStable (less_by (\<lambda>i. i)) (map snd (filter (\<lambda>(c, s). c = scenarioID) (db_links db))))"

subsection \<open>Travel times\<close>

definition UpsertTravelTimes :: "TravelTimes \<Rightarrow> unit repo" where
  "UpsertTravelTimes tt = transact ''UpsertTravelTimes'' (\<lambda>db.
     case List.find (\<lambda>c. sc_Slug c = tt_ScenarioSlug tt) (db_curated db) of
       None \<Rightarrow> Inl (NoSuchRow ''UpsertTravelTimes'' (tt_ScenarioSlug tt))
     | Some sc \<Rightarrow>
         (let row = \<lparr>ts_scenario = sc_ID sc, ts_provenance = tt_Provenance tt, ts_source = tt_Source tt\<rparr>;
              hit = (\<lambda>t. ts_scenario t = sc_ID sc) in
          bind_res (require (list_all (\<lambda>g. int4 (seg_RunSeconds g) \<and>
                (case seg_ReverseRunSeconds g of None \<Rightarrow> True | Some n \<Rightarrow> int4 n)) (tt_Segments tt)) (IntegerOutOfRange ''run_seconds'')) (\<lambda>_.
          bind_res (require (list_all (\<lambda>g. list_ex (\<lambda>r. rt_ID r = seg_RouteID g) (db_routes db)) (tt_Segments tt))
                (ForeignKeyViolation ''route_id'')) (\<lambda>_.
            Inr ((), db\<lparr>db_time_sets := (if list_ex hit (db_time_sets db) then update_where hit (\<lambda>_. row) (db_time_sets db)
                                        else db_time_sets db @ [row]),
                        db_segments := delete_where (\<lambda>g. sw_scenario g = sc_ID sc) (db_segments db) @
                          map (\<lambda>g. \<lparr>sw_scenario = sc_ID sc, sw_segment = g\<rparr>) (tt_Segments tt)\<rparr>)))))"

definition GetTravelTimes :: "string \<Rightarrow> TravelTimes option repo" where
  "GetTravelTimes scenarioSlug = select ''GetTravelTimes'' (\<lambda>db.
     case List.find (\<lambda>c. sc_Slug c = scenarioSlug) (db_curated db) of
       None \<Rightarrow> None
     | Some sc \<Rightarrow>
         (case List.find (\<lambda>t. ts_scenario t = sc_ID sc) (db_time_sets db) of
            None \<Rightarrow> None
          | Some t \<Rightarrow>
              Some \<lparr>tt_ScenarioSlug = scenarioSlug, tt_Provenance = ts_provenance t, tt_Source = ts_source t,
                tt_Segments = map sw_segment (filter (\<lambda>g. sw_scenario g = sc_ID sc) (db_segments db))\<rparr>))"

end
