(* ===== verification/Seed_Reconcile.thy ===== *)
theory Seed_Reconcile
  imports Seed_Store
begin

text \<open>
  Seeding and reconciliation of the curated scenarios (\<open>internal/transit/seed.go\<close>,
  \<open>seed_reconcile.go\<close>). At boot, an embedded scenario that is not current is written; one that is
  current is brought to the embedded content row by row. Reading and decoding the embedded YAML
  files is outside the model: the six decoded documents are arguments. Two rows are compared as
  the values their JSON encodes, so a missing list and an empty one are the same.
\<close>

subsection \<open>The embedded scenarios\<close>

record embeddedScenario =
  em_scenario :: Scenario
  em_vehicleTypes :: "VehicleType list"
  em_routes :: "Route list"
  em_stations :: "Station list"
  em_services :: "Service list"
  em_travelTimes :: TravelTimes

datatype 'e seed_error =
    Unmarshal 'e
  | SubtextTooLong string
  | BadWait string wait_error
  | UnknownSegmentRoute SegmentTime
  | NonPositiveReverse SegmentTime

definition validateScenarioSeed :: "Scenario \<Rightarrow> 'e seed_error + unit" where
  "validateScenarioSeed sc =
     (if length (runes (sc_Subtext sc)) > MaxSubtextChars then Inl (SubtextTooLong (sc_Slug sc)) else Inr ())"

fun checkSegments :: "string set \<Rightarrow> SegmentTime list \<Rightarrow> 'e seed_error + unit" where
  "checkSegments known [] = Inr ()"
| "checkSegments known (seg # segs) =
     (if seg_RouteID seg \<notin> known then Inl (UnknownSegmentRoute seg)
      else if (case seg_ReverseRunSeconds seg of None \<Rightarrow> False | Some n \<Rightarrow> n \<le> 0) then Inl (NonPositiveReverse seg)
      else checkSegments known segs)"

definition validateSegmentRoutes :: "Route list \<Rightarrow> TravelTimes \<Rightarrow> 'e seed_error + unit" where
  "validateSegmentRoutes routes tt = checkSegments (rt_ID ` set routes) (tt_Segments tt)"

fun checkServiceWaits :: "Service list \<Rightarrow> 'e seed_error + unit" where
  "checkServiceWaits [] = Inr ()"
| "checkServiceWaits (svc # svcs) =
     (case svc_BoardingWait svc of
        None \<Rightarrow> checkServiceWaits svcs
      | Some ov \<Rightarrow> bind_res (wrap_err (BadWait (svc_ID svc)) (Override_Parse ov)) (\<lambda>_. checkServiceWaits svcs))"

definition loadEmbeddedScenario ::
  "'e + Scenario \<Rightarrow> 'e + VehicleType list \<Rightarrow> 'e + Route list \<Rightarrow> 'e + Station list \<Rightarrow> 'e + Service list \<Rightarrow> 'e + TravelTimes
    \<Rightarrow> 'e seed_error + embeddedScenario" where
  "loadEmbeddedScenario scFile vtFile rtFile stFile svcFile ttFile =
     bind_res (wrap_err Unmarshal scFile) (\<lambda>sc.
     bind_res (validateScenarioSeed sc) (\<lambda>_.
     bind_res (wrap_err Unmarshal vtFile) (\<lambda>vts.
     bind_res (wrap_err Unmarshal rtFile) (\<lambda>rts.
     bind_res (wrap_err Unmarshal stFile) (\<lambda>sts.
     bind_res (wrap_err Unmarshal svcFile) (\<lambda>svcs.
     bind_res (checkServiceWaits svcs) (\<lambda>_.
     bind_res (wrap_err Unmarshal ttFile) (\<lambda>tt.
     bind_res (validateSegmentRoutes rts tt) (\<lambda>_.
       Inr \<lparr>em_scenario = sc, em_vehicleTypes = vts, em_routes = rts, em_stations = sts, em_services = svcs,
            em_travelTimes = tt\<rparr>)))))))))"

subsection \<open>Seeding an empty database\<close>

definition bind_repo :: "'a repo \<Rightarrow> ('a \<Rightarrow> 'b repo) \<Rightarrow> 'b repo" where
  "bind_repo m f db = (case m db of (Inl e, db') \<Rightarrow> (Inl e, db') | (Inr x, db') \<Rightarrow> f x db')"

fun each :: "('a \<Rightarrow> unit repo) \<Rightarrow> 'a list \<Rightarrow> unit repo" where
  "each f [] = (\<lambda>db. (Inr (), db))"
| "each f (x # xs) = bind_repo (f x) (\<lambda>_. each f xs)"

definition createLinkedService :: "Service \<Rightarrow> unit repo" where
  "createLinkedService svc = bind_repo (repo_CreateService svc) (\<lambda>_. AddServiceToScenario (svc_ScenarioID svc) (svc_ID svc))"

definition writeEmbeddedScenario :: "embeddedScenario \<Rightarrow> unit repo" where
  "writeEmbeddedScenario seed =
     bind_repo (CreateScenario (em_scenario seed)) (\<lambda>_.
     bind_repo (each CreateVehicleType (em_vehicleTypes seed)) (\<lambda>_.
     bind_repo (each CreateRoute (em_routes seed)) (\<lambda>_.
     bind_repo (each CreateStation (em_stations seed)) (\<lambda>_.
     bind_repo (each createLinkedService (em_services seed)) (\<lambda>_.
       UpsertTravelTimes (em_travelTimes seed))))))"

definition SeedFromEmbedded :: "embeddedScenario list \<Rightarrow> unit repo" where
  "SeedFromEmbedded seeds = each writeEmbeddedScenario seeds"

definition SeedIfEmpty :: "embeddedScenario list \<Rightarrow> bool repo" where
  "SeedIfEmpty seeds =
     bind_repo ListCuratedScenarios (\<lambda>existing.
       if existing \<noteq> [] then (\<lambda>db. (Inr False, db))
       else bind_repo (SeedFromEmbedded seeds) (\<lambda>_ db. (Inr True, db)))"

subsection \<open>Reconciliation\<close>

text \<open>A reconciling step returns how many rows it wrote and the error it stopped at, if any.\<close>

type_synonym reconciling = "Db \<Rightarrow> (nat \<times> db_error option) \<times> Db"

definition scenarioSeedView :: "Scenario \<Rightarrow> Scenario" where
  "scenarioSeedView sc = sc\<lparr>sc_OwnerID := None\<rparr>"

definition stationSeedView :: "Station \<Rightarrow> Station" where
  "stationSeedView st = st\<lparr>st_OwnerID := None\<rparr>"

definition routeSeedView :: "Route \<Rightarrow> Route" where
  "routeSeedView r = r\<lparr>rt_OwnerID := None\<rparr>"

definition serviceSeedView :: "Service \<Rightarrow> Service" where
  "serviceSeedView svc =
     svc\<lparr>svc_OwnerID := None, svc_BoardingWaitPolicy := [], svc_BoardingWaitSecs := 0, svc_BoardingWaitSource := []\<rparr>"

definition travelTimesSeedView :: "TravelTimes \<Rightarrow> TravelTimes" where
  "travelTimesSeedView tt = tt"

definition sameSeedContent :: "'a \<Rightarrow> 'a \<Rightarrow> bool" where
  "sameSeedContent a b \<longleftrightarrow> a = b"

text \<open>
  The loop the four row kinds share: a seed row without a stored counterpart is created, an
  authored counterpart is left alone, an equal one skipped, any other updated.
\<close>

fun reconcileLoop ::
  "(string \<rightharpoonup> 'a) \<Rightarrow> ('a \<Rightarrow> string) \<Rightarrow> ('a \<Rightarrow> bool) \<Rightarrow> ('a \<Rightarrow> 'v) \<Rightarrow> ('a \<Rightarrow> unit repo) \<Rightarrow> ('a \<Rightarrow> unit repo) \<Rightarrow> 'a list
    \<Rightarrow> reconciling" where
  "reconcileLoop byID key owned view create update [] db = ((0, None), db)"
| "reconcileLoop byID key owned view create update (want # rest) db =
     (case byID (key want) of
        None \<Rightarrow>
          (case create want db of
             (Inl e, db') \<Rightarrow> ((0, Some e), db')
           | (Inr _, db') \<Rightarrow>
               (case reconcileLoop byID key owned view create update rest db' of ((n, err), db'') \<Rightarrow> ((Suc n, err), db'')))
      | Some got \<Rightarrow>
          if owned got \<or> sameSeedContent (view got) (view want)
          then reconcileLoop byID key owned view create update rest db
          else (case update want db of
                  (Inl e, db') \<Rightarrow> ((0, Some e), db')
                | (Inr _, db') \<Rightarrow>
                    (case reconcileLoop byID key owned view create update rest db' of ((n, err), db'') \<Rightarrow> ((Suc n, err), db''))))"

definition reconcileVehicleTypes :: "VehicleType list \<Rightarrow> reconciling" where
  "reconcileVehicleTypes seeds db =
     (case ListVehicleTypes db of
        (Inl e, db') \<Rightarrow> ((0, Some e), db')
      | (Inr current, db') \<Rightarrow>
          reconcileLoop (index_by vt_ID current) vt_ID (\<lambda>_. False) (\<lambda>v. v) CreateVehicleType UpdateVehicleType seeds db')"

definition reconcileRoutes :: "Route list \<Rightarrow> Route list \<Rightarrow> reconciling" where
  "reconcileRoutes seeds current =
     reconcileLoop (index_by rt_ID current) rt_ID (\<lambda>r. rt_OwnerID r \<noteq> None) routeSeedView CreateRoute UpdateRoute seeds"

definition reconcileStations :: "Station list \<Rightarrow> Station list \<Rightarrow> reconciling" where
  "reconcileStations seeds current =
     reconcileLoop (index_by st_ID current) st_ID (\<lambda>s. st_OwnerID s \<noteq> None) stationSeedView CreateStation UpdateStation seeds"

definition updateLinkedService :: "Service \<Rightarrow> unit repo" where
  "updateLinkedService svc = bind_repo (repo_UpdateService svc) (\<lambda>_. AddServiceToScenario (svc_ScenarioID svc) (svc_ID svc))"

definition reconcileServices :: "Service list \<Rightarrow> Service list \<Rightarrow> reconciling" where
  "reconcileServices seeds current =
     reconcileLoop (index_by svc_ID current) svc_ID (\<lambda>s. svc_OwnerID s \<noteq> None) serviceSeedView createLinkedService updateLinkedService seeds"

text \<open>One part after the other: an error drops the count of the part that met it.\<close>

definition and_then :: "reconciling \<Rightarrow> reconciling \<Rightarrow> reconciling" where
  "and_then a b db =
     (case a db of
        ((n, Some e), db') \<Rightarrow> ((0, Some e), db')
      | ((n, None), db') \<Rightarrow> (case b db' of ((m, err), db'') \<Rightarrow> ((n + m, err), db'')))"

definition listing :: "'a repo \<Rightarrow> ('a \<Rightarrow> reconciling) \<Rightarrow> reconciling" where
  "listing q k db = (case q db of (Inl e, db') \<Rightarrow> ((0, Some e), db') | (Inr x, db') \<Rightarrow> k x db')"

definition wrote :: "unit repo \<Rightarrow> reconciling" where
  "wrote m db = (case m db of (Inl e, db') \<Rightarrow> ((0, Some e), db') | (Inr _, db') \<Rightarrow> ((1, None), db'))"

definition unchanged :: reconciling where
  "unchanged db = ((0, None), db)"

definition reconcileTravelTimes :: "TravelTimes \<Rightarrow> reconciling" where
  "reconcileTravelTimes tt = listing (GetTravelTimes (tt_ScenarioSlug tt)) (\<lambda>found.
     case found of
       None \<Rightarrow> wrote (UpsertTravelTimes tt)
     | Some current \<Rightarrow>
         if sameSeedContent (travelTimesSeedView current) (travelTimesSeedView tt) then unchanged else wrote (UpsertTravelTimes tt))"

definition reconcileStored :: "embeddedScenario \<Rightarrow> Scenario \<Rightarrow> reconciling" where
  "reconcileStored seed current =
     and_then (if sameSeedContent (scenarioSeedView current) (scenarioSeedView (em_scenario seed)) then unchanged
               else wrote (UpdateScenario (em_scenario seed)))
     (and_then (reconcileVehicleTypes (em_vehicleTypes seed))
     (and_then (listing (ListRoutesByScenario (sc_ID current)) (reconcileRoutes (em_routes seed)))
     (and_then (listing (ListStationsByScenario (sc_ID current)) (reconcileStations (em_stations seed)))
     (and_then (listing (ListServicesByScenario (sc_ID current)) (reconcileServices (em_services seed)))
       (reconcileTravelTimes (em_travelTimes seed))))))"

definition reconcileEmbeddedScenario :: "embeddedScenario \<Rightarrow> reconciling" where
  "reconcileEmbeddedScenario seed = listing (GetScenarioBySlug (sc_Slug (em_scenario seed))) (\<lambda>found.
     case found of
       None \<Rightarrow>
         listing (writeEmbeddedScenario seed) (\<lambda>_ db.
           ((1 + length (em_vehicleTypes seed) + length (em_routes seed) + length (em_stations seed) + length (em_services seed) + 1,
             None), db))
     | Some current \<Rightarrow>
         if sc_OwnerID current \<noteq> None then unchanged
         else if sc_ID current \<noteq> sc_ID (em_scenario seed) then unchanged
         else reconcileStored seed current)"

fun ReconcileSeed :: "embeddedScenario list \<Rightarrow> reconciling" where
  "ReconcileSeed [] = unchanged"
| "ReconcileSeed (seed # seeds) = and_then (reconcileEmbeddedScenario seed) (ReconcileSeed seeds)"

subsection \<open>Reconciling one table\<close>

text \<open>
  \<open>rows\<close> is the table, \<open>scope\<close> says which rows the listing returns, \<open>seen\<close> how it returns them,
  \<open>good\<close> what the loop needs of a seed row, and \<open>fits want r\<close> that an update with \<open>want\<close> brings the
  row \<open>r\<close> to the seed's content.
\<close>

locale seed_table =
  fixes rows :: "Db \<Rightarrow> 'a list" and key :: "'a \<Rightarrow> string" and owned :: "'a \<Rightarrow> bool" and view :: "'a \<Rightarrow> 'v"
    and create :: "'a \<Rightarrow> unit repo" and update :: "'a \<Rightarrow> unit repo"
    and scope :: "'a \<Rightarrow> bool" and seen :: "'a \<Rightarrow> 'a" and good :: "'a \<Rightarrow> bool" and fits :: "'a \<Rightarrow> 'a \<Rightarrow> bool"
  assumes created: "create want db = (Inr x, db') \<Longrightarrow> good want \<Longrightarrow> (\<And>r. r \<in> set (rows db) \<Longrightarrow> scope r \<Longrightarrow> key r \<noteq> key want) \<Longrightarrow>
      key want \<notin> key ` set (rows db) \<and>
      (\<exists>new. rows db' = rows db @ [new] \<and> key new = key want \<and> scope new \<and> view (seen new) = view want)"
    and updated: "update want db = (Inr x, db') \<Longrightarrow> good want \<Longrightarrow>
      \<exists>f. rows db' = update_where (\<lambda>r. key r = key want) f (rows db) \<and>
        (\<forall>r. key r = key want \<longrightarrow> key (f r) = key r \<and> (scope r \<longrightarrow> scope (f r)) \<and> (fits want r \<longrightarrow> view (seen (f r)) = view want))"
    and seen_key: "key (seen r) = key r"
    and seen_owned: "owned (seen r) = owned r"
begin

definition keyed :: "string \<Rightarrow> 'a list \<Rightarrow> 'a set" where
  "keyed k R = {r \<in> set R. key r = k \<and> scope r}"

definition settled :: "'a list \<Rightarrow> 'a \<Rightarrow> bool" where
  "settled R want \<longleftrightarrow> (\<exists>r \<in> keyed (key want) R. owned r \<or> view (seen r) = view want)"

text \<open>What a listing taken earlier says about a row that has not been touched since.\<close>

definition current_in :: "(string \<rightharpoonup> 'a) \<Rightarrow> 'a list \<Rightarrow> 'a \<Rightarrow> bool" where
  "current_in byID R want \<longleftrightarrow>
     (byID (key want) = None \<and> keyed (key want) R = {}) \<or> (\<exists>r. keyed (key want) R = {r} \<and> byID (key want) = Some (seen r))"

abbreviation loop :: "(string \<rightharpoonup> 'a) \<Rightarrow> 'a list \<Rightarrow> reconciling" where
  "loop byID \<equiv> reconcileLoop byID key owned view create update"

lemma keyed_key: "distinct (map key R) \<Longrightarrow> r \<in> keyed k R \<Longrightarrow> keyed k R = {r}"
  by (auto simp: keyed_def distinct_map inj_on_def)

lemma listing_current:
  assumes "set L = seen ` {r \<in> set R. scope r}" and "distinct (map key R)"
  shows "current_in (index_by key L) R want"
proof (cases "index_by key L (key want)")
  case None
  then have "key want \<notin> key ` set L" by (simp add: index_by_None_iff)
  then have "keyed (key want) R = {}" using assms(1) by (auto simp: keyed_def seen_key image_iff)
  with None show ?thesis by (simp add: current_in_def)
next
  case (Some x)
  from index_by_Some [OF Some] assms(1) obtain r where r: "r \<in> keyed (key want) R" "x = seen r" by (auto simp: keyed_def seen_key)
  with Some keyed_key [OF assms(2) r(1)] show ?thesis by (auto simp: current_in_def)
qed

text \<open>A write under one key leaves the rows under every other key as they are.\<close>

definition elsewhere :: "string \<Rightarrow> 'a list \<Rightarrow> 'a list \<Rightarrow> bool" where
  "elsewhere k R R' \<longleftrightarrow> (\<forall>r. key r \<noteq> k \<longrightarrow> (r \<in> set R' \<longleftrightarrow> r \<in> set R))"

lemma elsewhere_keyed: "elsewhere k R R' \<Longrightarrow> k' \<noteq> k \<Longrightarrow> keyed k' R' = keyed k' R"
  by (auto simp: elsewhere_def keyed_def)

lemma create_step:
  assumes "create want db = (Inr x, db')" and "good want" and "keyed (key want) (rows db) = {}" and "distinct (map key (rows db))"
  shows "settled (rows db') want" "distinct (map key (rows db'))" "elsewhere (key want) (rows db) (rows db')"
proof -
  have "key r \<noteq> key want" if "r \<in> set (rows db)" "scope r" for r using assms(3) that by (auto simp: keyed_def)
  with created [OF assms(1,2)] obtain new where n: "key want \<notin> key ` set (rows db)" "rows db' = rows db @ [new]"
    "key new = key want" "scope new" "view (seen new) = view want" by blast
  then show "settled (rows db') want" "distinct (map key (rows db'))" "elsewhere (key want) (rows db) (rows db')"
    using assms(4) by (auto simp: settled_def keyed_def elsewhere_def)
qed

lemma update_step:
  assumes "update want db = (Inr x, db')" and "good want" and r: "keyed (key want) (rows db) = {r}" and "fits want r"
    and "distinct (map key (rows db))"
  shows "settled (rows db') want" "distinct (map key (rows db'))" "elsewhere (key want) (rows db) (rows db')"
proof -
  from updated [OF assms(1,2)] obtain f where R': "rows db' = update_where (\<lambda>r. key r = key want) f (rows db)"
    and f: "\<And>r. key r = key want \<Longrightarrow> key (f r) = key r \<and> (scope r \<longrightarrow> scope (f r)) \<and> (fits want r \<longrightarrow> view (seen (f r)) = view want)"
    by blast
  let ?u = "\<lambda>r. if key r = key want then f r else r"
  have R'm: "rows db' = map ?u (rows db)" by (simp add: R' update_where_def)
  have "map key (rows db') = map key (rows db)" by (simp add: R'm f)
  with assms(5) show "distinct (map key (rows db'))" by simp
  from r have r_in: "r \<in> set (rows db)" "key r = key want" "scope r" by (auto simp: keyed_def)
  then have "f r \<in> set (rows db')" by (auto simp: R'm intro!: image_eqI [where x = r])
  with f [OF r_in(2)] r_in assms(4) show "settled (rows db') want" by (auto simp: settled_def keyed_def)
  have "s \<in> set (rows db') \<longleftrightarrow> s \<in> set (rows db)" if "key s \<noteq> key want" for s
    using that f by (auto simp: R'm)
  then show "elsewhere (key want) (rows db) (rows db')" by (simp add: elsewhere_def)
qed

end

context seed_table
begin

definition ready :: "(string \<rightharpoonup> 'a) \<Rightarrow> 'a list \<Rightarrow> 'a \<Rightarrow> bool" where
  "ready byID R want \<longleftrightarrow> good want \<and> current_in byID R want \<and> (\<forall>r \<in> keyed (key want) R. fits want r)"

lemma elsewhere_ready:
  assumes "elsewhere k R R'" and "key want \<noteq> k"
  shows "ready byID R' want \<longleftrightarrow> ready byID R want" "settled R' want \<longleftrightarrow> settled R want"
  using elsewhere_keyed [OF assms] by (simp_all add: ready_def settled_def current_in_def)

text \<open>A loop that ends without an error settles every row of the seed.\<close>

lemma loop_settles:
  assumes "loop byID seeds db = ((n, None), db')" and "distinct (map key seeds)" and "distinct (map key (rows db))"
    and "\<And>want. want \<in> set seeds \<Longrightarrow> ready byID (rows db) want"
  shows "distinct (map key (rows db')) \<and> (\<forall>want \<in> set seeds. settled (rows db') want) \<and>
    (\<forall>w. key w \<notin> key ` set seeds \<longrightarrow> settled (rows db) w \<longrightarrow> settled (rows db') w)"
  using assms
proof (induction seeds arbitrary: db n)
  case (Cons want rest)
  have ready: "ready byID (rows db) want" by (rule Cons.prems(4)) simp
  have fresh: "key w \<noteq> key want" if "w \<in> set rest" for w using Cons.prems(2) that by (auto simp: image_iff)
  have go: ?case if run: "loop byID rest db1 = ((m, None), db')" and s: "settled (rows db1) want" "distinct (map key (rows db1))"
    "elsewhere (key want) (rows db) (rows db1)" for db1 m
  proof -
    have "ready byID (rows db1) w" if "w \<in> set rest" for w
      using Cons.prems(4) [of w] elsewhere_ready(1) [OF s(3) fresh [OF that]] that by simp
    from Cons.IH [OF run _ s(2) this] Cons.prems(2)
    have rest: "distinct (map key (rows db'))" "\<forall>w \<in> set rest. settled (rows db') w"
      "\<And>w. key w \<notin> key ` set rest \<Longrightarrow> settled (rows db1) w \<Longrightarrow> settled (rows db') w" by auto
    moreover have "settled (rows db') want" using rest(3) s(1) Cons.prems(2) by simp
    moreover have "settled (rows db') w" if "key w \<notin> key ` set (want # rest)" "settled (rows db) w" for w
      using rest(3) that elsewhere_ready(2) [OF s(3)] by simp
    ultimately show ?thesis by auto
  qed
  from ready show ?case unfolding ready_def current_in_def
  proof (elim conjE disjE exE)
    assume good: "good want" and none: "byID (key want) = None" "keyed (key want) (rows db) = {}"
    with Cons.prems(1) obtain x db1 m where "create want db = (Inr x, db1)" "loop byID rest db1 = ((m, None), db')"
      by (auto split: prod.splits sum.splits)
    with create_step [OF _ good none(2) Cons.prems(3)] go show ?case by blast
  next
    fix r
    assume good: "good want" and r: "keyed (key want) (rows db) = {r}" "byID (key want) = Some (seen r)"
      and fits: "\<forall>r \<in> keyed (key want) (rows db). fits want r"
    show ?case
    proof (cases "owned r \<or> view (seen r) = view want")
      case True
      then have "settled (rows db) want" using r(1) by (auto simp: settled_def)
      moreover have "loop byID rest db = ((n, None), db')"
        using Cons.prems(1) r(2) True by (auto simp: sameSeedContent_def seen_owned)
      ultimately show ?thesis using go Cons.prems(3) by (simp add: elsewhere_def)
    next
      case False
      with Cons.prems(1) r(2) obtain x db1 m where "update want db = (Inr x, db1)" "loop byID rest db1 = ((m, None), db')"
        by (auto simp: sameSeedContent_def seen_owned split: prod.splits sum.splits)
      with update_step [OF _ good r(1) _ Cons.prems(3)] fits r(1) go show ?thesis by blast
    qed
  qed
qed simp

text \<open>Once every row is settled, the loop writes nothing.\<close>

lemma loop_quiet:
  assumes "\<And>want. want \<in> set seeds \<Longrightarrow> current_in byID R want \<and> settled R want"
  shows "loop byID seeds db = ((0, None), db)"
  using assms
proof (induction seeds)
  case (Cons want rest)
  from Cons.prems [of want] obtain r where "byID (key want) = Some (seen r)" "owned r \<or> view (seen r) = view want"
    by (auto simp: current_in_def settled_def)
  with Cons show ?case by (auto simp: sameSeedContent_def seen_owned)
qed simp

text \<open>The two facts for a loop that starts from a listing of the table.\<close>

lemma listed_settles:
  assumes "loop (index_by key L) seeds db = ((n, None), db')" and "set L = seen ` {r \<in> set (rows db). scope r}"
    and "distinct (map key seeds)" and "distinct (map key (rows db))" and "\<And>want. want \<in> set seeds \<Longrightarrow> good want"
    and "\<And>want r. want \<in> set seeds \<Longrightarrow> r \<in> set (rows db) \<Longrightarrow> scope r \<Longrightarrow> key r = key want \<Longrightarrow> fits want r"
  shows "distinct (map key (rows db'))" "\<And>want. want \<in> set seeds \<Longrightarrow> settled (rows db') want"
proof -
  have "ready (index_by key L) (rows db) want" if "want \<in> set seeds" for want
    using listing_current [OF assms(2,4)] assms(5,6) that by (auto simp: ready_def keyed_def)
  from loop_settles [OF assms(1,3,4) this]
  show "distinct (map key (rows db'))" "\<And>want. want \<in> set seeds \<Longrightarrow> settled (rows db') want" by auto
qed

lemma listed_quiet:
  assumes "set L = seen ` {r \<in> set (rows db). scope r}" and "distinct (map key (rows db))"
    and "\<And>want. want \<in> set seeds \<Longrightarrow> settled (rows db) want"
  shows "loop (index_by key L) seeds db' = ((0, None), db')"
  by (rule loop_quiet [where R = "rows db"]) (use listing_current [OF assms(1,2)] assms(3) in blast)

end

subsection \<open>The four tables\<close>

lemma bind_repo_Inr: "bind_repo m f db = (Inr y, db') \<longleftrightarrow> (\<exists>x db1. m db = (Inr x, db1) \<and> f x db1 = (Inr y, db'))"
  by (auto simp: bind_repo_def split: prod.splits sum.splits)

interpretation vehicles: seed_table db_vehicle_types vt_ID "\<lambda>_. False" "\<lambda>v. v" CreateVehicleType UpdateVehicleType
  "\<lambda>_. True" "\<lambda>v. v" "\<lambda>_. True" "\<lambda>_ _. True"
proof unfold_locales
  fix want db and x :: unit and db'
  assume "CreateVehicleType want db = (Inr x, db')" and "\<And>r. r \<in> set (db_vehicle_types db) \<Longrightarrow> True \<Longrightarrow> vt_ID r \<noteq> vt_ID want"
  moreover from this(2) have "vt_ID want \<notin> vt_ID ` set (db_vehicle_types db)" by fastforce
  ultimately show "vt_ID want \<notin> vt_ID ` set (db_vehicle_types db) \<and>
      (\<exists>new. db_vehicle_types db' = db_vehicle_types db @ [new] \<and> vt_ID new = vt_ID want \<and> True \<and> new = want)"
    by (auto simp: CreateVehicleType_def list_ex_iff dest!: transact_committed split: if_splits)
next
  fix want db and x :: unit and db'
  assume "UpdateVehicleType want db = (Inr x, db')"
  then have "db_vehicle_types db' = update_where (\<lambda>v. vt_ID v = vt_ID want) (\<lambda>v. want\<lparr>vt_ID := vt_ID v\<rparr>) (db_vehicle_types db)"
    by (auto simp: UpdateVehicleType_def Let_def dest!: transact_committed)
  then show "\<exists>f. db_vehicle_types db' = update_where (\<lambda>r. vt_ID r = vt_ID want) f (db_vehicle_types db) \<and>
      (\<forall>r. vt_ID r = vt_ID want \<longrightarrow> vt_ID (f r) = vt_ID r \<and> (True \<longrightarrow> True) \<and> (True \<longrightarrow> f r = want))"
    by (intro exI conjI) auto
qed simp_all

interpretation routes: seed_table db_routes rt_ID "\<lambda>r. rt_OwnerID r \<noteq> None" routeSeedView CreateRoute UpdateRoute
  "\<lambda>r. rt_ScenarioID r = Some sid" "\<lambda>r. r" "\<lambda>r. rt_ScenarioID r = Some sid" "\<lambda>_ _. True" for sid
proof unfold_locales
  fix want db and x :: unit and db'
  assume "CreateRoute want db = (Inr x, db')" and "rt_ScenarioID want = Some sid"
  then show "rt_ID want \<notin> rt_ID ` set (db_routes db) \<and>
      (\<exists>new. db_routes db' = db_routes db @ [new] \<and> rt_ID new = rt_ID want \<and> rt_ScenarioID new = Some sid \<and> routeSeedView new = routeSeedView want)"
    by (auto simp: CreateRoute_def list_ex_iff image_iff dest!: transact_committed)
next
  fix want db and x :: unit and db'
  assume "UpdateRoute want db = (Inr x, db')" and "rt_ScenarioID want = Some sid"
  then show "\<exists>f. db_routes db' = update_where (\<lambda>r. rt_ID r = rt_ID want) f (db_routes db) \<and>
      (\<forall>r. rt_ID r = rt_ID want \<longrightarrow> rt_ID (f r) = rt_ID r \<and> (rt_ScenarioID r = Some sid \<longrightarrow> rt_ScenarioID (f r) = Some sid) \<and>
        (True \<longrightarrow> routeSeedView (f r) = routeSeedView want))"
    by (intro exI [of _ "updatedRoute want"])
      (auto simp: UpdateRoute_def Let_def updatedRoute_def routeSeedView_def dest!: transact_committed)
qed simp_all

interpretation stations: seed_table db_stations st_ID "\<lambda>s. st_OwnerID s \<noteq> None" stationSeedView CreateStation UpdateStation
  "\<lambda>s. st_ScenarioID s = sid" "\<lambda>s. s" "\<lambda>s. st_ScenarioID s = sid" "\<lambda>want s. st_ScenarioID s = st_ScenarioID want" for sid
proof unfold_locales
  fix want db and x :: unit and db'
  assume "CreateStation want db = (Inr x, db')" and "st_ScenarioID want = sid"
  then show "st_ID want \<notin> st_ID ` set (db_stations db) \<and>
      (\<exists>new. db_stations db' = db_stations db @ [new] \<and> st_ID new = st_ID want \<and> st_ScenarioID new = sid \<and> stationSeedView new = stationSeedView want)"
    by (auto simp: CreateStation_def list_ex_iff image_iff dest!: transact_committed)
next
  fix want db and x :: unit and db'
  assume "UpdateStation want db = (Inr x, db')" and "st_ScenarioID want = sid"
  then show "\<exists>f. db_stations db' = update_where (\<lambda>r. st_ID r = st_ID want) f (db_stations db) \<and>
      (\<forall>r. st_ID r = st_ID want \<longrightarrow> st_ID (f r) = st_ID r \<and> (st_ScenarioID r = sid \<longrightarrow> st_ScenarioID (f r) = sid) \<and>
        (st_ScenarioID r = st_ScenarioID want \<longrightarrow> stationSeedView (f r) = stationSeedView want))"
    by (intro exI [of _ "updatedStation want"])
      (auto simp: UpdateStation_def Let_def updatedStation_def stationSeedView_def dest!: transact_committed)
qed simp_all

text \<open>
  What a seeded service must be to come back from the database as it was written: stops by
  sequence, windows by start time, and an override that survives its two columns.
\<close>

definition canonical :: "Service \<Rightarrow> bool" where
  "canonical svc \<longleftrightarrow> listServiceStops svc = svc_Stops svc \<and> listFrequencyWindows svc = svc_FrequencyWindows svc \<and>
     svc_BoardingWait (lineRow svc) = svc_BoardingWait svc"

lemma withChildren_fields [simp]: "svc_ID (withChildren s) = svc_ID s" "svc_OwnerID (withChildren s) = svc_OwnerID s"
  by (simp_all add: withChildren_def)

lemma AddServiceToScenario_tables:
  assumes "\<And>db r. f (db\<lparr>db_outages := r\<rparr>) = f db" and "\<And>db r. f (db\<lparr>db_links := r\<rparr>) = f db"
  shows "f (snd (AddServiceToScenario i j db)) = f db"
  unfolding AddServiceToScenario_def by (rule transact_table) (use assms in \<open>auto split: if_splits\<close>)

lemma AddServiceToScenario_services: "AddServiceToScenario i j db = (r, db') \<Longrightarrow> db_line_services db' = db_line_services db"
  using AddServiceToScenario_tables [of db_line_services i j db] by simp

interpretation lines: seed_table db_line_services svc_ID "\<lambda>s. svc_OwnerID s \<noteq> None" serviceSeedView createLinkedService updateLinkedService
  "\<lambda>s. svc_ScenarioID s = sid" withChildren "\<lambda>s. svc_ScenarioID s = sid \<and> canonical s"
  "\<lambda>want s. svc_ScenarioID s = svc_ScenarioID want \<and> svc_Provenance s = svc_Provenance want" for sid
proof unfold_locales
  fix want db and x :: unit and db'
  assume "createLinkedService want db = (Inr x, db')" and g: "svc_ScenarioID want = sid \<and> canonical want"
  then obtain db1 where c: "repo_CreateService want db = (Inr (), db1)" "db_line_services db' = db_line_services db1"
    by (auto simp: createLinkedService_def bind_repo_Inr dest: AddServiceToScenario_services)
  then have "svc_ID want \<notin> svc_ID ` set (db_line_services db)" "db_line_services db' = db_line_services db @ [lineRow want]"
    by (auto simp: repo_CreateService_def list_ex_iff image_iff dest!: transact_committed)
  moreover have "serviceSeedView (withChildren (lineRow want)) = serviceSeedView want" "svc_ID (lineRow want) = svc_ID want"
    "svc_ScenarioID (lineRow want) = svc_ScenarioID want"
    using g by (simp_all add: canonical_def serviceSeedView_def withChildren_def lineRow_def listServiceStops_def listFrequencyWindows_def)
  ultimately show "svc_ID want \<notin> svc_ID ` set (db_line_services db) \<and>
      (\<exists>new. db_line_services db' = db_line_services db @ [new] \<and> svc_ID new = svc_ID want \<and> svc_ScenarioID new = sid \<and>
        serviceSeedView (withChildren new) = serviceSeedView want)"
    using g by auto
next
  fix want db and x :: unit and db'
  assume "updateLinkedService want db = (Inr x, db')" and g: "svc_ScenarioID want = sid \<and> canonical want"
  then obtain db1 where c: "repo_UpdateService want db = (Inr (), db1)" "db_line_services db' = db_line_services db1"
    by (auto simp: updateLinkedService_def bind_repo_Inr dest: AddServiceToScenario_services)
  then have "db_line_services db' = update_where (\<lambda>s. svc_ID s = svc_ID want) (updatedLine want) (db_line_services db)"
    by (auto simp: repo_UpdateService_def Let_def dest!: transact_committed)
  moreover have "serviceSeedView (withChildren (updatedLine want r)) = serviceSeedView want"
    if "svc_ID r = svc_ID want" "svc_ScenarioID r = svc_ScenarioID want" "svc_Provenance r = svc_Provenance want" for r
    using g that by (simp add: canonical_def serviceSeedView_def withChildren_def updatedLine_def listServiceStops_def listFrequencyWindows_def)
  ultimately show "\<exists>f. db_line_services db' = update_where (\<lambda>r. svc_ID r = svc_ID want) f (db_line_services db) \<and>
      (\<forall>r. svc_ID r = svc_ID want \<longrightarrow> svc_ID (f r) = svc_ID r \<and> (svc_ScenarioID r = sid \<longrightarrow> svc_ScenarioID (f r) = sid) \<and>
        (svc_ScenarioID r = svc_ScenarioID want \<and> svc_Provenance r = svc_Provenance want \<longrightarrow>
          serviceSeedView (withChildren (f r)) = serviceSeedView want))"
    by (intro exI [of _ "updatedLine want"]) (auto simp: updatedLine_def)
qed simp_all

subsection \<open>What each part leaves alone\<close>

definition keeps :: "(Db \<Rightarrow> 't) \<Rightarrow> reconciling \<Rightarrow> bool" where
  "keeps f p \<longleftrightarrow> (\<forall>db. f (snd (p db)) = f db)"

named_theorems frames

lemma keeps_D: "keeps f p \<Longrightarrow> p db = (r, db') \<Longrightarrow> f db' = f db"
  by (metis keeps_def snd_conv)

lemma keeps_unchanged [frames]: "keeps f unchanged"
  by (simp add: keeps_def unchanged_def)

lemma keeps_and_then [frames]: "keeps f a \<Longrightarrow> keeps f b \<Longrightarrow> keeps f (and_then a b)"
  by (auto simp: keeps_def and_then_def split: prod.split option.split) (metis snd_conv)+

lemma keeps_listing [frames]: "(\<And>db. f (snd (q db)) = f db) \<Longrightarrow> (\<And>x. keeps f (k x)) \<Longrightarrow> keeps f (listing q k)"
  by (auto simp: keeps_def listing_def split: prod.split sum.split) (metis snd_conv)+

lemma keeps_wrote [frames]: "(\<And>db. f (snd (m db)) = f db) \<Longrightarrow> keeps f (wrote m)"
  by (auto simp: keeps_def wrote_def split: prod.split sum.split) (metis snd_conv)+

lemma keeps_loop [frames]:
  assumes "\<And>w db. f (snd (create w db)) = f db" and "\<And>w db. f (snd (update w db)) = f db"
  shows "keeps f (reconcileLoop byID key owned view create update seeds)"
proof -
  have c: "f db' = f db" if "create w db = (r, db')" for w db r db' using assms(1) [of w db] that by simp
  have p: "f db' = f db" if "update w db = (r, db')" for w db r db' using assms(2) [of w db] that by simp
  have "f (snd (reconcileLoop byID key owned view create update seeds db)) = f db" for db
  proof (induction seeds arbitrary: db)
    case (Cons want rest)
    have "f db'' = f db'" if "reconcileLoop byID key owned view create update rest db' = (r, db'')" for r db' db''
      using Cons.IH [of db'] that by simp
    note IH = this
    show ?case
    proof (cases "byID (key want)")
      case None
      then show ?thesis using c IH by (auto split: prod.split sum.split)
    next
      case (Some got)
      then show ?thesis using p IH Cons.IH by (auto split: prod.split sum.split)
    qed
  qed simp
  then show ?thesis by (simp add: keeps_def)
qed

lemma select_table: "(\<And>db r. f (db\<lparr>db_outages := r\<rparr>) = f db) \<Longrightarrow> f (snd (select op q db)) = f db"
  unfolding select_def by (rule transact_table) auto

lemma writes_only:
  assumes "\<And>db r. f (db\<lparr>db_outages := r\<rparr>) = f db"
  shows "(\<And>db r. f (db\<lparr>db_curated := r\<rparr>) = f db) \<Longrightarrow> f (snd (UpdateScenario sc db)) = f db"
    and "(\<And>db r. f (db\<lparr>db_vehicle_types := r\<rparr>) = f db) \<Longrightarrow> f (snd (CreateVehicleType vt db)) = f db"
    and "(\<And>db r. f (db\<lparr>db_vehicle_types := r\<rparr>) = f db) \<Longrightarrow> f (snd (UpdateVehicleType vt db)) = f db"
    and "(\<And>db r. f (db\<lparr>db_routes := r\<rparr>) = f db) \<Longrightarrow> f (snd (CreateRoute rt db)) = f db"
    and "(\<And>db r. f (db\<lparr>db_routes := r\<rparr>) = f db) \<Longrightarrow> f (snd (UpdateRoute rt db)) = f db"
    and "(\<And>db r. f (db\<lparr>db_stations := r\<rparr>) = f db) \<Longrightarrow> f (snd (CreateStation st db)) = f db"
    and "(\<And>db r. f (db\<lparr>db_stations := r\<rparr>) = f db) \<Longrightarrow> f (snd (UpdateStation st db)) = f db"
    and "(\<And>db r. f (db\<lparr>db_line_services := r\<rparr>) = f db) \<Longrightarrow> f (snd (repo_CreateService svc db)) = f db"
    and "(\<And>db r. f (db\<lparr>db_line_services := r\<rparr>) = f db) \<Longrightarrow> f (snd (repo_UpdateService svc db)) = f db"
    and "(\<And>db a b. f (db\<lparr>db_time_sets := a, db_segments := b\<rparr>) = f db) \<Longrightarrow> f (snd (UpsertTravelTimes tt db)) = f db"
  unfolding UpdateScenario_def CreateVehicleType_def UpdateVehicleType_def CreateRoute_def UpdateRoute_def CreateStation_def
    UpdateStation_def repo_CreateService_def repo_UpdateService_def UpsertTravelTimes_def Let_def
  by (rule transact_table; use assms in \<open>auto split: if_splits option.splits\<close>)+

lemma bind_repo_table:
  assumes "\<And>db. f (snd (m db)) = f db" and "\<And>x db. f (snd (k x db)) = f db"
  shows "f (snd (bind_repo m k db)) = f db"
  using assms(1) [of db] assms(2) by (auto simp: bind_repo_def split: prod.split sum.split)

lemma linked_writes_only:
  assumes "\<And>db r. f (db\<lparr>db_outages := r\<rparr>) = f db" "\<And>db r. f (db\<lparr>db_line_services := r\<rparr>) = f db" "\<And>db r. f (db\<lparr>db_links := r\<rparr>) = f db"
  shows "f (snd (createLinkedService svc db)) = f db" "f (snd (updateLinkedService svc db)) = f db"
  unfolding createLinkedService_def updateLinkedService_def
  by (rule bind_repo_table; simp add: assms writes_only AddServiceToScenario_tables)+

text \<open>The six parts of \<open>reconcileStored\<close>.\<close>

definition scenario_part :: "embeddedScenario \<Rightarrow> Scenario \<Rightarrow> reconciling" where
  "scenario_part seed c =
     (if sameSeedContent (scenarioSeedView c) (scenarioSeedView (em_scenario seed)) then unchanged
      else wrote (UpdateScenario (em_scenario seed)))"

abbreviation "routes_part seed sid \<equiv> listing (ListRoutesByScenario sid) (reconcileRoutes (em_routes seed))"
abbreviation "stations_part seed sid \<equiv> listing (ListStationsByScenario sid) (reconcileStations (em_stations seed))"
abbreviation "services_part seed sid \<equiv> listing (ListServicesByScenario sid) (reconcileServices (em_services seed))"

lemma vehicles_part: "reconcileVehicleTypes seeds = listing ListVehicleTypes (\<lambda>L.
    reconcileLoop (index_by vt_ID L) vt_ID (\<lambda>_. False) (\<lambda>v. v) CreateVehicleType UpdateVehicleType seeds)"
  by (rule ext) (simp add: reconcileVehicleTypes_def listing_def)

lemma part_frames:
  assumes "\<And>db r. f (db\<lparr>db_outages := r\<rparr>) = f db"
  shows "(\<And>db r. f (db\<lparr>db_curated := r\<rparr>) = f db) \<Longrightarrow> keeps f (scenario_part seed c)"
    and "(\<And>db r. f (db\<lparr>db_vehicle_types := r\<rparr>) = f db) \<Longrightarrow> keeps f (reconcileVehicleTypes vts)"
    and "(\<And>db r. f (db\<lparr>db_routes := r\<rparr>) = f db) \<Longrightarrow> keeps f (routes_part seed sid)"
    and "(\<And>db r. f (db\<lparr>db_stations := r\<rparr>) = f db) \<Longrightarrow> keeps f (stations_part seed sid)"
    and "(\<And>db r. f (db\<lparr>db_line_services := r\<rparr>) = f db) \<Longrightarrow> (\<And>db r. f (db\<lparr>db_links := r\<rparr>) = f db) \<Longrightarrow> keeps f (services_part seed sid)"
    and "(\<And>db a b. f (db\<lparr>db_time_sets := a, db_segments := b\<rparr>) = f db) \<Longrightarrow> keeps f (reconcileTravelTimes tt)"
  unfolding scenario_part_def vehicles_part reconcileRoutes_def reconcileStations_def reconcileServices_def reconcileTravelTimes_def
    ListVehicleTypes_def ListRoutesByScenario_def ListStationsByScenario_def ListServicesByScenario_def listServicesBy_def GetTravelTimes_def
  by (simp_all add: assms frames writes_only linked_writes_only select_table split: option.split)

lemma and_then_None:
  assumes "and_then a b db = ((n, None), db')"
  obtains n1 db1 n2 where "a db = ((n1, None), db1)" "b db1 = ((n2, None), db')"
  using assms by (auto simp: and_then_def split: prod.splits option.splits)

lemma listing_select:
  assumes "listing (select op q) k db = ((n, None), db')"
  obtains rest where "k (q (db\<lparr>db_outages := rest\<rparr>)) (db\<lparr>db_outages := rest\<rparr>) = ((n, None), db')"
proof -
  obtain r db1 where s: "select op q db = (r, db1)" by fastforce
  from s show thesis
  proof (cases rule: select_cases)
    case (failed e rest)
    then show thesis using assms s by (simp add: listing_def)
  next
    case (found rest)
    then show thesis using assms s by (intro that [of rest]) (simp add: listing_def)
  qed
qed

lemma listing_calm: "db_outages db = [] \<Longrightarrow> listing (select op q) k db = k (q db) db"
  by (simp add: listing_def select_calm)

text \<open>What the embedded data and the tables must satisfy: keys are unique, the rows of a seed
  name its scenario, its services come back as they are written.\<close>

definition wf_seed :: "embeddedScenario \<Rightarrow> bool" where
  "wf_seed seed \<longleftrightarrow>
     distinct (map vt_ID (em_vehicleTypes seed)) \<and> distinct (map rt_ID (em_routes seed)) \<and>
     distinct (map st_ID (em_stations seed)) \<and> distinct (map svc_ID (em_services seed)) \<and>
     list_all (\<lambda>r. rt_ScenarioID r = Some (sc_ID (em_scenario seed))) (em_routes seed) \<and>
     list_all (\<lambda>s. st_ScenarioID s = sc_ID (em_scenario seed)) (em_stations seed) \<and>
     list_all (\<lambda>s. svc_ScenarioID s = sc_ID (em_scenario seed) \<and> canonical s) (em_services seed) \<and>
     tt_ScenarioSlug (em_travelTimes seed) = sc_Slug (em_scenario seed)"

definition keys_ok :: "Db \<Rightarrow> bool" where
  "keys_ok db \<longleftrightarrow> distinct (map vt_ID (db_vehicle_types db)) \<and> distinct (map rt_ID (db_routes db)) \<and>
     distinct (map st_ID (db_stations db)) \<and> distinct (map svc_ID (db_line_services db))"

text \<open>Each part settles its table.\<close>

lemma vehicles_settle:
  assumes "reconcileVehicleTypes seeds db = ((n, None), db')" and "distinct (map vt_ID seeds)" and "distinct (map vt_ID (db_vehicle_types db))"
  shows "distinct (map vt_ID (db_vehicle_types db'))" "want \<in> set seeds \<Longrightarrow> vehicles.settled (db_vehicle_types db') want"
proof -
  let ?L = "SliceStable (less_by vt_ID) (db_vehicle_types db)"
  obtain rest where run: "reconcileLoop (index_by vt_ID ?L) vt_ID (\<lambda>_. False) (\<lambda>v. v) CreateVehicleType UpdateVehicleType seeds
      (db\<lparr>db_outages := rest\<rparr>) = ((n, None), db')"
    by (rule listing_select [OF assms(1) [unfolded vehicles_part ListVehicleTypes_def]]) simp
  have L: "set ?L = set (db_vehicle_types db)" by simp
  show "distinct (map vt_ID (db_vehicle_types db'))" "want \<in> set seeds \<Longrightarrow> vehicles.settled (db_vehicle_types db') want"
    using vehicles.listed_settles [OF run] L assms(2,3) by simp_all
qed

lemma routes_settle:
  assumes "routes_part seed sid db = ((n, None), db')" and "wf_seed seed" and "sid = sc_ID (em_scenario seed)" and "distinct (map rt_ID (db_routes db))"
  shows "distinct (map rt_ID (db_routes db'))" "want \<in> set (em_routes seed) \<Longrightarrow> routes.settled sid (db_routes db') want"
proof -
  let ?L = "SliceStable (less_by rt_ID) (filter (\<lambda>r. rt_ScenarioID r = Some sid) (db_routes db))"
  obtain rest where run: "reconcileLoop (index_by rt_ID ?L) rt_ID (\<lambda>r. rt_OwnerID r \<noteq> None) routeSeedView CreateRoute UpdateRoute
      (em_routes seed) (db\<lparr>db_outages := rest\<rparr>) = ((n, None), db')"
    by (rule listing_select [OF assms(1) [unfolded ListRoutesByScenario_def reconcileRoutes_def]]) simp
  have L: "set ?L = {r \<in> set (db_routes db). rt_ScenarioID r = Some sid}" by simp
  show "distinct (map rt_ID (db_routes db'))" "want \<in> set (em_routes seed) \<Longrightarrow> routes.settled sid (db_routes db') want"
    using routes.listed_settles [OF run, of sid] L assms(2-4) by (simp_all add: wf_seed_def list_all_iff)
qed

lemma stations_settle:
  assumes "stations_part seed sid db = ((n, None), db')" and "wf_seed seed" and "sid = sc_ID (em_scenario seed)" and "distinct (map st_ID (db_stations db))"
  shows "distinct (map st_ID (db_stations db'))" "want \<in> set (em_stations seed) \<Longrightarrow> stations.settled sid (db_stations db') want"
proof -
  let ?L = "SliceStable (less_by st_Slug) (filter (\<lambda>s. st_ScenarioID s = sid) (db_stations db))"
  obtain rest where run: "reconcileLoop (index_by st_ID ?L) st_ID (\<lambda>s. st_OwnerID s \<noteq> None) stationSeedView CreateStation UpdateStation
      (em_stations seed) (db\<lparr>db_outages := rest\<rparr>) = ((n, None), db')"
    by (rule listing_select [OF assms(1) [unfolded ListStationsByScenario_def reconcileStations_def]]) simp
  have L: "set ?L = {s \<in> set (db_stations db). st_ScenarioID s = sid}" by simp
  show "distinct (map st_ID (db_stations db'))" "want \<in> set (em_stations seed) \<Longrightarrow> stations.settled sid (db_stations db') want"
    using stations.listed_settles [OF run, of sid] L assms(2-4) by (simp_all add: wf_seed_def list_all_iff)
qed

lemma services_settle:
  assumes "services_part seed sid db = ((n, None), db')" and "wf_seed seed" and "sid = sc_ID (em_scenario seed)" and "distinct (map svc_ID (db_line_services db))"
    and "\<And>want s. want \<in> set (em_services seed) \<Longrightarrow> s \<in> set (db_line_services db) \<Longrightarrow> svc_ID s = svc_ID want \<Longrightarrow> svc_Provenance s = svc_Provenance want"
  shows "distinct (map svc_ID (db_line_services db'))" "want \<in> set (em_services seed) \<Longrightarrow> lines.settled sid (db_line_services db') want"
proof -
  let ?L = "map withChildren (SliceStable (less_by svc_ID) (filter (\<lambda>s. svc_ScenarioID s = sid) (db_line_services db)))"
  obtain rest where run: "reconcileLoop (index_by svc_ID ?L) svc_ID (\<lambda>s. svc_OwnerID s \<noteq> None) serviceSeedView createLinkedService
      updateLinkedService (em_services seed) (db\<lparr>db_outages := rest\<rparr>) = ((n, None), db')"
    by (rule listing_select [OF assms(1) [unfolded ListServicesByScenario_def listServicesBy_def reconcileServices_def]]) simp
  have L: "set ?L = withChildren ` {s \<in> set (db_line_services db). svc_ScenarioID s = sid}" by simp
  show "distinct (map svc_ID (db_line_services db'))" "want \<in> set (em_services seed) \<Longrightarrow> lines.settled sid (db_line_services db') want"
    using lines.listed_settles [OF run, of sid] L assms(2-5) by (simp_all add: wf_seed_def list_all_iff)
qed

lemma wrote_None: "wrote m db = ((n, None), db') \<Longrightarrow> m db = (Inr (), db')"
  by (auto simp: wrote_def split: prod.splits sum.splits)

lemma scenario_settles:
  assumes "scenario_part seed c db = ((n, None), db')" and "List.find (\<lambda>c. sc_Slug c = slug) (db_curated db) = Some c"
    and "sc_OwnerID c = None" and "sc_ID c = sc_ID (em_scenario seed)" and "slug = sc_Slug (em_scenario seed)"
  shows "List.find (\<lambda>c. sc_Slug c = slug) (db_curated db') = Some (scenarioSeedView (em_scenario seed))"
proof (cases "sameSeedContent (scenarioSeedView c) (scenarioSeedView (em_scenario seed))")
  case True
  moreover have "scenarioSeedView c = c" using assms(3) by (simp add: scenarioSeedView_def)
  ultimately show ?thesis using assms(1,2) by (simp add: scenario_part_def unchanged_def sameSeedContent_def)
next
  case False
  let ?seed = "em_scenario seed"
  let ?u = "\<lambda>c. if sc_ID c = sc_ID ?seed then c\<lparr>sc_Name := sc_Name ?seed, sc_Subtext := sc_Subtext ?seed, sc_Description := sc_Description ?seed\<rparr> else c"
  from False assms(1) have "UpdateScenario ?seed db = (Inr (), db')" by (simp add: scenario_part_def wrote_None)
  then have "db_curated db' = map ?u (db_curated db)"
    by (auto simp: UpdateScenario_def Let_def update_where_def dest!: transact_committed)
  then have "List.find (\<lambda>c. sc_Slug c = slug) (db_curated db') = Some (?u c)"
    using find_map_same [of "\<lambda>c. sc_Slug c = slug" ?u "db_curated db"] assms(2) by simp
  moreover have "?u c = scenarioSeedView ?seed"
    using assms(3-5) find_SomeD [OF assms(2)] by (simp add: scenarioSeedView_def)
  ultimately show ?thesis by simp
qed

abbreviation stored_times :: "string \<Rightarrow> Db \<Rightarrow> TravelTimes option" where
  "stored_times slug db \<equiv>
     (case List.find (\<lambda>c. sc_Slug c = slug) (db_curated db) of
       None \<Rightarrow> None
     | Some sc \<Rightarrow>
         (case List.find (\<lambda>t. ts_scenario t = sc_ID sc) (db_time_sets db) of
            None \<Rightarrow> None
          | Some t \<Rightarrow>
              Some \<lparr>tt_ScenarioSlug = slug, tt_Provenance = ts_provenance t, tt_Source = ts_source t,
                tt_Segments = map sw_segment (filter (\<lambda>g. sw_scenario g = sc_ID sc) (db_segments db))\<rparr>))"

lemma UpsertTravelTimes_stores:
  assumes "UpsertTravelTimes tt db = (Inr (), db')"
  shows "stored_times (tt_ScenarioSlug tt) db' = Some tt"
proof -
  from assms obtain sc where sc: "List.find (\<lambda>c. sc_Slug c = tt_ScenarioSlug tt) (db_curated db) = Some sc"
    and db': "db_curated db' = db_curated db"
      "db_time_sets db' = (let row = \<lparr>ts_scenario = sc_ID sc, ts_provenance = tt_Provenance tt, ts_source = tt_Source tt\<rparr>;
         hit = (\<lambda>t. ts_scenario t = sc_ID sc) in
         if list_ex hit (db_time_sets db) then update_where hit (\<lambda>_. row) (db_time_sets db) else db_time_sets db @ [row])"
      "db_segments db' = delete_where (\<lambda>g. sw_scenario g = sc_ID sc) (db_segments db) @
         map (\<lambda>g. \<lparr>sw_scenario = sc_ID sc, sw_segment = g\<rparr>) (tt_Segments tt)"
    unfolding UpsertTravelTimes_def by (auto simp: Let_def dest!: transact_committed split: option.splits)
  let ?row = "\<lparr>ts_scenario = sc_ID sc, ts_provenance = tt_Provenance tt, ts_source = tt_Source tt\<rparr>"
  have "List.find (\<lambda>t. ts_scenario t = sc_ID sc) (db_time_sets db') = Some ?row"
  proof (cases "list_ex (\<lambda>t. ts_scenario t = sc_ID sc) (db_time_sets db)")
    case True
    then obtain t where "List.find (\<lambda>t. ts_scenario t = sc_ID sc) (db_time_sets db) = Some t"
      by (cases "List.find (\<lambda>t. ts_scenario t = sc_ID sc) (db_time_sets db)") (auto simp: find_None_iff list_ex_iff)
    with True find_SomeD [OF this] show ?thesis
      by (simp add: db'(2) Let_def update_where_def) (subst find_map_same; simp)
  next
    case False
    then have "List.find (\<lambda>t. ts_scenario t = sc_ID sc) (db_time_sets db) = None" by (auto simp: find_None_iff list_ex_iff)
    with False show ?thesis by (simp add: db'(2) Let_def find_append_None)
  qed
  moreover have "filter (\<lambda>g. sw_scenario g = sc_ID sc) (db_segments db') = map (\<lambda>g. \<lparr>sw_scenario = sc_ID sc, sw_segment = g\<rparr>) (tt_Segments tt)"
    by (simp add: db'(3) delete_where_def comp_def)
  ultimately show ?thesis using sc by (simp add: db'(1) comp_def)
qed

lemma travel_times_settle:
  assumes "reconcileTravelTimes tt db = ((n, None), db')"
  shows "stored_times (tt_ScenarioSlug tt) db' = Some tt"
proof -
  obtain rest where run: "(case stored_times (tt_ScenarioSlug tt) (db\<lparr>db_outages := rest\<rparr>) of
       None \<Rightarrow> wrote (UpsertTravelTimes tt)
     | Some c \<Rightarrow> if sameSeedContent (travelTimesSeedView c) (travelTimesSeedView tt) then unchanged else wrote (UpsertTravelTimes tt))
     (db\<lparr>db_outages := rest\<rparr>) = ((n, None), db')"
    by (rule listing_select [OF assms [unfolded reconcileTravelTimes_def GetTravelTimes_def]])
  have same: "stored_times (tt_ScenarioSlug tt) (db\<lparr>db_outages := rest\<rparr>) = stored_times (tt_ScenarioSlug tt) db"
    by (simp split: option.split)
  note run = run [unfolded same]
  show ?thesis
  proof (cases "stored_times (tt_ScenarioSlug tt) db = Some tt")
    case True
    with run have "db' = db\<lparr>db_outages := rest\<rparr>" by (simp add: sameSeedContent_def travelTimesSeedView_def unchanged_def)
    with True same show ?thesis by (simp only:)
  next
    case False
    with run have "wrote (UpsertTravelTimes tt) (db\<lparr>db_outages := rest\<rparr>) = ((n, None), db')"
      by (cases "stored_times (tt_ScenarioSlug tt) db") (simp_all add: sameSeedContent_def travelTimesSeedView_def)
    then show ?thesis by (intro UpsertTravelTimes_stores) (rule wrote_None)
  qed
qed

subsection \<open>Reconciliation converges\<close>

text \<open>A database in which nothing is left to do for the seed.\<close>

definition reconciled :: "embeddedScenario \<Rightarrow> Db \<Rightarrow> bool" where
  "reconciled seed db \<longleftrightarrow> (let sid = sc_ID (em_scenario seed) in
     keys_ok db \<and>
     List.find (\<lambda>c. sc_Slug c = sc_Slug (em_scenario seed)) (db_curated db) = Some (scenarioSeedView (em_scenario seed)) \<and>
     list_all (vehicles.settled (db_vehicle_types db)) (em_vehicleTypes seed) \<and>
     list_all (routes.settled sid (db_routes db)) (em_routes seed) \<and>
     list_all (stations.settled sid (db_stations db)) (em_stations seed) \<and>
     list_all (lines.settled sid (db_line_services db)) (em_services seed) \<and>
     stored_times (tt_ScenarioSlug (em_travelTimes seed)) db = Some (em_travelTimes seed))"

lemma reconcileStored_settles:
  assumes "reconcileStored seed c db = ((n, None), db')" and wf: "wf_seed seed" and keys: "keys_ok db"
    and c: "List.find (\<lambda>c. sc_Slug c = sc_Slug (em_scenario seed)) (db_curated db) = Some c" "sc_OwnerID c = None" "sc_ID c = sc_ID (em_scenario seed)"
    and prov: "\<And>want s. want \<in> set (em_services seed) \<Longrightarrow> s \<in> set (db_line_services db) \<Longrightarrow> svc_ID s = svc_ID want \<Longrightarrow>
      svc_Provenance s = svc_Provenance want"
  shows "reconciled seed db'"
proof -
  let ?sid = "sc_ID (em_scenario seed)"
  from assms(1) [unfolded reconcileStored_def scenario_part_def [symmetric] c(3)]
  obtain n1 db1 n2 db2 n3 db3 n4 db4 n5 db5 n6 where
    p1: "scenario_part seed c db = ((n1, None), db1)" and p2: "reconcileVehicleTypes (em_vehicleTypes seed) db1 = ((n2, None), db2)"
    and p3: "routes_part seed ?sid db2 = ((n3, None), db3)" and p4: "stations_part seed ?sid db3 = ((n4, None), db4)"
    and p5: "services_part seed ?sid db4 = ((n5, None), db5)" and p6: "reconcileTravelTimes (em_travelTimes seed) db5 = ((n6, None), db')"
    by (elim and_then_None) blast
  have t1: "db_vehicle_types db1 = db_vehicle_types db" "db_routes db1 = db_routes db" "db_stations db1 = db_stations db"
    "db_line_services db1 = db_line_services db"
    by (rule keeps_D [OF part_frames(1) p1]; simp)+
  have t2: "db_curated db2 = db_curated db1" "db_routes db2 = db_routes db1" "db_stations db2 = db_stations db1"
    "db_line_services db2 = db_line_services db1"
    by (rule keeps_D [OF part_frames(2) p2]; simp)+
  have t3: "db_curated db3 = db_curated db2" "db_vehicle_types db3 = db_vehicle_types db2" "db_stations db3 = db_stations db2"
    "db_line_services db3 = db_line_services db2"
    by (rule keeps_D [OF part_frames(3) p3]; simp)+
  have t4: "db_curated db4 = db_curated db3" "db_vehicle_types db4 = db_vehicle_types db3" "db_routes db4 = db_routes db3"
    "db_line_services db4 = db_line_services db3"
    by (rule keeps_D [OF part_frames(4) p4]; simp)+
  have t5: "db_curated db5 = db_curated db4" "db_vehicle_types db5 = db_vehicle_types db4" "db_routes db5 = db_routes db4"
    "db_stations db5 = db_stations db4"
    by (rule keeps_D [OF part_frames(5) p5]; simp)+
  have t6: "db_curated db' = db_curated db5" "db_vehicle_types db' = db_vehicle_types db5" "db_routes db' = db_routes db5"
    "db_stations db' = db_stations db5" "db_line_services db' = db_line_services db5"
    by (rule keeps_D [OF part_frames(6) p6]; simp)+
  note tables = t1 t2 t3 t4 t5 t6
  have d: "distinct (map vt_ID (db_vehicle_types db1))" "distinct (map rt_ID (db_routes db2))" "distinct (map st_ID (db_stations db3))"
    "distinct (map svc_ID (db_line_services db4))" using keys by (simp_all add: keys_ok_def tables)
  have dv: "distinct (map vt_ID (em_vehicleTypes seed))" using wf by (simp add: wf_seed_def)
  have pv: "svc_Provenance s = svc_Provenance want"
    if "want \<in> set (em_services seed)" "s \<in> set (db_line_services db4)" "svc_ID s = svc_ID want" for want s
    using prov that by (simp add: tables)
  note S = scenario_settles [OF p1 c refl] vehicles_settle [OF p2 dv d(1)] routes_settle [OF p3 wf refl d(2)]
    stations_settle [OF p4 wf refl d(3)] travel_times_settle [OF p6]
  have S5: "distinct (map svc_ID (db_line_services db5))"
    "\<And>w. w \<in> set (em_services seed) \<Longrightarrow> lines.settled ?sid (db_line_services db5) w"
    using services_settle [OF p5 wf refl d(4)] pv by blast+
  show ?thesis
    unfolding reconciled_def Let_def keys_ok_def list_all_iff
  proof (intro conjI ballI)
    show "stored_times (tt_ScenarioSlug (em_travelTimes seed)) db' = Some (em_travelTimes seed)" by (rule S)
  qed (simp_all only: tables S S5)
qed

lemma reconciled_quiet:
  assumes "reconciled seed db" and "db_outages db = []"
  shows "reconcileEmbeddedScenario seed db = ((0, None), db)"
proof -
  let ?sid = "sc_ID (em_scenario seed)"
  have R: "keys_ok db" "List.find (\<lambda>c. sc_Slug c = sc_Slug (em_scenario seed)) (db_curated db) = Some (scenarioSeedView (em_scenario seed))"
    "\<And>w. w \<in> set (em_vehicleTypes seed) \<Longrightarrow> vehicles.settled (db_vehicle_types db) w"
    "\<And>w. w \<in> set (em_routes seed) \<Longrightarrow> routes.settled ?sid (db_routes db) w"
    "\<And>w. w \<in> set (em_stations seed) \<Longrightarrow> stations.settled ?sid (db_stations db) w"
    "\<And>w. w \<in> set (em_services seed) \<Longrightarrow> lines.settled ?sid (db_line_services db) w"
    "stored_times (tt_ScenarioSlug (em_travelTimes seed)) db = Some (em_travelTimes seed)"
    using assms(1) by (simp_all add: reconciled_def Let_def list_all_iff)
  have part: "and_then p q db = q db" if "p db = ((0, None), db)" for p q
    using that by (simp add: and_then_def split: prod.split)
  have "reconcileVehicleTypes (em_vehicleTypes seed) db = ((0, None), db)"
    unfolding vehicles_part ListVehicleTypes_def listing_calm [OF assms(2)]
    by (rule vehicles.listed_quiet [where db = db]) (use R in \<open>simp_all add: keys_ok_def\<close>)
  moreover have "routes_part seed ?sid db = ((0, None), db)"
    unfolding ListRoutesByScenario_def reconcileRoutes_def listing_calm [OF assms(2)]
    by (rule routes.listed_quiet [where db = db]) (use R in \<open>simp_all add: keys_ok_def\<close>)
  moreover have "stations_part seed ?sid db = ((0, None), db)"
    unfolding ListStationsByScenario_def reconcileStations_def listing_calm [OF assms(2)]
    by (rule stations.listed_quiet [where db = db]) (use R in \<open>simp_all add: keys_ok_def\<close>)
  moreover have "services_part seed ?sid db = ((0, None), db)"
    unfolding ListServicesByScenario_def listServicesBy_def reconcileServices_def listing_calm [OF assms(2)]
    by (rule lines.listed_quiet [where db = db]) (use R in \<open>simp_all add: keys_ok_def\<close>)
  moreover have "reconcileTravelTimes (em_travelTimes seed) db = ((0, None), db)"
    unfolding reconcileTravelTimes_def GetTravelTimes_def listing_calm [OF assms(2)] R(7)
    by (simp add: sameSeedContent_def unchanged_def)
  moreover have "sc_ID (scenarioSeedView x) = sc_ID x" "scenarioSeedView (scenarioSeedView x) = scenarioSeedView x"
    "sc_OwnerID (scenarioSeedView x) = None" for x by (simp_all add: scenarioSeedView_def)
  ultimately show ?thesis
    unfolding reconcileEmbeddedScenario_def GetScenarioBySlug_def listing_calm [OF assms(2)] R(2)
    by (simp add: reconcileStored_def part sameSeedContent_def unchanged_def)
qed


subsection \<open>A concrete seed\<close>

definition sampleLineService :: "string \<Rightarrow> string \<Rightarrow> Service" where
  "sampleLineService name provenance =
     \<lparr>svc_ID = ''s'', svc_ScenarioID = ''c'', svc_RouteID = ''r'', svc_VehicleTypeID = ''v'', svc_Name = name,
      svc_Direction = [], svc_Active = True, svc_Provenance = provenance, svc_OwnerID = None,
      svc_Stops = [\<lparr>ss_StationID = ''a'', ss_Sequence = 1, ss_DwellS = None\<rparr>], svc_FrequencyWindows = [],
      svc_BoardingWait = None, svc_BoardingWaitPolicy = [], svc_BoardingWaitSecs = 0, svc_BoardingWaitSource = []\<rparr>"

definition sampleSeed :: "string \<Rightarrow> string \<Rightarrow> embeddedScenario" where
  "sampleSeed name provenance =
     \<lparr>em_scenario = \<lparr>sc_ID = ''c'', sc_Slug = ''hsr'', sc_Name = ''HSR'', sc_Subtext = [], sc_Description = [], sc_OwnerID = None\<rparr>,
      em_vehicleTypes = [\<lparr>vt_ID = ''v'', vt_Name = [], vt_Propulsion = [], vt_MaxSpeedKMH = 300, vt_AccelerationMS2 = 1,
        vt_DecelerationMS2 = 1, vt_FloorHeight = [], vt_DwellLevelS = 30, vt_DwellStepS = 60\<rparr>],
      em_routes = [\<lparr>rt_ID = ''r'', rt_ScenarioID = Some ''c'', rt_OwnerID = None, rt_Slug = ''r'', rt_Name = [], rt_Description = [],
        rt_Mode = ''rail'', rt_Geometry = \<lparr>gl_Type = ''LineString'', gl_Coordinates = [[0, 0], [2, 0]]\<rparr>, rt_Bidirectional = True,
        rt_Segments = []\<rparr>],
      em_stations = [\<lparr>st_ID = ''a'', st_ScenarioID = ''c'', st_OwnerID = None, st_Slug = ''a'', st_Name = ''A'',
        st_Location = \<lparr>gp_Type = ''Point'', gp_Coordinates = [0, 0]\<rparr>, st_RoutingLocation = None, st_PlatformHeight = []\<rparr>],
      em_services = [sampleLineService name provenance],
      em_travelTimes = \<lparr>tt_ScenarioSlug = ''hsr'', tt_Provenance = [], tt_Source = [], tt_Segments = []\<rparr>\<rparr>"

definition seededDb :: "string \<Rightarrow> string \<Rightarrow> Db" where
  "seededDb name provenance = (let seed = sampleSeed name provenance in
     \<lparr>db_users = [], db_sessions = [], db_routes = em_routes seed, db_services = [], db_windows = [], db_scenarios = [], db_members = [],
      db_handovers = [], db_jobs = [], db_publications = [], db_curated = [em_scenario seed], db_stations = em_stations seed,
      db_vehicle_types = em_vehicleTypes seed, db_line_services = em_services seed, db_links = [(''c'', ''s'')],
      db_time_sets = [\<lparr>ts_scenario = ''c'', ts_provenance = [], ts_source = []\<rparr>], db_segments = [], db_now = 0, db_outages = []\<rparr>)"

lemmas reconcile_defs = reconcileEmbeddedScenario_def reconcileStored_def listing_def and_then_def unchanged_def sameSeedContent_def
  GetScenarioBySlug_def select_def transact_def reconcileVehicleTypes_def ListVehicleTypes_def ListRoutesByScenario_def reconcileRoutes_def
  ListStationsByScenario_def reconcileStations_def ListServicesByScenario_def listServicesBy_def reconcileServices_def
  reconcileTravelTimes_def GetTravelTimes_def travelTimesSeedView_def updateLinkedService_def bind_repo_def repo_UpdateService_def
  AddServiceToScenario_def line_refs_ok_def insertServiceChildren_def require_def update_where_def updatedLine_def lineRow_def
  boardingWaitArgs_def scanBoardingWait_def withChildren_def listServiceStops_def listFrequencyWindows_def index_by_def int4_def
  serviceSeedView_def

lemma seededDb_reseeded:
  "fst (writeEmbeddedScenario (sampleSeed n p) ((seededDb n p)\<lparr>db_routes := [], db_curated := [], db_stations := [], db_vehicle_types := [],
     db_line_services := [], db_links := [], db_time_sets := []\<rparr>)) = Inr () \<and>
   snd (writeEmbeddedScenario (sampleSeed n p) ((seededDb n p)\<lparr>db_routes := [], db_curated := [], db_stations := [], db_vehicle_types := [],
     db_line_services := [], db_links := [], db_time_sets := []\<rparr>)) = seededDb n p"
  by (simp add: writeEmbeddedScenario_def bind_repo_def seededDb_def sampleSeed_def sampleLineService_def Let_def CreateScenario_def
      CreateVehicleType_def CreateRoute_def CreateStation_def createLinkedService_def repo_CreateService_def UpsertTravelTimes_def
      AddServiceToScenario_def transact_def require_def vehicle_ints_ok_def route_refs_ok_def line_refs_ok_def insertServiceChildren_def
      lineRow_def boardingWaitArgs_def scanBoardingWait_def int4_def delete_where_def)

lemma sample_renamed:
  "reconcileEmbeddedScenario (sampleSeed ''New'' ''computed'') (seededDb ''Old'' ''computed'') = ((1, None), seededDb ''New'' ''computed'')"
  by (simp add: reconcile_defs seededDb_def sampleSeed_def sampleLineService_def Let_def)


text \<open>
  C36: A seed whose only change is a service's provenance never converges: \<open>UpdateService\<close> does not
  write the column, so every boot finds the row different, rewrites it and leaves the database
  exactly as it was, with the old provenance.
\<close>

theorem reconcile_provenance_stuck:
  "reconcileEmbeddedScenario (sampleSeed name ''calibrated'') (seededDb name ''computed'') = ((1, None), seededDb name ''computed'') \<and>
   ReconcileSeed [sampleSeed name ''calibrated''] (seededDb name ''computed'') = ((1, None), seededDb name ''computed'') \<and>
   map svc_Provenance (db_line_services (seededDb name ''computed'')) = [''computed'']"
proof (intro conjI)
  show run: "reconcileEmbeddedScenario (sampleSeed name ''calibrated'') (seededDb name ''computed'') = ((1, None), seededDb name ''computed'')"
    by (simp add: reconcile_defs seededDb_def sampleSeed_def sampleLineService_def Let_def)
  then show "ReconcileSeed [sampleSeed name ''calibrated''] (seededDb name ''computed'') = ((1, None), seededDb name ''computed'')"
    by (simp add: and_then_def unchanged_def)
qed (simp add: seededDb_def sampleSeed_def sampleLineService_def Let_def)

end
