(* ===== verification/Job_Store.thy ===== *)
theory Job_Store
  imports Handover Seed_Store
begin

text \<open>
  The table of compile jobs (\<open>internal/persistence/postgres/postgres.go\<close>) and the rules that say
  whether a compiled graph still matches its source (\<open>internal/transit/staleness.go\<close>). A malformed
  identifier is one of the outside reasons a statement may fail for.
\<close>

subsection \<open>Writing jobs\<close>

definition one_target :: "Job \<Rightarrow> bool" where
  "one_target j \<longleftrightarrow> length (filter (\<lambda>t. t \<noteq> None) [job_ScenarioID j, job_UserScenarioID j, job_UserServiceID j]) \<le> 1"

definition references :: "string option \<Rightarrow> string list \<Rightarrow> bool" where
  "references fk ids \<longleftrightarrow> (case fk of None \<Rightarrow> True | Some i \<Rightarrow> i \<in> set ids)"

definition job_refs_ok :: "Db \<Rightarrow> Job \<Rightarrow> bool" where
  "job_refs_ok db j \<longleftrightarrow>
     references (job_ScenarioID j) (map sc_ID (db_curated db)) \<and>
     references (job_UserScenarioID j) (map cr_id (db_scenarios db)) \<and>
     references (job_UserServiceID j) (map sr_id (db_services db)) \<and>
     references (job_OwnerID j) (map (u_ID \<circ> ur_user) (db_users db))"

text \<open>The columns the insert does not name take their defaults.\<close>

definition jobRow :: "Job \<Rightarrow> gotime \<Rightarrow> Job" where
  "jobRow j now = j\<lparr>job_Result := None, job_CompiledServiceIDs := [], job_CreatedAt := now, job_UpdatedAt := now\<rparr>"

definition CreateJob :: "Job \<Rightarrow> unit repo" where
  "CreateJob j = transact ''CreateJob'' (\<lambda>db.
     bind_res (require (one_target j) (CheckViolation ''jobs_one_target'')) (\<lambda>_.
     bind_res (require (\<not> list_ex (\<lambda>k. job_ID k = job_ID j) (db_jobs db)) (UniqueViolation ''jobs_pkey'')) (\<lambda>_.
     bind_res (require (job_refs_ok db j) (ForeignKeyViolation ''jobs'')) (\<lambda>_.
       Inr ((), db\<lparr>db_jobs := db_jobs db @ [jobRow j (db_now db)]\<rparr>)))))"

definition UpdateJobStatus :: "string \<Rightarrow> string \<Rightarrow> string \<Rightarrow> unit repo" where
  "UpdateJobStatus i status errMsg = transact ''UpdateJobStatus'' (\<lambda>db.
     let hit = (\<lambda>j. job_ID j = i) in
     bind_res (require (list_ex hit (db_jobs db)) (NoSuchRow ''UpdateJobStatus'' i)) (\<lambda>_.
       Inr ((), db\<lparr>db_jobs := update_where hit
         (\<lambda>j. j\<lparr>job_Status := status, job_Error := errMsg, job_UpdatedAt := db_now db\<rparr>) (db_jobs db)\<rparr>)))"

definition CompleteJob :: "string \<Rightarrow> TransitGraph \<Rightarrow> string list \<Rightarrow> unit repo" where
  "CompleteJob i result compiledServiceIDs = transact ''CompleteJob'' (\<lambda>db.
     let hit = (\<lambda>j. job_ID j = i) in
     bind_res (require (list_ex hit (db_jobs db)) (NoSuchRow ''CompleteJob'' i)) (\<lambda>_.
       Inr ((), db\<lparr>db_jobs := update_where hit
         (\<lambda>j. j\<lparr>job_Status := JobStatusSucceeded, job_Error := [], job_Result := Some result,
                job_CompiledServiceIDs := compiledServiceIDs, job_UpdatedAt := db_now db\<rparr>) (db_jobs db)\<rparr>)))"

definition interruptedByRestart :: string where
  "interruptedByRestart = ''interrupted by restart''"

definition unfinished :: "Job \<Rightarrow> bool" where
  "unfinished j \<longleftrightarrow> job_Status j = JobStatusQueued \<or> job_Status j = JobStatusRunning"

definition failedRow :: "string \<Rightarrow> gotime \<Rightarrow> Job \<Rightarrow> Job" where
  "failedRow errMsg now j = j\<lparr>job_Status := JobStatusFailed, job_Error := errMsg, job_UpdatedAt := now\<rparr>"

definition FailInterruptedJobs :: "nat repo" where
  "FailInterruptedJobs = transact ''FailInterruptedJobs'' (\<lambda>db.
     Inr (length (filter unfinished (db_jobs db)),
          db\<lparr>db_jobs := update_where unfinished (failedRow interruptedByRestart (db_now db)) (db_jobs db)\<rparr>))"

definition FailInterruptedJob :: "string \<Rightarrow> string \<Rightarrow> bool repo" where
  "FailInterruptedJob i errMsg = transact ''FailInterruptedJob'' (\<lambda>db.
     let hit = (\<lambda>j. job_ID j = i \<and> unfinished j) in
     Inr (length (filter hit (db_jobs db)) = 1,
          db\<lparr>db_jobs := update_where hit (failedRow errMsg (db_now db)) (db_jobs db)\<rparr>))"

subsection \<open>Reading jobs\<close>

definition GetJobByID :: "string \<Rightarrow> Job option repo" where
  "GetJobByID i = select ''GetJobByID'' (\<lambda>db. List.find (\<lambda>j. job_ID j = i) (db_jobs db))"

definition ListJobs :: "Job list repo" where
  "ListJobs = select ''ListJobs'' (\<lambda>db. SliceStable (\<lambda>a b. job_CreatedAt b < job_CreatedAt a) (db_jobs db))"

definition newest_job :: "Job \<Rightarrow> Job \<Rightarrow> bool" where
  "newest_job a b \<longleftrightarrow> job_CreatedAt b < job_CreatedAt a \<or> (job_CreatedAt a = job_CreatedAt b \<and> job_ID b < job_ID a)"

text \<open>\<open>ORDER BY created_at DESC, id DESC LIMIT 1\<close>\<close>

definition latest :: "Job list \<Rightarrow> Job option" where
  "latest jobs = (case SliceStable newest_job jobs of [] \<Rightarrow> None | j # _ \<Rightarrow> Some j)"

text \<open>The join of \<open>jobs\<close> with a target table, given as the ids its rows have for a slug.\<close>

definition latestSucceededJobBySlug ::
  "(Db \<Rightarrow> string list) \<Rightarrow> (Job \<Rightarrow> string option) \<Rightarrow> string \<Rightarrow> Job option repo" where
  "latestSucceededJobBySlug targets fk kind = select ''latestSucceededJobBySlug'' (\<lambda>db.
     latest (filter (\<lambda>j. (case fk j of None \<Rightarrow> False | Some i \<Rightarrow> i \<in> set (targets db)) \<and>
                         job_Kind j = kind \<and> job_Status j = JobStatusSucceeded) (db_jobs db)))"

definition GetLatestSucceededJob :: "string \<Rightarrow> string \<Rightarrow> Job option repo" where
  "GetLatestSucceededJob scenarioSlug kind = latestSucceededJobBySlug
     (\<lambda>db. map sc_ID (filter (\<lambda>c. sc_Slug c = scenarioSlug) (db_curated db))) job_ScenarioID kind"

definition GetLatestSucceededUserScenarioJob :: "string \<Rightarrow> Job option repo" where
  "GetLatestSucceededUserScenarioJob slug = latestSucceededJobBySlug
     (\<lambda>db. map cr_id (filter (\<lambda>c. cr_slug c = slug) (db_scenarios db))) job_UserScenarioID JobKindCompileUserScenario"

definition GetLatestSucceededUserServiceJob :: "string \<Rightarrow> Job option repo" where
  "GetLatestSucceededUserServiceJob slug = latestSucceededJobBySlug
     (\<lambda>db. map sr_id (filter (\<lambda>s. sr_slug s = slug) (db_services db))) job_UserServiceID JobKindCompileUserService"

subsection \<open>Staleness\<close>

definition MembershipStale ::
  "string list \<Rightarrow> gotime \<Rightarrow> string list \<Rightarrow> (string \<rightharpoonup> gotime) \<Rightarrow> bool" where
  "MembershipStale compiledServiceIDs capturedAt currentServiceIDs currentServiceUpdatedAt \<longleftrightarrow>
     length (remdups compiledServiceIDs) \<noteq> length currentServiceIDs \<or>
     list_ex (\<lambda>i. i \<notin> set compiledServiceIDs) currentServiceIDs \<or>
     list_ex (\<lambda>i. case currentServiceUpdatedAt i of None \<Rightarrow> False | Some t \<Rightarrow> capturedAt < t) currentServiceIDs"

definition MembershipIDs :: "ServiceMembership list \<Rightarrow> string list" where
  "MembershipIDs members = map sm_ServiceID members"

definition PrerenderedOutdated :: "PrerenderedIsochrone \<Rightarrow> ServiceMembership list \<Rightarrow> bool" where
  "PrerenderedOutdated p members =
     MembershipStale (pi_CompiledServiceIDs p) (pi_CreatedAt p) (map sm_ServiceID members)
       (map_option sm_UpdatedAt \<circ> index_by sm_ServiceID members)"

definition boardingWaitStale :: "TransitGraph \<Rightarrow> (string \<rightharpoonup> BoardingWaitPolicy) \<Rightarrow> bool" where
  "boardingWaitStale graph currentPolicies = list_ex (\<lambda>sg.
     let current = (case currentPolicies (sg_ServiceID sg) of None \<Rightarrow> DefaultBoardingWaitPolicy | Some p \<Rightarrow> p) in
     sg_WaitPolicy sg \<noteq> kindOrNone current \<or>
     (bw_Kind current = BoardingWaitFixed \<and> sg_WaitSecs sg \<noteq> bw_FixedSecs current)) (tg_Services graph)"

definition edgeRoutesStale :: "TransitGraph \<Rightarrow> bool" where
  "edgeRoutesStale graph = list_ex (\<lambda>sg. list_ex (\<lambda>e. e_RouteID e = []) (sg_Edges sg)) (tg_Services graph)"

definition GraphStale ::
  "Job \<Rightarrow> string list \<Rightarrow> (string \<rightharpoonup> gotime) \<Rightarrow> (string \<rightharpoonup> BoardingWaitPolicy) \<Rightarrow> bool" where
  "GraphStale job currentServiceIDs currentServiceUpdatedAt currentPolicies \<longleftrightarrow>
     MembershipStale (job_CompiledServiceIDs job) (job_CreatedAt job) currentServiceIDs currentServiceUpdatedAt \<or>
     (case job_Result job of None \<Rightarrow> False | Some g \<Rightarrow> boardingWaitStale g currentPolicies) \<or>
     (case job_Result job of None \<Rightarrow> False | Some g \<Rightarrow> edgeRoutesStale g)"

end
