(* ===== verification/Compile_Jobs.thy ===== *)
theory Compile_Jobs
  imports Job_Store Physics_Compile
begin

text \<open>
  Compile jobs: what a job compiles (\<open>internal/compile/compile.go\<close>, \<open>internal/transit/compile_seeded.go\<close>),
  the runner of its goroutines (\<open>internal/compile/runner.go\<close>) and the handlers that submit, poll
  and read compiles (\<open>internal/handler/job.go\<close>, \<open>usercompile.go\<close>, \<open>authoredtarget.go\<close>). The Unicode
  tables and the global boarding wait are arguments; \<open>render\<close> is the text of an error. A coordinate
  that is missing panics inside the goroutine, which ends the process.
\<close>

datatype job_error =
    NoTarget string string
  | UnknownKind string
  | Loading string db_error
  | NotFound string string
  | NoTravelTimes string
  | SeededFailed string compile_error
  | ServicesFailed services_error

definition panics :: "job_error \<Rightarrow> bool" where
  "panics e = (case e of
     SeededFailed _ (GeometryPanic _) \<Rightarrow> True
   | ServicesFailed (BadService (BadLine _ CoordinatePanic)) \<Rightarrow> True
   | _ \<Rightarrow> False)"

type_synonym 'a compiling = "Db \<Rightarrow> (job_error + 'a) \<times> Db"

text \<open>A read whose failure ends the compile with the given prefix.\<close>

definition loading :: "string \<Rightarrow> 'a repo \<Rightarrow> ('a \<Rightarrow> 'b compiling) \<Rightarrow> 'b compiling" where
  "loading what q k db = (case q db of (Inl e, db') \<Rightarrow> (Inl (Loading what e), db') | (Inr x, db') \<Rightarrow> k x db')"

definition finish :: "job_error + 'a \<Rightarrow> 'a compiling" where
  "finish r db = (r, db)"

subsection \<open>Seeded scenarios\<close>

definition CompileSeededScenario :: "Scenario \<Rightarrow> BoardingWaitPolicy \<Rightarrow> TransitGraph compiling" where
  "CompileSeededScenario sc boardingWait =
     loading ''routes'' (ListRoutesByScenario (sc_ID sc)) (\<lambda>routes.
     loading ''stations'' (ListStationsByScenario (sc_ID sc)) (\<lambda>stations.
     loading ''services'' (ListServicesByScenario (sc_ID sc)) (\<lambda>services.
     loading ''vehicle types'' ListVehicleTypes (\<lambda>vehicleTypes.
     loading ''travel times'' (GetTravelTimes (sc_Slug sc)) (\<lambda>tt.
       case tt of
         None \<Rightarrow> finish (Inl (NoTravelTimes (sc_Slug sc)))
       | Some runTimes \<Rightarrow> finish (wrap_err (SeededFailed (sc_Slug sc))
           (Compile sc routes stations services vehicleTypes runTimes boardingWait)))))))"

text \<open>The stored and the fresh graph are compared as JSON, an injective rendering of the graph.\<close>

definition sameCompiledGraph :: "TransitGraph \<Rightarrow> TransitGraph \<Rightarrow> bool" where
  "sameCompiledGraph stored_graph fresh \<longleftrightarrow> stored_graph = fresh"

definition queuedJob :: "string \<Rightarrow> string \<Rightarrow> Job" where
  "queuedJob i kind = \<lparr>job_ID = i, job_Kind = kind, job_Status = JobStatusQueued, job_ScenarioID = None,
     job_UserScenarioID = None, job_UserServiceID = None, job_OwnerID = None, job_Error = [], job_Result = None,
     job_CompiledServiceIDs = [], job_CreatedAt = 0, job_UpdatedAt = 0\<rparr>"

datatype seeded_error = CompileError job_error | StoreError db_error | RandomSource

definition recordCompiled ::
  "'r + string \<Rightarrow> Scenario \<Rightarrow> TransitGraph \<Rightarrow> Db \<Rightarrow> (seeded_error + string) \<times> Db" where
  "recordCompiled newID sc graph db =
     (case newID of
        Inl _ \<Rightarrow> (Inl RandomSource, db)
      | Inr i \<Rightarrow>
          (case CreateJob ((queuedJob i JobKindCompileScenario)\<lparr>job_ScenarioID := Some (sc_ID sc)\<rparr>) db of
             (Inl e, db1) \<Rightarrow> (Inl (StoreError e), db1)
           | (Inr _, db1) \<Rightarrow>
               (case CompleteJob i graph (CompiledServiceIDs graph) db1 of
                  (Inl e, db2) \<Rightarrow> (Inl (StoreError e), db2)
                | (Inr _, db2) \<Rightarrow> (Inr i, db2))))"

text \<open>The loop of \<open>CompileSeededIfNeeded\<close>; one identifier is drawn per scenario that is recorded.\<close>

fun compileSeededLoop ::
  "BoardingWaitPolicy \<Rightarrow> (nat \<Rightarrow> 'r + string) \<Rightarrow> Scenario list \<Rightarrow> nat \<Rightarrow> Db \<Rightarrow> (nat \<times> seeded_error option) \<times> Db" where
  "compileSeededLoop boardingWait newID [] compiled db = ((compiled, None), db)"
| "compileSeededLoop boardingWait newID (sc # scs) compiled db =
     (case GetLatestSucceededJob (sc_Slug sc) JobKindCompileScenario db of
        (Inl e, db1) \<Rightarrow> ((compiled, Some (StoreError e)), db1)
      | (Inr job, db1) \<Rightarrow>
          (case CompileSeededScenario sc boardingWait db1 of
             (Inl e, db2) \<Rightarrow> ((compiled, Some (CompileError e)), db2)
           | (Inr graph, db2) \<Rightarrow>
               if (case job of Some j \<Rightarrow> (case job_Result j of Some g \<Rightarrow> sameCompiledGraph g graph | None \<Rightarrow> False) | None \<Rightarrow> False)
               then compileSeededLoop boardingWait newID scs compiled db2
               else (case recordCompiled (newID compiled) sc graph db2 of
                       (Inl e, db3) \<Rightarrow> ((compiled, Some e), db3)
                     | (Inr _, db3) \<Rightarrow> compileSeededLoop boardingWait newID scs (Suc compiled) db3)))"

definition CompileSeededIfNeeded ::
  "BoardingWaitPolicy \<Rightarrow> (nat \<Rightarrow> 'r + string) \<Rightarrow> Db \<Rightarrow> (nat \<times> seeded_error option) \<times> Db" where
  "CompileSeededIfNeeded boardingWait newID db =
     (case ListCuratedScenarios db of
        (Inl e, db1) \<Rightarrow> ((0, Some (StoreError e)), db1)
      | (Inr scenarios, db1) \<Rightarrow> compileSeededLoop boardingWait newID scenarios 0 db1)"

subsection \<open>What a job compiles\<close>

fun routeIDsLoop :: "UserService list \<Rightarrow> string set \<Rightarrow> string list" where
  "routeIDsLoop [] seen = []"
| "routeIDsLoop (svc # services) seen =
     (if us_RouteID svc = [] \<or> us_RouteID svc \<in> seen then routeIDsLoop services seen
      else us_RouteID svc # routeIDsLoop services (insert (us_RouteID svc) seen))"

definition routeIDsOf :: "UserService list \<Rightarrow> string list" where
  "routeIDsOf services = routeIDsLoop services {}"

definition compileUserServices ::
  "unicode_tables \<Rightarrow> UserService list \<Rightarrow> InterchangePair list \<Rightarrow> BoardingWaitOverride option \<Rightarrow> BoardingWaitPolicy
    \<Rightarrow> TransitGraph compiling" where
  "compileUserServices u services prs scenarioWait boardingWait =
     loading ''routes'' (ListRoutesByIDs (routeIDsOf services)) (\<lambda>routes.
       finish (wrap_err ServicesFailed (CompileUserScenario u routes services prs scenarioWait boardingWait)))"

definition compileScenario :: "string \<Rightarrow> BoardingWaitPolicy \<Rightarrow> TransitGraph compiling" where
  "compileScenario scenarioID boardingWait =
     loading ''scenario'' (GetScenarioByID scenarioID) (\<lambda>sc.
       case sc of
         None \<Rightarrow> finish (Inl (NotFound ''scenario'' scenarioID))
       | Some c \<Rightarrow> CompileSeededScenario c boardingWait)"

definition compileUserScenario :: "unicode_tables \<Rightarrow> string \<Rightarrow> BoardingWaitPolicy \<Rightarrow> TransitGraph compiling" where
  "compileUserScenario u i boardingWait =
     loading ''user scenario'' (GetUserScenarioByID i) (\<lambda>sc.
       case sc of
         None \<Rightarrow> finish (Inl (NotFound ''user scenario'' i))
       | Some c \<Rightarrow> loading ''member services'' (ListUserServicesByIDs (uc_ServiceIDs c)) (\<lambda>services.
           compileUserServices u services (uc_InterchangePairs c) (uc_BoardingWait c) boardingWait))"

definition compileUserService :: "unicode_tables \<Rightarrow> string \<Rightarrow> BoardingWaitPolicy \<Rightarrow> TransitGraph compiling" where
  "compileUserService u i boardingWait =
     loading ''user service'' (GetUserServiceByID i) (\<lambda>svc.
       case svc of
         None \<Rightarrow> finish (Inl (NotFound ''user service'' i))
       | Some s \<Rightarrow> compileUserServices u [s] [] None boardingWait)"

definition compile :: "unicode_tables \<Rightarrow> Job \<Rightarrow> BoardingWaitPolicy \<Rightarrow> TransitGraph compiling" where
  "compile u job boardingWait =
     (if job_Kind job = JobKindCompileScenario then
        (case job_ScenarioID job of
           None \<Rightarrow> finish (Inl (NoTarget (job_Kind job) ''scenario_id''))
         | Some i \<Rightarrow> compileScenario i boardingWait)
      else if job_Kind job = JobKindCompileUserScenario then
        (case job_UserScenarioID job of
           None \<Rightarrow> finish (Inl (NoTarget (job_Kind job) ''user_scenario_id''))
         | Some i \<Rightarrow> compileUserScenario u i boardingWait)
      else if job_Kind job = JobKindCompileUserService then
        (case job_UserServiceID job of
           None \<Rightarrow> finish (Inl (NoTarget (job_Kind job) ''user_service_id''))
         | Some i \<Rightarrow> compileUserService u i boardingWait)
      else finish (Inl (UnknownKind (job_Kind job))))"

definition kindLabel :: "string \<Rightarrow> string" where
  "kindLabel kind =
     (if kind \<in> {JobKindCompileScenario, JobKindCompileUserScenario, JobKindCompileUserService} then kind else ''other'')"

text \<open>How a run ends: with an outcome label and perhaps an error, or with the process.\<close>

datatype outcome = Ended string "db_error option" | Crashed

definition outcomeError :: string where
  "outcomeError = ''error''"

definition run ::
  "unicode_tables \<Rightarrow> (job_error \<Rightarrow> string) \<Rightarrow> BoardingWaitPolicy \<Rightarrow> Job \<Rightarrow> Db \<Rightarrow> outcome \<times> Db" where
  "run u render boardingWait job db =
     (case UpdateJobStatus (job_ID job) JobStatusRunning [] db of
        (Inl e, db1) \<Rightarrow> (Ended outcomeError (Some e), db1)
      | (Inr _, db1) \<Rightarrow>
          (case compile u job boardingWait db1 of
             (Inl e, db2) \<Rightarrow>
               if panics e then (Crashed, db2)
               else (case UpdateJobStatus (job_ID job) JobStatusFailed (render e) db2 of
                       (Inl fe, db3) \<Rightarrow> (Ended outcomeError (Some fe), db3)
                     | (Inr _, db3) \<Rightarrow> (Ended JobStatusFailed None, db3))
           | (Inr graph, db2) \<Rightarrow>
               (case CompleteJob (job_ID job) graph (CompiledServiceIDs graph) db2 of
                  (Inl e, db3) \<Rightarrow> (Ended outcomeError (Some e), db3)
                | (Inr _, db3) \<Rightarrow> (Ended JobStatusSucceeded None, db3))))"

text \<open>\<open>Compile\<close> adds the metrics' labels to the run: the kind and the outcome it is counted under.\<close>

definition compile_Compile ::
  "unicode_tables \<Rightarrow> (job_error \<Rightarrow> string) \<Rightarrow> BoardingWaitPolicy \<Rightarrow> Job \<Rightarrow> Db \<Rightarrow> (outcome \<times> (string \<times> string) option) \<times> Db" where
  "compile_Compile u render boardingWait job db =
     (case run u render boardingWait job db of
        (Ended label e, db') \<Rightarrow> ((Ended label e, Some (kindLabel (job_Kind job), label)), db')
      | (Crashed, db') \<Rightarrow> ((Crashed, None), db'))"

subsection \<open>A fresh graph matches its services\<close>

lemma merge_frame:
  assumes "MergeColocatedStops svcs prs = Some (merged, report, nodes)"
  shows "list_all2 (\<lambda>cs m. \<exists>stops. m = cs\<lparr>cp_Stops := stops\<rparr>) svcs merged"
proof (rule MergeColocatedStops_spec [of svcs prs])
  fix clusters cof merged'
  assume "merge_spec svcs clusters cof merged'"
    and "MergeColocatedStops svcs prs = Some (merged', \<lparr>mr_Clusters = realisedClusters clusters,
      mr_NearMisses = nearMisses (flattenStops svcs) cof\<rparr>, clusterNodes clusters)"
  then obtain g where "merged = relabel g svcs" using assms by (auto simp: merge_spec_def)
  then show ?thesis by (auto simp: list_all2_conv_all_nth relabel_nth)
qed

text \<open>What the graph of a service records of the wait and the route it was compiled with.\<close>

definition labelled ::
  "string \<Rightarrow> string \<Rightarrow> BoardingWaitOverride option \<Rightarrow> BoardingWaitOverride option \<Rightarrow> BoardingWaitPolicy \<Rightarrow> ServiceGraph \<Rightarrow> bool" where
  "labelled i routeID wait scenarioWait w sg \<longleftrightarrow> sg_ServiceID sg = i \<and> (\<forall>e \<in> set (sg_Edges sg). e_RouteID e = routeID) \<and>
     (\<exists>p src. ResolveBoardingWait wait scenarioWait w = Inr (p, src) \<and> sg_WaitPolicy sg = kindOrNone p \<and>
        (bw_Kind p = BoardingWaitFixed \<longrightarrow> sg_WaitSecs sg = bw_FixedSecs p))"

lemma spanPair_route: "spanPair svc m sp = Inr fr \<Longrightarrow> e = fst fr \<or> e = snd fr \<Longrightarrow> e_RouteID e = rt_ID (cp_Route svc)"
  by (auto simp: spanPair_def placeEdge_def Let_def)

lemma CompileServicePhysics_labelled:
  assumes "CompileServicePhysics cs w = Inr sg"
  shows "labelled (cp_ID cs) (rt_ID (cp_Route cs)) (cp_BoardingWait cs) (cp_ScenarioBoardingWait cs) w sg"
proof -
  obtain m spans prs where prs: "map_res (spanPair cs m) spans = Inr prs" "sg_Edges sg = flatPairs prs"
    using assms by (rule CompileServicePhysics_InrE)
  have "e_RouteID e = rt_ID (cp_Route cs)" if "e \<in> set (sg_Edges sg)" for e
  proof -
    from that prs(2) obtain fr where fr: "fr \<in> set prs" "e = fst fr \<or> e = snd fr" by (auto simp: flatPairs_def)
    from prs(1) fr(1) obtain sp where "spanPair cs m sp = Inr fr"
      by (auto simp: map_res_Inr_iff dest: list_all2_setD2)
    from spanPair_route [OF this fr(2)] show ?thesis .
  qed
  then show ?thesis using assms
    by (auto simp: labelled_def CompileServicePhysics_def applyBoardingWait_def resolveInto_def WaitSecs_def split: if_splits)
qed

lemma userCompilable_fields:
  assumes "userCompilable u routes scenarioWait svc = Inr cs"
  shows "cp_ID cs = us_ID svc" "rt_ID (cp_Route cs) = us_RouteID svc" "cp_BoardingWait cs = us_BoardingWait svc"
    "cp_ScenarioBoardingWait cs = scenarioWait"
  using assms by (auto simp: userCompilable_def CompilableFromUserService_def Let_def split: option.splits if_splits)

lemma CompileUserScenario_labelled:
  assumes "CompileUserScenario u routes services prs scenarioWait w = Inr g"
  shows "list_all2 (\<lambda>svc. labelled (us_ID svc) (us_RouteID svc) (us_BoardingWait svc) scenarioWait w) services (tg_Services g)"
proof -
  from assms obtain css merged where css: "list_all2 (\<lambda>svc cs. userCompilable u routes scenarioWait svc = Inr cs) services css"
    and merge: "MergeColocatedStops css prs = Some (merged, tg_Merge g, tg_Nodes g)"
    and sgs: "list_all2 (\<lambda>cs sg. CompileServicePhysics cs w = Inr sg) merged (tg_Services g)"
    by (auto simp: CompileUserScenario_def CompileServices_def map_res_Inr_iff split: option.splits)
  have "list_all2 (\<lambda>cs. labelled (cp_ID cs) (rt_ID (cp_Route cs)) (cp_BoardingWait cs) (cp_ScenarioBoardingWait cs) w) css (tg_Services g)"
    by (rule list_all2_trans [OF _ merge_frame [OF merge] sgs]) (auto dest: CompileServicePhysics_labelled)
  from css this show ?thesis
    by (rule list_all2_trans [rotated]) (metis userCompilable_fields)
qed

text \<open>The inputs of the staleness check as the handlers build them.\<close>

definition resolvedBoardingWaitByService ::
  "UserService list \<Rightarrow> BoardingWaitOverride option \<Rightarrow> BoardingWaitPolicy \<Rightarrow> (string \<rightharpoonup> BoardingWaitPolicy)" where
  "resolvedBoardingWaitByService members scenario global i =
     map_option (\<lambda>svc. case ResolveBoardingWait (us_BoardingWait svc) scenario global of
         Inr (p, _) \<Rightarrow> p
       | Inl _ \<Rightarrow> DefaultBoardingWaitPolicy) (index_by us_ID members i)"

definition updatedAtByID :: "UserService list \<Rightarrow> (string \<rightharpoonup> gotime)" where
  "updatedAtByID services i = map_option us_UpdatedAt (index_by us_ID services i)"

lemma fresh_not_stale:
  assumes run: "CompileUserScenario u routes services prs scenarioWait w = Inr g"
    and services: "distinct (map us_ID services)" "\<forall>svc \<in> set services. us_RouteID svc \<noteq> [] \<and> us_UpdatedAt svc \<le> job_CreatedAt job"
    and job: "job_Result job = Some g" "job_CompiledServiceIDs job = CompiledServiceIDs g"
    and ids: "set ids = us_ID ` set services" "length ids = length services"
  shows "\<not> GraphStale job ids (updatedAtByID services) (resolvedBoardingWaitByService services scenarioWait w)"
proof -
  note L = CompileUserScenario_labelled [OF run]
  have compiled: "CompiledServiceIDs g = map us_ID services"
    using L unfolding CompiledServiceIDs_def by (induction rule: list_all2_induct) (simp_all add: labelled_def)
  have "\<not> MembershipStale (job_CompiledServiceIDs job) (job_CreatedAt job) ids (updatedAtByID services)"
    using ids services by (auto simp: MembershipStale_def job(2) compiled list_ex_iff updatedAtByID_def distinct_remdups_id
        dest!: index_by_Some split: option.splits)
  moreover have "\<not> boardingWaitStale g (resolvedBoardingWaitByService services scenarioWait w)"
    unfolding boardingWaitStale_def list_ex_iff Let_def
  proof (clarify, goal_cases)
    case (1 sg)
    then obtain svc where svc: "svc \<in> set services" "labelled (us_ID svc) (us_RouteID svc) (us_BoardingWait svc) scenarioWait w sg"
      using L by (auto dest: list_all2_setD2)
    with 1 show False
      by (auto simp: labelled_def resolvedBoardingWaitByService_def index_by_distinct [OF services(1) svc(1)])
  qed
  moreover have "\<not> edgeRoutesStale g"
    using services(2) list_all2_setD2 [OF L] by (fastforce simp: edgeRoutesStale_def list_ex_iff labelled_def)
  ultimately show ?thesis by (simp add: GraphStale_def job(1))
qed

end
