(* ===== verification/Compile_Handlers.thy ===== *)
theory Compile_Handlers
  imports Compile_Jobs
begin

text \<open>
  The runner of compile goroutines (\<open>internal/compile/runner.go\<close>) and the handlers that submit a
  compile, poll its job and read the compiled graph (\<open>internal/handler/job.go\<close>, \<open>usercompile.go\<close>,
  \<open>authoredtarget.go\<close>, \<open>ownership.go\<close>). A handler that submits works on the database and the runner;
  the others on the database alone. The API's clock and the identifiers drawn are arguments.
\<close>

subsection \<open>The runner\<close>

text \<open>
  A goroutine stands before marking its job running, before compiling, or before recording what
  it compiled. \<open>rn_tasks\<close> are the goroutines the wait group counts, \<open>rn_inFlight\<close> the keys of the map.
\<close>

datatype phase = Admitted | Compiling | Compiled "job_error + TransitGraph"

record Runner =
  rn_draining :: bool
  rn_inFlight :: "string list"
  rn_tasks :: "(Job \<times> phase) list"

definition NewRunner :: Runner where
  "NewRunner = \<lparr>rn_draining = False, rn_inFlight = [], rn_tasks = []\<rparr>"

definition Enqueue :: "Job \<Rightarrow> Runner \<Rightarrow> Runner" where
  "Enqueue job r =
     (if rn_draining r then r
      else r\<lparr>rn_inFlight := List.insert (job_ID job) (rn_inFlight r), rn_tasks := rn_tasks r @ [(job, Admitted)]\<rparr>)"

text \<open>The deferred function of a goroutine.\<close>

definition leave :: "Job \<Rightarrow> Runner \<Rightarrow> Runner" where
  "leave job r = r\<lparr>rn_inFlight := removeAll (job_ID job) (rn_inFlight r),
                   rn_tasks := filter (\<lambda>(j, _). job_ID j \<noteq> job_ID job) (rn_tasks r)\<rparr>"

text \<open>One statement of \<open>run\<close>: the next phase, or \<open>None\<close> when the goroutine returns.\<close>

fun advance ::
  "unicode_tables \<Rightarrow> (job_error \<Rightarrow> string) \<Rightarrow> BoardingWaitPolicy \<Rightarrow> Job \<Rightarrow> phase \<Rightarrow> Db \<Rightarrow> phase option \<times> Db" where
  "advance u render w job Admitted db =
     (case UpdateJobStatus (job_ID job) JobStatusRunning [] db of
        (Inl _, db') \<Rightarrow> (None, db')
      | (Inr _, db') \<Rightarrow> (Some Compiling, db'))"
| "advance u render w job Compiling db = (case compile u job w db of (r, db') \<Rightarrow> (Some (Compiled r), db'))"
| "advance u render w job (Compiled (Inl e)) db =
     (if panics e then (None, db) else (None, snd (UpdateJobStatus (job_ID job) JobStatusFailed (render e) db)))"
| "advance u render w job (Compiled (Inr graph)) db =
     (None, snd (CompleteJob (job_ID job) graph (CompiledServiceIDs graph) db))"

text \<open>Draining: nothing more is admitted; at the deadline the goroutines left are named.\<close>

definition Drain :: "Runner \<Rightarrow> Runner" where
  "Drain r = r\<lparr>rn_draining := True\<rparr>"

definition Drain_abandoned :: "Runner \<Rightarrow> string list" where
  "Drain_abandoned r = (if rn_tasks r = [] then [] else rn_inFlight r)"

lemma run_advance:
  "snd (run u render w job db) =
     (case advance u render w job Admitted db of
        (None, db1) \<Rightarrow> db1
      | (Some _, db1) \<Rightarrow>
          (case compile u job w db1 of (r, db2) \<Rightarrow> snd (advance u render w job (Compiled r) db2)))"
  by (auto simp: run_def split: prod.splits sum.splits)

subsection \<open>Replies\<close>

datatype compile_body =
    Plain body
  | JobBody Job
  | GraphBody TransitGraph
  | RoutedGraphBody TransitGraph "Route list"

type_synonym reply = "nat \<times> compile_body"

definition reply_of :: "response \<Rightarrow> reply" where
  "reply_of r = (rp_status r, Plain (rp_body r))"

record World =
  w_db :: Db
  w_runner :: Runner

definition mayReachScenario :: "User option \<Rightarrow> Scenario \<Rightarrow> bool" where
  "mayReachScenario user sc \<longleftrightarrow>
     (case sc_OwnerID sc of
        None \<Rightarrow> True
      | Some owner \<Rightarrow> (case user of None \<Rightarrow> False | Some who \<Rightarrow> CanAccess who (Some owner)))"

definition createCompileJob :: "'r + string \<Rightarrow> Job \<Rightarrow> Db \<Rightarrow> (response + Job) \<times> Db" where
  "createCompileJob newID job db =
     (case newID of
        Inl _ \<Rightarrow> (Inl writeInternalError, db)
      | Inr i \<Rightarrow>
          (let j = job\<lparr>job_ID := i, job_Status := JobStatusQueued\<rparr> in
           case CreateJob j db of
             (Inl _, db') \<Rightarrow> (Inl writeInternalError, db')
           | (Inr _, db') \<Rightarrow> (Inr j, db')))"

definition submit :: "'r + string \<Rightarrow> Job \<Rightarrow> Db \<Rightarrow> Runner \<Rightarrow> reply \<times> World" where
  "submit newID job db r =
     (case createCompileJob newID job db of
        (Inl resp, db') \<Rightarrow> (reply_of resp, \<lparr>w_db = db', w_runner = r\<rparr>)
      | (Inr j, db') \<Rightarrow> ((202, JobBody j), \<lparr>w_db = db', w_runner = Enqueue j r\<rparr>))"

definition CompileScenario :: "User option \<Rightarrow> string \<Rightarrow> 'r + string \<Rightarrow> World \<Rightarrow> reply \<times> World" where
  "CompileScenario user slug newID world =
     (case user of
        None \<Rightarrow> (reply_of (writeError 401 ''authentication required''), world)
      | Some who \<Rightarrow>
          (case GetScenarioBySlug slug (w_db world) of
             (Inl _, db1) \<Rightarrow> (reply_of writeInternalError, world\<lparr>w_db := db1\<rparr>)
           | (Inr None, db1) \<Rightarrow> (reply_of (writeError 404 ''scenario not found''), world\<lparr>w_db := db1\<rparr>)
           | (Inr (Some sc), db1) \<Rightarrow>
               if \<not> mayReachScenario user sc then (reply_of (writeError 404 ''scenario not found''), world\<lparr>w_db := db1\<rparr>)
               else submit newID ((queuedJob [] JobKindCompileScenario)\<lparr>job_ScenarioID := Some (sc_ID sc), job_OwnerID := Some (u_ID who)\<rparr>)
                      db1 (w_runner world)))"

subsection \<open>Authored targets\<close>

datatype authoredTarget = serviceTarget | scenarioTarget
datatype ownedTarget = ownedService UserService | ownedScenario UserScenario

definition target_load :: "authoredTarget \<Rightarrow> User option \<Rightarrow> string \<Rightarrow> Db \<Rightarrow> (response + ownedTarget) \<times> Db" where
  "target_load target user slug db =
     (case target of
        serviceTarget \<Rightarrow>
          (case loadService repoStore slug db of
             (Inl resp, db') \<Rightarrow> (Inl resp, db')
           | (Inr svc, db') \<Rightarrow>
               (case authorizeService user svc of Some resp \<Rightarrow> (Inl resp, db') | None \<Rightarrow> (Inr (ownedService svc), db')))
      | scenarioTarget \<Rightarrow>
          (case loadScenario scenarioRepo slug db of
             (Inl resp, db') \<Rightarrow> (Inl resp, db')
           | (Inr sc, db') \<Rightarrow>
               (case authorizeScenario user sc of Some resp \<Rightarrow> (Inl resp, db') | None \<Rightarrow> (Inr (ownedScenario sc), db'))))"

fun target_noun :: "ownedTarget \<Rightarrow> string" where
  "target_noun (ownedService _) = ''service''"
| "target_noun (ownedScenario _) = ''scenario''"

fun target_slug :: "ownedTarget \<Rightarrow> string" where
  "target_slug (ownedService svc) = us_Slug svc"
| "target_slug (ownedScenario sc) = uc_Slug sc"

fun compileJob :: "ownedTarget \<Rightarrow> string \<Rightarrow> Job" where
  "compileJob (ownedService svc) ownerID =
     (queuedJob [] JobKindCompileUserService)\<lparr>job_UserServiceID := Some (us_ID svc), job_OwnerID := Some ownerID\<rparr>"
| "compileJob (ownedScenario sc) ownerID =
     (queuedJob [] JobKindCompileUserScenario)\<lparr>job_UserScenarioID := Some (uc_ID sc), job_OwnerID := Some ownerID\<rparr>"

fun latestGraph :: "ownedTarget \<Rightarrow> Job option repo" where
  "latestGraph (ownedService svc) = GetLatestSucceededUserServiceJob (us_Slug svc)"
| "latestGraph (ownedScenario sc) = GetLatestSucceededUserScenarioJob (uc_Slug sc)"

fun target_members :: "ownedTarget \<Rightarrow> (string list \<times> UserService list) repo" where
  "target_members (ownedService svc) db = (Inr ([us_ID svc], [svc]), db)"
| "target_members (ownedScenario sc) db =
     (case ListUserServicesByIDs (uc_ServiceIDs sc) db of
        (Inl e, db') \<Rightarrow> (Inl e, db')
      | (Inr services, db') \<Rightarrow> (Inr (uc_ServiceIDs sc, services), db'))"

fun scenarioBoardingWait :: "ownedTarget \<Rightarrow> BoardingWaitOverride option" where
  "scenarioBoardingWait (ownedService _) = None"
| "scenarioBoardingWait (ownedScenario sc) = uc_BoardingWait sc"

definition compileAuthoredTarget ::
  "authoredTarget \<Rightarrow> User option \<Rightarrow> string \<Rightarrow> 'r + string \<Rightarrow> World \<Rightarrow> reply \<times> World" where
  "compileAuthoredTarget target user slug newID world =
     (case user of
        None \<Rightarrow> (reply_of (writeError 401 ''authentication required''), world)
      | Some who \<Rightarrow>
          (case target_load target user slug (w_db world) of
             (Inl resp, db1) \<Rightarrow> (reply_of resp, world\<lparr>w_db := db1\<rparr>)
           | (Inr owned, db1) \<Rightarrow> submit newID (compileJob owned (u_ID who)) db1 (w_runner world)))"

definition handler_CompileUserService :: "User option \<Rightarrow> string \<Rightarrow> 'r + string \<Rightarrow> World \<Rightarrow> reply \<times> World" where
  "handler_CompileUserService = compileAuthoredTarget serviceTarget"

definition handler_CompileUserScenario :: "User option \<Rightarrow> string \<Rightarrow> 'r + string \<Rightarrow> World \<Rightarrow> reply \<times> World" where
  "handler_CompileUserScenario = compileAuthoredTarget scenarioTarget"

definition loadCompiledGraph :: "ownedTarget \<Rightarrow> Db \<Rightarrow> (response + Job \<times> TransitGraph) \<times> Db" where
  "loadCompiledGraph owned db =
     (let none = writeError 404 (''no compiled graph for this '' @ target_noun owned @ '' yet'') in
      case latestGraph owned db of
        (Inl _, db') \<Rightarrow> (Inl writeInternalError, db')
      | (Inr None, db') \<Rightarrow> (Inl none, db')
      | (Inr (Some job), db') \<Rightarrow> (case job_Result job of None \<Rightarrow> (Inl none, db') | Some g \<Rightarrow> (Inr (job, g), db')))"

definition serviceRouteIDs :: "UserService list \<Rightarrow> string list" where
  "serviceRouteIDs services = routeIDsLoop services {}"

definition authoredTargetGraph :: "authoredTarget \<Rightarrow> User option \<Rightarrow> string \<Rightarrow> Db \<Rightarrow> reply \<times> Db" where
  "authoredTargetGraph target user slug db =
     (case target_load target user slug db of
        (Inl resp, db1) \<Rightarrow> (reply_of resp, db1)
      | (Inr owned, db1) \<Rightarrow>
          (case loadCompiledGraph owned db1 of
             (Inl resp, db2) \<Rightarrow> (reply_of resp, db2)
           | (Inr (job, g), db2) \<Rightarrow>
               (case target_members owned db2 of
                  (Inl _, db3) \<Rightarrow> (reply_of writeInternalError, db3)
                | (Inr (_, services), db3) \<Rightarrow>
                    (case ListRoutesByIDs (serviceRouteIDs services) db3 of
                       (Inl _, db4) \<Rightarrow> (reply_of writeInternalError, db4)
                     | (Inr routes, db4) \<Rightarrow> ((200, RoutedGraphBody g routes), db4)))))"

definition UserScenarioGraph :: "User option \<Rightarrow> string \<Rightarrow> Db \<Rightarrow> reply \<times> Db" where
  "UserScenarioGraph = authoredTargetGraph scenarioTarget"

definition UserServiceGraph :: "User option \<Rightarrow> string \<Rightarrow> Db \<Rightarrow> reply \<times> Db" where
  "UserServiceGraph = authoredTargetGraph serviceTarget"

subsection \<open>Polling a job\<close>

definition CompileJobInterruptedAfter :: gotime where
  "CompileJobInterruptedAfter = 5 * 60 * 1000000000"

definition interruptedCompileJobMessage :: string where
  "interruptedCompileJobMessage = ''the compile was interrupted before it finished; compile again to retry''"

definition failIfCompileInterrupted :: "gotime \<Rightarrow> Job \<Rightarrow> Db \<Rightarrow> Job \<times> Db" where
  "failIfCompileInterrupted now job db =
     (if \<not> unfinished job then (job, db)
      else if now - job_CreatedAt job \<le> CompileJobInterruptedAfter then (job, db)
      else (case FailInterruptedJob (job_ID job) interruptedCompileJobMessage db of
              (Inl _, db1) \<Rightarrow> (job, db1)
            | (Inr False, db1) \<Rightarrow>
                (case GetJobByID (job_ID job) db1 of
                   (Inr (Some current), db2) \<Rightarrow> (current, db2)
                 | (_, db2) \<Rightarrow> (job, db2))
            | (Inr True, db1) \<Rightarrow> (job\<lparr>job_Status := JobStatusFailed, job_Error := interruptedCompileJobMessage\<rparr>, db1)))"

definition JobStatus :: "User option \<Rightarrow> string \<Rightarrow> gotime \<Rightarrow> Db \<Rightarrow> reply \<times> Db" where
  "JobStatus user i now db =
     (case user of
        None \<Rightarrow> (reply_of (writeError 401 ''authentication required''), db)
      | Some who \<Rightarrow>
          (case GetJobByID i db of
             (Inl _, db1) \<Rightarrow> (reply_of writeInternalError, db1)
           | (Inr None, db1) \<Rightarrow> (reply_of (writeError 404 ''job not found''), db1)
           | (Inr (Some job), db1) \<Rightarrow>
               if \<not> u_IsAdmin who \<and> job_OwnerID job \<noteq> Some (u_ID who) then (reply_of (writeError 404 ''job not found''), db1)
               else (case failIfCompileInterrupted now job db1 of (job', db2) \<Rightarrow> ((200, JobBody job'), db2))))"

subsection \<open>The graph of a seeded scenario\<close>

definition latestSeededCompile :: "string \<Rightarrow> Db \<Rightarrow> (response + Job \<times> TransitGraph) \<times> Db" where
  "latestSeededCompile slug db =
     (let none = writeError 404 ''no compiled graph for this scenario yet'' in
      case GetLatestSucceededJob slug JobKindCompileScenario db of
        (Inl _, db') \<Rightarrow> (Inl writeInternalError, db')
      | (Inr None, db') \<Rightarrow> (Inl none, db')
      | (Inr (Some job), db') \<Rightarrow> (case job_Result job of None \<Rightarrow> (Inl none, db') | Some g \<Rightarrow> (Inr (job, g), db')))"

definition ScenarioGraph :: "User option \<Rightarrow> string \<Rightarrow> Db \<Rightarrow> reply \<times> Db" where
  "ScenarioGraph user slug db =
     (case GetScenarioBySlug slug db of
        (Inl _, db1) \<Rightarrow> (reply_of writeInternalError, db1)
      | (Inr None, db1) \<Rightarrow> (reply_of (writeError 404 ''scenario not found''), db1)
      | (Inr (Some sc), db1) \<Rightarrow>
          if \<not> mayReachScenario user sc then (reply_of (writeError 404 ''scenario not found''), db1)
          else (case latestSeededCompile slug db1 of
                  (Inl resp, db2) \<Rightarrow> (reply_of resp, db2)
                | (Inr (_, g), db2) \<Rightarrow> ((200, GraphBody g), db2)))"

end
