(* ===== verification/Publication.thy ===== *)
theory Publication
  imports Compile_Handlers
begin

text \<open>
  Publishing an authored service (\<open>internal/handler/publication.go\<close>, \<open>publishedservice.go\<close>,
  \<open>internal/persistence/postgres/publication.go\<close>, \<open>internal/transit/publication.go\<close>): the snapshot a
  publish pins, the public read of it, and the paged index of everything published. The cursor's
  text encoding is not modelled: a request carries the decoded key.
\<close>

record ServicePublication =
  pub_UserServiceID :: string
  pub_CompileJobID :: string
  pub_Name :: string
  pub_Subtext :: string
  pub_Description :: string
  pub_Routes :: "Route list"
  pub_PublishedAt :: gotime
  pub_AuthorName :: string

record PublishedServiceSummary =
  ps_Slug :: string
  ps_Name :: string
  ps_Subtext :: string
  ps_Description :: string
  ps_AuthorName :: string
  ps_PublishedAt :: gotime

record PublishedIndexKey =
  pk_FirstPublishedAt :: gotime
  pk_Slug :: string

record PublishedIndexPage =
  pg_Items :: "PublishedServiceSummary list"
  pg_Next :: "PublishedIndexKey option"

subsection \<open>What a publish pins\<close>

definition currentCompile :: "UserService \<Rightarrow> Job option \<Rightarrow> BoardingWaitPolicy \<Rightarrow> bool" where
  "currentCompile svc found global =
     (case found of
        None \<Rightarrow> False
      | Some job \<Rightarrow>
          job_Result job \<noteq> None \<and> job_Kind job = JobKindCompileUserService \<and> job_Status job = JobStatusSucceeded \<and>
          \<not> GraphStale job [us_ID svc] [us_ID svc \<mapsto> us_UpdatedAt svc] (resolvedBoardingWaitByService [svc] None global))"

fun edgeRoutesLoop :: "Edge list \<Rightarrow> string set \<Rightarrow> string list" where
  "edgeRoutesLoop [] seen = []"
| "edgeRoutesLoop (e # es) seen =
     (if e_RouteID e = [] \<or> e_RouteID e \<in> seen then edgeRoutesLoop es seen
      else e_RouteID e # edgeRoutesLoop es (insert (e_RouteID e) seen))"

definition edgeRouteIDs :: "Job \<Rightarrow> string list" where
  "edgeRouteIDs job =
     (case job_Result job of None \<Rightarrow> [] | Some g \<Rightarrow> edgeRoutesLoop (concat (map sg_Edges (tg_Services g))) {})"

definition routesInEdgeOrder :: "string list \<Rightarrow> Route list \<Rightarrow> db_error + Route list" where
  "routesInEdgeOrder ids loaded =
     map_res (\<lambda>i. case index_by rt_ID loaded i of None \<Rightarrow> Inl ErrStaleGraph | Some rt \<Rightarrow> Inr rt) ids"

text \<open>The two reads of \<open>txPublicationRead\<close>, inside the transaction.\<close>

definition LatestSucceededCompileJob :: "string \<Rightarrow> Db \<Rightarrow> Job option" where
  "LatestSucceededCompileJob serviceID db =
     latest (filter (\<lambda>j. job_UserServiceID j = Some serviceID \<and> job_Kind j = JobKindCompileUserService \<and>
                         job_Status j = JobStatusSucceeded) (db_jobs db))"

definition tx_ListRoutesByIDs :: "string list \<Rightarrow> Db \<Rightarrow> Route list" where
  "tx_ListRoutesByIDs ids db = (if ids = [] then [] else filter (\<lambda>r. rt_ID r \<in> set ids) (db_routes db))"

definition PublicationFromLockedDraft :: "BoardingWaitPolicy \<Rightarrow> UserService \<Rightarrow> Db \<Rightarrow> db_error + ServicePublication" where
  "PublicationFromLockedDraft global svc db =
     (let found = LatestSucceededCompileJob (us_ID svc) db in
      case found of
        None \<Rightarrow> Inl ErrStaleGraph
      | Some job \<Rightarrow>
          if \<not> currentCompile svc found global then Inl ErrStaleGraph
          else
            let ids = edgeRouteIDs job in
            bind_res (routesInEdgeOrder ids (tx_ListRoutesByIDs ids db)) (\<lambda>routes.
              Inr \<lparr>pub_UserServiceID = us_ID svc, pub_CompileJobID = job_ID job, pub_Name = us_Name svc,
                   pub_Subtext = us_Subtext svc, pub_Description = us_Description svc, pub_Routes = routes,
                   pub_PublishedAt = 0, pub_AuthorName = []\<rparr>))"

subsection \<open>The table of publications\<close>

text \<open>\<open>JOIN user_services s ON s.id = p.user_service_id JOIN users u ON u.id = s.owner_id\<close>\<close>

definition publicationJoins :: "Db \<Rightarrow> PublicationRow \<Rightarrow> (ServiceRow \<times> User) list" where
  "publicationJoins db p =
     concat (map (\<lambda>s. map (\<lambda>w. (s, ur_user w)) (filter (\<lambda>w. u_ID (ur_user w) = sr_owner_id s) (db_users db)))
       (filter (\<lambda>s. sr_id s = pb_service p) (db_services db)))"

definition scanPublication :: "PublicationRow \<Rightarrow> User \<Rightarrow> ServicePublication" where
  "scanPublication p author =
     \<lparr>pub_UserServiceID = pb_service p, pub_CompileJobID = pb_compile_job p, pub_Name = pb_name p,
      pub_Subtext = pb_subtext p, pub_Description = pb_description p, pub_Routes = pb_routes p,
      pub_PublishedAt = pb_published_at p, pub_AuthorName = u_Name author\<rparr>"

definition publishedRow :: "ServicePublication \<Rightarrow> gotime \<Rightarrow> PublicationRow \<Rightarrow> PublicationRow" where
  "publishedRow pub now p =
     p\<lparr>pb_compile_job := pub_CompileJobID pub, pb_name := pub_Name pub, pb_subtext := pub_Subtext pub,
       pb_description := pub_Description pub, pb_routes := pub_Routes pub, pb_published_at := now\<rparr>"

definition newPublication :: "ServicePublication \<Rightarrow> gotime \<Rightarrow> PublicationRow" where
  "newPublication pub now =
     \<lparr>pb_service = pub_UserServiceID pub, pb_compile_job = pub_CompileJobID pub, pb_name = pub_Name pub,
      pb_subtext = pub_Subtext pub, pb_description = pub_Description pub, pb_routes = pub_Routes pub,
      pb_published_at = now, pb_first_published_at = now\<rparr>"

definition upsertPublication :: "ServicePublication \<Rightarrow> Db \<Rightarrow> db_error + ServicePublication \<times> Db" where
  "upsertPublication pub db =
     (let hit = (\<lambda>p. pb_service p = pub_UserServiceID pub);
          rows = (if list_ex hit (db_publications db) then update_where hit (publishedRow pub (db_now db)) (db_publications db)
                  else db_publications db @ [newPublication pub (db_now db)])
      in bind_res (require (list_ex (\<lambda>s. sr_id s = pub_UserServiceID pub) (db_services db)) (ForeignKeyViolation ''user_service_id'')) (\<lambda>_.
         bind_res (require (list_ex (\<lambda>j. job_ID j = pub_CompileJobID pub) (db_jobs db)) (ForeignKeyViolation ''compile_job_id'')) (\<lambda>_.
           case List.find hit rows of
             None \<Rightarrow> Inl (DbFault ''upsert publication'')
           | Some p \<Rightarrow>
               (case publicationJoins db p of
                  [] \<Rightarrow> Inl (DbFault ''upsert publication'')
                | (_, author) # _ \<Rightarrow> Inr (scanPublication p author, db\<lparr>db_publications := rows\<rparr>)))))"

definition PublishUserService ::
  "string \<Rightarrow> (UserService \<Rightarrow> Db \<Rightarrow> db_error + ServicePublication) \<Rightarrow> ServicePublication repo" where
  "PublishUserService serviceID decision = transact ''PublishUserService'' (\<lambda>db.
     case concat (map (joinRoute db) (filter (\<lambda>s. sr_id s = serviceID) (db_services db))) of
       [] \<Rightarrow> Inl (NoSuchRow ''PublishUserService'' serviceID)
     | svc # _ \<Rightarrow> bind_res (decision svc db) (\<lambda>pub. upsertPublication pub db))"

definition UnpublishUserService :: "string \<Rightarrow> unit repo" where
  "UnpublishUserService serviceID = transact ''UnpublishUserService'' (\<lambda>db.
     if \<not> list_ex (\<lambda>s. sr_id s = serviceID) (db_services db) then Inr ((), db)
     else Inr ((), db\<lparr>db_publications := delete_where (\<lambda>p. pb_service p = serviceID) (db_publications db)\<rparr>))"

definition publicationWhere :: "Db \<Rightarrow> (PublicationRow \<Rightarrow> ServiceRow \<Rightarrow> bool) \<Rightarrow> ServicePublication option" where
  "publicationWhere db p =
     (case concat (map (\<lambda>r. map (\<lambda>(s, author). scanPublication r author) (filter (\<lambda>(s, _). p r s) (publicationJoins db r))) (db_publications db)) of
        [] \<Rightarrow> None
      | pub # _ \<Rightarrow> Some pub)"

definition repo_GetServicePublication :: "string \<Rightarrow> ServicePublication option repo" where
  "repo_GetServicePublication serviceID = select ''GetServicePublication'' (\<lambda>db. publicationWhere db (\<lambda>r _. pb_service r = serviceID))"

definition GetServicePublicationBySlug :: "string \<Rightarrow> ServicePublication option repo" where
  "GetServicePublicationBySlug slug = select ''GetServicePublicationBySlug'' (\<lambda>db. publicationWhere db (\<lambda>_ s. sr_slug s = slug))"

definition GetSucceededCompileJob :: "string \<Rightarrow> Job option repo" where
  "GetSucceededCompileJob i = select ''GetSucceededCompileJob'' (\<lambda>db.
     List.find (\<lambda>j. job_ID j = i \<and> job_Status j = JobStatusSucceeded \<and> job_Kind j = JobKindCompileUserService) (db_jobs db))"

subsection \<open>The index\<close>

definition key_before :: "PublishedIndexKey \<Rightarrow> PublishedIndexKey \<Rightarrow> bool" where
  "key_before a b \<longleftrightarrow> pk_FirstPublishedAt b < pk_FirstPublishedAt a \<or>
     (pk_FirstPublishedAt a = pk_FirstPublishedAt b \<and> pk_Slug a < pk_Slug b)"

definition indexRows :: "Db \<Rightarrow> (PublishedIndexKey \<times> PublishedServiceSummary) list" where
  "indexRows db =
     concat (map (\<lambda>p. map (\<lambda>(s, author).
         (\<lparr>pk_FirstPublishedAt = pb_first_published_at p, pk_Slug = sr_slug s\<rparr>,
          \<lparr>ps_Slug = sr_slug s, ps_Name = pb_name p, ps_Subtext = pb_subtext p, ps_Description = pb_description p,
           ps_AuthorName = u_Name author, ps_PublishedAt = pb_published_at p\<rparr>)) (publicationJoins db p)) (db_publications db))"

text \<open>The loop over the rows read; \<open>last\<close> is the key of the last item kept.\<close>

fun pageLoop ::
  "int \<Rightarrow> PublishedServiceSummary list \<Rightarrow> PublishedIndexKey \<Rightarrow> PublishedIndexKey option
    \<Rightarrow> (PublishedIndexKey \<times> PublishedServiceSummary) list \<Rightarrow> PublishedIndexPage" where
  "pageLoop limit items last_key next_key [] = \<lparr>pg_Items = items, pg_Next = next_key\<rparr>"
| "pageLoop limit items last_key next_key ((k, s) # rows) =
     (if 0 < limit \<and> int (length items) = limit then pageLoop limit items last_key (Some last_key) rows
      else pageLoop limit (items @ [s]) k next_key rows)"

definition rowsAfter :: "PublishedIndexKey option \<Rightarrow> Db \<Rightarrow> (PublishedIndexKey \<times> PublishedServiceSummary) list" where
  "rowsAfter after db =
     SliceStable (\<lambda>a b. key_before (fst a) (fst b))
       (filter (\<lambda>r. case after of None \<Rightarrow> True | Some k \<Rightarrow> key_before k (fst r)) (indexRows db))"

definition ListPublishedServiceSummaries :: "PublishedIndexKey option \<Rightarrow> int \<Rightarrow> PublishedIndexPage repo" where
  "ListPublishedServiceSummaries after limit = select ''ListPublishedServiceSummaries'' (\<lambda>db.
     pageLoop limit [] \<lparr>pk_FirstPublishedAt = 0, pk_Slug = []\<rparr> None
       (if 0 < limit then take (nat (limit + 1)) (rowsAfter after db) else rowsAfter after db))"

subsection \<open>The handlers\<close>

datatype publication_body =
    Answer body
  | StaleBody string
  | SnapshotBody ServicePublication
  | PublicationBody ServicePublication TransitGraph
  | IndexBody "PublishedServiceSummary list"
  | PageBody "PublishedServiceSummary list" "PublishedIndexKey option"

type_synonym answer = "nat \<times> publication_body"

definition answer_of :: "response \<Rightarrow> answer" where
  "answer_of r = (rp_status r, Answer (rp_body r))"

definition loadPublication :: "string \<Rightarrow> Db \<Rightarrow> (response + ServicePublication) \<times> Db" where
  "loadPublication slug db =
     (case GetServicePublicationBySlug slug db of
        (Inl _, db') \<Rightarrow> (Inl writeInternalError, db')
      | (Inr None, db') \<Rightarrow> (Inl (writeError 404 ''service not found''), db')
      | (Inr (Some pub), db') \<Rightarrow> (Inr pub, db'))"

definition loadPinnedGraph :: "ServicePublication \<Rightarrow> Db \<Rightarrow> (response + Job \<times> TransitGraph) \<times> Db" where
  "loadPinnedGraph pub db =
     (case GetSucceededCompileJob (pub_CompileJobID pub) db of
        (Inl _, db') \<Rightarrow> (Inl writeInternalError, db')
      | (Inr None, db') \<Rightarrow> (Inl (writeError 404 ''service not found''), db')
      | (Inr (Some job), db') \<Rightarrow>
          (case job_Result job of None \<Rightarrow> (Inl writeInternalError, db') | Some g \<Rightarrow> (Inr (job, g), db')))"

definition loadPublishedGraph :: "string \<Rightarrow> Db \<Rightarrow> (response + ServicePublication \<times> Job \<times> TransitGraph) \<times> Db" where
  "loadPublishedGraph slug db =
     (case loadPublication slug db of
        (Inl resp, db1) \<Rightarrow> (Inl resp, db1)
      | (Inr pub, db1) \<Rightarrow>
          (case loadPinnedGraph pub db1 of
             (Inl resp, db2) \<Rightarrow> (Inl resp, db2)
           | (Inr (job, g), db2) \<Rightarrow> (Inr (pub, job, g), db2)))"

text \<open>\<open>cached\<close> says whether the request's validator matches the entity tag of the publication.\<close>

definition GetServicePublication :: "(ServicePublication \<Rightarrow> bool) \<Rightarrow> string \<Rightarrow> Db \<Rightarrow> answer \<times> Db" where
  "GetServicePublication cached slug db =
     (case loadPublication slug db of
        (Inl resp, db1) \<Rightarrow> (answer_of resp, db1)
      | (Inr pub, db1) \<Rightarrow>
          if cached pub then ((304, Answer NoBody), db1)
          else (case loadPinnedGraph pub db1 of
                  (Inl resp, db2) \<Rightarrow> (answer_of resp, db2)
                | (Inr (_, g), db2) \<Rightarrow> ((200, PublicationBody pub g), db2)))"

definition withOwnService :: "User option \<Rightarrow> string \<Rightarrow> (UserService \<Rightarrow> Db \<Rightarrow> answer \<times> Db) \<Rightarrow> Db \<Rightarrow> answer \<times> Db" where
  "withOwnService user slug k db =
     (case loadService repoStore slug db of
        (Inl resp, db1) \<Rightarrow> (answer_of resp, db1)
      | (Inr svc, db1) \<Rightarrow>
          (case authorizeService user svc of Some resp \<Rightarrow> (answer_of resp, db1) | None \<Rightarrow> k svc db1))"

definition PublishService :: "BoardingWaitPolicy \<Rightarrow> User option \<Rightarrow> string \<Rightarrow> Db \<Rightarrow> answer \<times> Db" where
  "PublishService boardingWait user slug = withOwnService user slug (\<lambda>svc db.
     case PublishUserService (us_ID svc) (PublicationFromLockedDraft boardingWait) db of
       (Inl ErrStaleGraph, db') \<Rightarrow> ((409, StaleBody ''compiled graph is stale; recompile the service and retry''), db')
     | (Inl _, db') \<Rightarrow> (answer_of writeInternalError, db')
     | (Inr pub, db') \<Rightarrow> ((200, SnapshotBody pub), db'))"

definition UnpublishService :: "User option \<Rightarrow> string \<Rightarrow> Db \<Rightarrow> answer \<times> Db" where
  "UnpublishService user slug = withOwnService user slug (\<lambda>svc db.
     case UnpublishUserService (us_ID svc) db of
       (Inl _, db') \<Rightarrow> (answer_of writeInternalError, db')
     | (Inr _, db') \<Rightarrow> ((204, Answer NoBody), db'))"

abbreviation publishedIndexDefaultLimit :: int where "publishedIndexDefaultLimit \<equiv> 50"
abbreviation publishedIndexMaxLimit :: int where "publishedIndexMaxLimit \<equiv> 100"

text \<open>
  The two query parameters: absent, or present with what \<open>Atoi\<close> and the cursor decoder make of
  them (\<open>None\<close> where they fail; an empty cursor is the first page).
\<close>

datatype cursor_param = EmptyCursor | BadCursor | CursorKey PublishedIndexKey

definition pageLimit :: "int option option \<Rightarrow> response + int" where
  "pageLimit limit =
     (case limit of
        None \<Rightarrow> Inr publishedIndexDefaultLimit
      | Some None \<Rightarrow> Inl (writeError 400 ''limit must be a positive integer'')
      | Some (Some n) \<Rightarrow> if n < 1 then Inl (writeError 400 ''limit must be a positive integer'') else Inr (min n publishedIndexMaxLimit))"

definition pageAfter :: "cursor_param option \<Rightarrow> response + PublishedIndexKey option" where
  "pageAfter cursor =
     (case cursor of
        None \<Rightarrow> Inr None
      | Some EmptyCursor \<Rightarrow> Inr None
      | Some BadCursor \<Rightarrow> Inl (writeError 400 ''malformed cursor'')
      | Some (CursorKey k) \<Rightarrow> Inr (Some k))"

definition PublishedServices :: "int option option \<Rightarrow> cursor_param option \<Rightarrow> Db \<Rightarrow> answer \<times> Db" where
  "PublishedServices limit cursor db =
     (if limit = None \<and> cursor = None then
        (case ListPublishedServiceSummaries None 0 db of
           (Inl _, db') \<Rightarrow> (answer_of writeInternalError, db')
         | (Inr page, db') \<Rightarrow> ((200, IndexBody (pg_Items page)), db'))
      else
        (case bind_res (pageLimit limit) (\<lambda>n. bind_res (pageAfter cursor) (\<lambda>after. Inr (n, after))) of
           Inl resp \<Rightarrow> (answer_of resp, db)
         | Inr (n, after) \<Rightarrow>
             (case ListPublishedServiceSummaries after n db of
                (Inl _, db') \<Rightarrow> (answer_of writeInternalError, db')
              | (Inr page, db') \<Rightarrow> ((200, PageBody (pg_Items page) (pg_Next page)), db'))))"

subsection \<open>The pages of the index\<close>

interpretation index_order: slice_order "\<lambda>a b :: PublishedIndexKey \<times> PublishedServiceSummary. key_before (fst a) (fst b)"
  by unfold_locales (auto simp: key_before_def)

lemma key_before_trans: "key_before a b \<Longrightarrow> key_before b c \<Longrightarrow> key_before a c"
  by (auto simp: key_before_def)

lemma pageLoop_all: "limit \<le> 0 \<Longrightarrow> pageLoop limit items last_key next_key rows = \<lparr>pg_Items = items @ map snd rows, pg_Next = next_key\<rparr>"
  by (induction limit items last_key next_key rows rule: pageLoop.induct) auto

lemma pageLoop_full: "int (length items) = limit \<Longrightarrow> 0 < limit \<Longrightarrow>
    pageLoop limit items last_key next_key rows = \<lparr>pg_Items = items, pg_Next = (if rows = [] then next_key else Some last_key)\<rparr>"
  by (induction limit items last_key next_key rows rule: pageLoop.induct) auto

lemma pageLoop_take:
  assumes "length items < L"
  shows "pageLoop (int L) items last_key None rows =
    \<lparr>pg_Items = items @ map snd (take (L - length items) rows),
     pg_Next = (if L - length items < length rows then Some (fst (rows ! (L - length items - 1))) else None)\<rparr>"
  using assms
proof (induction rows arbitrary: items last_key)
  case (Cons r rows)
  obtain k s where r: "r = (k, s)" by (cases r)
  show ?case
  proof (cases "Suc (length items) = L")
    case True
    then have "L - length items = Suc 0" by simp
    with True show ?thesis by (auto simp: r pageLoop_full)
  next
    case False
    then have "L - length items = Suc (L - Suc (length items))" using Cons.prems by simp
    with False Cons.IH [of "items @ [s]" k] Cons.prems show ?thesis by (auto simp: r nth_Cons' less_Suc_eq_0_disj)
  qed
qed simp

lemma ListPublished_page:
  "0 < L \<Longrightarrow> pageLoop (int L) [] k0 None (take (nat (int L + 1)) R) =
     \<lparr>pg_Items = map snd (take L R), pg_Next = (if L < length R then Some (fst (R ! (L - 1))) else None)\<rparr>"
  by (subst pageLoop_take) (auto simp: nat_add_distrib min_def)

text \<open>The tables have the keys the migrations declare.\<close>

definition publication_keys_ok :: "Db \<Rightarrow> bool" where
  "publication_keys_ok db \<longleftrightarrow> distinct (map pb_service (db_publications db)) \<and> distinct (map sr_id (db_services db)) \<and>
     distinct (map sr_slug (db_services db)) \<and> distinct (map (u_ID \<circ> ur_user) (db_users db))"

lemma filter_unique: "distinct (map key xs) \<Longrightarrow> filter (\<lambda>x. key x = k) xs = [] \<or> (\<exists>x \<in> set xs. filter (\<lambda>x. key x = k) xs = [x] \<and> key x = k)"
  by (induction xs) (auto simp: filter_empty_conv image_iff)

lemma publicationJoins_cases:
  assumes "publication_keys_ok db"
  shows "publicationJoins db p = [] \<or> (\<exists>s \<in> set (db_services db). \<exists>author. publicationJoins db p = [(s, author)] \<and> sr_id s = pb_service p)"
proof -
  from assms have s: "distinct (map sr_id (db_services db))" and w: "distinct (map (u_ID \<circ> ur_user) (db_users db))"
    by (simp_all add: publication_keys_ok_def)
  from filter_unique [OF s, of "pb_service p"] show ?thesis
  proof
    assume "\<exists>x \<in> set (db_services db). filter (\<lambda>x. sr_id x = pb_service p) (db_services db) = [x] \<and> sr_id x = pb_service p"
    then obtain s where "s \<in> set (db_services db)" "filter (\<lambda>x. sr_id x = pb_service p) (db_services db) = [s]" "sr_id s = pb_service p"
      by blast
    with filter_unique [OF w, of "sr_owner_id s"] show ?thesis by (auto simp: publicationJoins_def)
  qed (simp add: publicationJoins_def)
qed

lemma index_slugs_distinct:
  assumes "publication_keys_ok db"
  shows "distinct (map (pk_Slug \<circ> fst) (indexRows db))"
proof -
  let ?slugs = "\<lambda>p. map (\<lambda>x. sr_slug (fst x)) (publicationJoins db p)"
  have "map (pk_Slug \<circ> fst) (indexRows db) = concat (map ?slugs (db_publications db))"
    by (simp add: indexRows_def map_concat comp_def case_prod_beta)
  moreover have "distinct (concat (map ?slugs (db_publications db)))"
  proof (rule distinct_concat_disjoint [where g = pb_service])
    show "\<forall>p \<in> set (db_publications db). distinct (?slugs p)"
      using publicationJoins_cases [OF assms] by (metis distinct.simps distinct_singleton list.simps(8,9))
    show "distinct (map pb_service (db_publications db))" using assms by (simp add: publication_keys_ok_def)
    fix p q :: PublicationRow assume "pb_service p \<noteq> pb_service q"
    then show "set (?slugs p) \<inter> set (?slugs q) = {}"
      using publicationJoins_cases [OF assms, of p] publicationJoins_cases [OF assms, of q] assms
      by (auto simp: publication_keys_ok_def distinct_map dest: inj_onD)
  qed
  ultimately show ?thesis by simp
qed

lemma key_before_irrefl [simp]: "\<not> key_before a a"
  by (simp add: key_before_def)

lemma key_before_asym: "key_before a b \<Longrightarrow> \<not> key_before b a"
  by (auto simp: key_before_def)

lemma key_before_total: "pk_Slug a \<noteq> pk_Slug b \<Longrightarrow> \<not> key_before b a \<Longrightarrow> key_before a b"
  by (auto simp: key_before_def)

lemma strictly_sorted:
  "sorted_wrt (\<lambda>a b. \<not> key_before (fst b) (fst a)) rows \<Longrightarrow> distinct (map (pk_Slug \<circ> fst) rows) \<Longrightarrow>
     sorted_wrt (\<lambda>a b. key_before (fst a) (fst b)) rows"
proof (induction rows)
  case (Cons a rows)
  then have "key_before (fst a) (fst b)" if "b \<in> set rows" for b
    using that by (intro key_before_total) (auto simp: image_iff)
  with Cons show ?case by simp
qed simp

lemma rowsAfter_set: "r \<in> set (rowsAfter after db) \<longleftrightarrow>
    r \<in> set (indexRows db) \<and> (case after of None \<Rightarrow> True | Some k \<Rightarrow> key_before k (fst r))"
  by (auto simp: rowsAfter_def)

lemma rowsAfter_sorted:
  assumes "publication_keys_ok db"
  shows "sorted_wrt (\<lambda>a b. key_before (fst a) (fst b)) (rowsAfter after db)" and "distinct (map (pk_Slug \<circ> fst) (rowsAfter after db))"
proof -
  let ?rows = "filter (\<lambda>r. case after of None \<Rightarrow> True | Some k \<Rightarrow> key_before k (fst r)) (indexRows db)"
  have "mset (map (pk_Slug \<circ> fst) (rowsAfter after db)) = mset (map (pk_Slug \<circ> fst) ?rows)" by (simp add: rowsAfter_def)
  then show d: "distinct (map (pk_Slug \<circ> fst) (rowsAfter after db))"
    using index_slugs_distinct [OF assms] by (metis distinct_map_filter mset_eq_imp_distinct_iff)
  show "sorted_wrt (\<lambda>a b. key_before (fst a) (fst b)) (rowsAfter after db)"
    using index_order.sorted_SliceStable d unfolding rowsAfter_def by (rule strictly_sorted)
qed

lemma index_slug: "(k, s) \<in> set (indexRows db) \<Longrightarrow> ps_Slug s = pk_Slug k"
  by (auto simp: indexRows_def)

text \<open>A client that follows the cursor, one request per database of the list, until no cursor comes back.\<close>

definition cursor_of :: "PublishedIndexKey option \<Rightarrow> cursor_param option" where
  "cursor_of after = map_option CursorKey after"

fun walk :: "int \<Rightarrow> PublishedIndexKey option \<Rightarrow> Db list \<Rightarrow> PublishedServiceSummary list \<times> bool" where
  "walk limit after [] = ([], False)"
| "walk limit after (db # dbs) =
     (case fst (PublishedServices (Some (Some limit)) (cursor_of after) db) of
        (_, PageBody items (Some k)) \<Rightarrow> (case walk limit (Some k) dbs of (rest, ended) \<Rightarrow> (items @ rest, ended))
      | (_, PageBody items None) \<Rightarrow> (items, True)
      | _ \<Rightarrow> ([], False))"

lemma page_answer:
  assumes "0 < limit" and "PublishedServices (Some (Some limit)) (cursor_of after) db = ((status, PageBody items next_key), db')"
  defines "L \<equiv> nat (min limit publishedIndexMaxLimit)"
  shows "items = map snd (take L (rowsAfter after db))" and "0 < L"
    and "next_key = (if L < length (rowsAfter after db) then Some (fst (rowsAfter after db ! (L - 1))) else None)"
proof -
  have L: "int L = min limit publishedIndexMaxLimit" "0 < L" using assms(1) by (simp_all add: L_def)
  have after: "pageAfter (cursor_of after) = Inr after" by (cases after) (simp_all add: cursor_of_def pageAfter_def)
  have rows: "rowsAfter after (d\<lparr>db_outages := o'\<rparr>) = rowsAfter after d" for d :: Db and o'
    by (simp add: rowsAfter_def indexRows_def publicationJoins_def)
  from assms(1,2) after obtain page where page: "ListPublishedServiceSummaries after (int L) db = (Inr page, db')"
    "items = pg_Items page" "next_key = pg_Next page"
    by (auto simp: PublishedServices_def pageLimit_def L(1) answer_of_def split: prod.splits sum.splits)
  from page(1) [unfolded ListPublishedServiceSummaries_def]
  have "page = pageLoop (int L) [] \<lparr>pk_FirstPublishedAt = 0, pk_Slug = []\<rparr> None (take (nat (int L + 1)) (rowsAfter after db))"
    by (cases rule: select_cases) (use L(2) rows in auto)
  then have "page = \<lparr>pg_Items = map snd (take L (rowsAfter after db)),
      pg_Next = (if L < length (rowsAfter after db) then Some (fst (rowsAfter after db ! (L - 1))) else None)\<rparr>"
    using ListPublished_page [OF L(2)] by simp
  with page(2,3) L(2) show "items = map snd (take L (rowsAfter after db))" "0 < L"
    "next_key = (if L < length (rowsAfter after db) then Some (fst (rowsAfter after db ! (L - 1))) else None)" by simp_all
qed

text \<open>One page and what follows it, for a row that is published throughout.\<close>

lemma count_one: "distinct (map f xs) \<Longrightarrow> count_list (map f xs) y = (if y \<in> f ` set xs then 1 else 0)"
  by (induction xs) auto

lemma slug_determines_key:
  assumes "publication_keys_ok db" and "r \<in> set (indexRows db)" and "q \<in> set (indexRows db)" and "pk_Slug (fst r) = pk_Slug (fst q)"
  shows "r = q"
  using index_slugs_distinct [OF assms(1)] assms(2-4) unfolding distinct_map by (metis comp_apply inj_onD)

lemma page_count:
  fixes after :: "PublishedIndexKey option"
  assumes ok: "publication_keys_ok db" and k: "k \<in> fst ` set (indexRows db)"
  defines "R \<equiv> rowsAfter after db"
  shows "count_list (map ps_Slug (map snd (take L R))) (pk_Slug k) = (if k \<in> fst ` set (take L R) then 1 else 0)"
proof -
  have sub: "set (take L R) \<subseteq> set (indexRows db)" using set_take_subset [of L R] by (auto simp: R_def rowsAfter_set)
  have "ps_Slug b = pk_Slug a" if "(a, b) \<in> set (take L R)" for a b using sub that index_slug by blast
  then have "map ps_Slug (map snd (take L R)) = map (pk_Slug \<circ> fst) (take L R)" by auto
  moreover have "distinct (map (pk_Slug \<circ> fst) (take L R))"
    using rowsAfter_sorted(2) [OF ok] unfolding R_def by (metis distinct_take take_map)
  moreover have "pk_Slug k \<in> (pk_Slug \<circ> fst) ` set (take L R) \<longleftrightarrow> k \<in> fst ` set (take L R)"
  proof
    assume "pk_Slug k \<in> (pk_Slug \<circ> fst) ` set (take L R)"
    then obtain r where r: "r \<in> set (take L R)" "pk_Slug (fst r) = pk_Slug k" by auto
    moreover from k obtain q where "q \<in> set (indexRows db)" "fst q = k" by auto
    ultimately show "k \<in> fst ` set (take L R)" using slug_determines_key [OF ok, of r q] sub by auto
  qed auto
  ultimately show ?thesis by (simp only: count_one)
qed

lemma cut_before:
  assumes "sorted_wrt (\<lambda>a b. key_before (fst a) (fst b)) R" and "0 < L" and "L < length R" and "r \<in> set R"
  shows "r \<in> set (take L R) \<longleftrightarrow> \<not> key_before (fst (R ! (L - 1))) (fst r)"
proof -
  from assms(4) obtain i where i: "i < length R" "r = R ! i" by (auto simp: in_set_conv_nth)
  show ?thesis
  proof (cases "i < L")
    case True
    then have "r \<in> set (take L R)" using i by (auto simp: in_set_conv_nth)
    moreover have "\<not> key_before (fst (R ! (L - 1))) (fst r)"
      using True assms(1-3) i by (cases "i = L - 1") (auto simp: sorted_wrt_iff_nth_less dest: key_before_asym)
    ultimately show ?thesis by simp
  next
    case False
    then have "key_before (fst (R ! (L - 1))) (fst r)" using assms(1-3) i by (auto simp: sorted_wrt_iff_nth_less)
    moreover have "r \<notin> set (take L R)"
    proof
      assume "r \<in> set (take L R)"
      then obtain j where j: "j < L" "r = R ! j" by (auto simp: in_set_conv_nth)
      from False j(1) have "j < i" by simp
      with assms(1) i(1) have "key_before (fst (R ! j)) (fst (R ! i))" unfolding sorted_wrt_iff_nth_less by blast
      with i(2) j(2) show False by simp
    qed
    ultimately show ?thesis by simp
  qed
qed

lemma walk_counts:
  assumes "0 < limit" and "\<forall>db \<in> set dbs. publication_keys_ok db \<and> k \<in> fst ` set (indexRows db)"
    and "walk limit after dbs = (items, True)"
  shows "count_list (map ps_Slug items) (pk_Slug k) = (if (case after of None \<Rightarrow> True | Some a \<Rightarrow> key_before a k) then 1 else 0)"
  using assms(2,3)
proof (induction dbs arbitrary: after items)
  case (Cons db dbs)
  let ?R = "rowsAfter after db" and ?L = "nat (min limit publishedIndexMaxLimit)"
  let ?past = "case after of None \<Rightarrow> True | Some a \<Rightarrow> key_before a k"
  from Cons.prems(1) have ok: "publication_keys_ok db" and k: "k \<in> fst ` set (indexRows db)" by simp_all
  from Cons.prems(2) obtain status page next_key db' where
    answer: "PublishedServices (Some (Some limit)) (cursor_of after) db = ((status, PageBody page next_key), db')"
    by (auto split: prod.splits publication_body.splits option.splits) (metis prod.exhaust_sel)+
  note page = page_answer [OF assms(1) answer]
  note sorted = rowsAfter_sorted(1) [OF ok, of after]
  have mem: "k \<in> fst ` set ?R \<longleftrightarrow> ?past" using k by (auto simp: rowsAfter_set split: option.splits)
  have count: "count_list (map ps_Slug page) (pk_Slug k) = (if k \<in> fst ` set (take ?L ?R) then 1 else 0)"
    unfolding page(1) by (rule page_count [OF ok k])
  show ?case
  proof (cases "?L < length ?R")
    case False
    then have "items = page" "take ?L ?R = ?R" using Cons.prems(2) answer page(3) by simp_all
    with count mem show ?thesis by simp
  next
    case True
    define a where "a = fst (?R ! (?L - 1))"
    from True page(3) have "next_key = Some a" by (simp add: a_def)
    with Cons.prems(2) answer obtain rest where rest: "walk limit (Some a) dbs = (rest, True)" "items = page @ rest"
      by (auto split: prod.splits)
    have "?R ! (?L - 1) \<in> set ?R" using True by simp
    then have a: "case after of None \<Rightarrow> True | Some b \<Rightarrow> key_before b a" unfolding rowsAfter_set a_def by simp
    have cut: "k \<in> fst ` set (take ?L ?R) \<longleftrightarrow> ?past \<and> \<not> key_before a k"
    proof -
      have "r \<in> set (take ?L ?R) \<longleftrightarrow> \<not> key_before a (fst r)" if "r \<in> set ?R" for r
        using cut_before [OF sorted page(2) True that] by (simp only: a_def)
      then show ?thesis unfolding mem [symmetric] using in_set_takeD [of _ ?L ?R] by blast
    qed
    have "count_list (map ps_Slug rest) (pk_Slug k) = (if key_before a k then 1 else 0)"
      using Cons.IH [OF _ rest(1)] Cons.prems(1) by simp
    moreover have "?past" if "key_before a k" using a that by (auto split: option.splits intro: key_before_trans)
    ultimately show ?thesis using count cut by (auto simp: rest(2))
  qed
qed simp

lemma walk_rows:
  assumes "0 < limit" and "walk limit after dbs = (items, ended)"
  shows "set items \<subseteq> (\<Union>db \<in> set dbs. snd ` set (indexRows db))"
  using assms(2)
proof (induction dbs arbitrary: after items)
  case (Cons db dbs)
  show ?case
  proof (cases "PublishedServices (Some (Some limit)) (cursor_of after) db")
    case (Pair reply db')
    have rows: "set page \<subseteq> snd ` set (indexRows db)" if "reply = (status, PageBody page next_key)" for status page next_key
    proof -
      have "page = map snd (take (nat (min limit publishedIndexMaxLimit)) (rowsAfter after db))"
        by (rule page_answer(1) [OF assms(1)]) (simp add: Pair that)
      then show ?thesis by (auto simp: rowsAfter_set dest!: in_set_takeD)
    qed
    with Cons show ?thesis by (force simp: Pair split: prod.splits publication_body.splits option.splits)
  qed
qed simp

lemma sorted_wrt_unique:
  assumes "sorted_wrt P xs" and "sorted_wrt P ys" and "mset xs = mset ys" and "\<And>a b. P a b \<Longrightarrow> \<not> P b a"
  shows "xs = ys"
  using assms(1-3)
proof (induction xs arbitrary: ys)
  case (Cons x xs)
  then obtain y ys' where ys: "ys = y # ys'" by (cases ys) auto
  have sets: "insert x (set xs) = insert y (set ys')" using Cons.prems(3) ys by (metis list.simps(15) mset_eq_setD)
  have "x = y"
  proof (rule ccontr)
    assume "x \<noteq> y"
    with sets have "x \<in> set ys'" "y \<in> set xs" by auto
    with Cons.prems ys assms(4) show False by auto
  qed
  with Cons ys show ?case by auto
qed simp

lemma rowsAfter_next:
  assumes ok: "publication_keys_ok db" and L: "0 < L" "L < length (rowsAfter after db)"
  shows "rowsAfter (Some (fst (rowsAfter after db ! (L - 1)))) db = drop L (rowsAfter after db)"
proof -
  let ?R = "rowsAfter after db" and ?P = "\<lambda>a b :: PublishedIndexKey \<times> PublishedServiceSummary. key_before (fst a) (fst b)"
  let ?a = "fst (?R ! (L - 1))"
  note sorted = rowsAfter_sorted(1) [OF ok]
  have "sorted_wrt ?P (take L ?R @ drop L ?R)" using sorted [of after] by simp
  then have d: "sorted_wrt ?P (drop L ?R)" unfolding sorted_wrt_append by blast
  have distinct: "distinct (rowsAfter b db)" for b using rowsAfter_sorted(2) [OF ok] by (simp add: distinct_map)
  have "?R ! (L - 1) \<in> set ?R" using L by simp
  then have a: "case after of None \<Rightarrow> True | Some b \<Rightarrow> key_before b ?a" unfolding rowsAfter_set by simp
  have "set (rowsAfter (Some ?a) db) = set (drop L ?R)"
  proof (rule set_eqI)
    fix r
    have "r \<in> set (drop L ?R) \<longleftrightarrow> r \<in> set ?R \<and> r \<notin> set (take L ?R)"
      using distinct [of after] by (metis UnE append_take_drop_id disjoint_iff distinct_append in_set_takeD set_append in_set_dropD)
    also have "\<dots> \<longleftrightarrow> r \<in> set ?R \<and> key_before ?a (fst r)" using cut_before [OF sorted L] by blast
    also have "\<dots> \<longleftrightarrow> r \<in> set (rowsAfter (Some ?a) db)"
      using a by (auto simp: rowsAfter_set split: option.splits intro: key_before_trans)
    finally show "r \<in> set (rowsAfter (Some ?a) db) \<longleftrightarrow> r \<in> set (drop L ?R)" by simp
  qed
  then have "mset (rowsAfter (Some ?a) db) = mset (drop L ?R)" using distinct by (intro set_eq_iff_mset_eq_distinct [THEN iffD1]) auto
  with sorted [of "Some ?a"] d show ?thesis by (rule sorted_wrt_unique) (rule key_before_asym)
qed

lemma page_calm:
  assumes "0 < limit" and "db_outages db = []"
  defines "L \<equiv> nat (min limit publishedIndexMaxLimit)"
  shows "PublishedServices (Some (Some limit)) (cursor_of after) db =
    ((200, PageBody (map snd (take L (rowsAfter after db)))
       (if L < length (rowsAfter after db) then Some (fst (rowsAfter after db ! (L - 1))) else None)), db)"
proof -
  have L: "min limit publishedIndexMaxLimit = int L" "0 < L" using assms(1) by (simp_all add: L_def)
  have "pageAfter (cursor_of after) = Inr after" by (cases after) (simp_all add: cursor_of_def pageAfter_def)
  with assms(1,2) show ?thesis
    by (simp add: PublishedServices_def pageLimit_def L(1) ListPublishedServiceSummaries_def select_calm ListPublished_page [OF L(2)] L(2))
qed

lemma walk_still:
  assumes "0 < limit" and "db_outages db = []" and "publication_keys_ok db" and "length (rowsAfter after db) < n"
  shows "walk limit after (replicate n db) = (map snd (rowsAfter after db), True)"
  using assms(4)
proof (induction n arbitrary: after)
  case (Suc n)
  let ?R = "rowsAfter after db" and ?L = "nat (min limit publishedIndexMaxLimit)"
  have L: "0 < ?L" using assms(1) by simp
  show ?case
  proof (cases "?L < length ?R")
    case True
    note next_rows = rowsAfter_next [OF assms(3) L True]
    have "length (drop ?L ?R) < n" using Suc.prems L True unfolding length_drop by linarith
    then have "walk limit (Some (fst (?R ! (?L - 1)))) (replicate n db) = (map snd (drop ?L ?R), True)"
      using Suc.IH by (simp only: next_rows [symmetric])
    with True show ?thesis
      by (simp only: replicate.simps walk.simps page_calm [OF assms(1,2)] fst_conv if_True prod.case publication_body.case option.case
          map_append [symmetric] append_take_drop_id)
  next
    case False
    then have "take ?L ?R = ?R" by simp
    then show ?thesis
      by (simp only: replicate.simps walk.simps page_calm [OF assms(1,2)] fst_conv if_not_P [OF False] prod.case publication_body.case option.case)
  qed
qed simp

lemma index_calm: "db_outages db = [] \<Longrightarrow> PublishedServices None None db = ((200, IndexBody (map snd (rowsAfter None db))), db)"
  by (simp add: PublishedServices_def ListPublishedServiceSummaries_def select_calm pageLoop_all)

text \<open>
  C0: A client that pages through the index of published services by following the cursor, while
  services are published, republished and withdrawn between its requests, sees every service that
  stays published under one first-publication time exactly once, and nothing that was never
  published. With no change in between the pages end and together are the whole unpaged index.
\<close>

theorem published_index_pages:
  assumes "0 < limit" and "\<forall>db \<in> set dbs. publication_keys_ok db \<and> k \<in> fst ` set (indexRows db)"
    and "walk limit None dbs = (items, True)"
  shows "count_list (map ps_Slug items) (pk_Slug k) = 1 \<and>
    set items \<subseteq> (\<Union>db \<in> set dbs. snd ` set (indexRows db)) \<and>
    (\<forall>db \<in> set dbs. db_outages db = [] \<longrightarrow>
       (\<exists>whole. walk limit None (replicate (Suc (length (indexRows db))) db) = (whole, True) \<and>
          fst (PublishedServices None None db) = (200, IndexBody whole)))"
proof (intro conjI ballI impI)
  show "count_list (map ps_Slug items) (pk_Slug k) = 1" using walk_counts [OF assms] by simp
  show "set items \<subseteq> (\<Union>db \<in> set dbs. snd ` set (indexRows db))" by (rule walk_rows [OF assms(1,3)])
  fix db assume db: "db \<in> set dbs" "db_outages db = []"
  have "length (rowsAfter None db) < Suc (length (indexRows db))" by (simp add: rowsAfter_def)
  from walk_still [OF assms(1) db(2) _ this] assms(2) db
  show "\<exists>whole. walk limit None (replicate (Suc (length (indexRows db))) db) = (whole, True) \<and>
      fst (PublishedServices None None db) = (200, IndexBody whole)" by (simp add: index_calm)
qed

subsection \<open>A concrete walk\<close>

definition samplePublication :: "string \<Rightarrow> gotime \<Rightarrow> PublicationRow" where
  "samplePublication service t = \<lparr>pb_service = service, pb_compile_job = ''j'', pb_name = service, pb_subtext = [], pb_description = [],
     pb_routes = [], pb_published_at = t, pb_first_published_at = t\<rparr>"

definition publishedDb :: "PublicationRow list \<Rightarrow> Db" where
  "publishedDb pubs = (sampleDb [])\<lparr>db_services := map (\<lambda>i. (sampleServiceRow ''ann'')\<lparr>sr_id := i, sr_slug := i\<rparr>) [''red'', ''blue'', ''green''],
     db_publications := pubs\<rparr>"

text \<open>Between the two requests \<open>red\<close> is withdrawn and \<open>green\<close> is published; \<open>blue\<close> stays.\<close>

definition sampleWalk :: "Db list" where
  "sampleWalk = [publishedDb [samplePublication ''red'' 2, samplePublication ''blue'' 1],
     publishedDb [samplePublication ''blue'' 1, samplePublication ''green'' 3]]"

lemmas walk_sample_defs = publishedDb_def samplePublication_def sampleDb_def sampleServiceRow_def sampleUser_def
  indexRows_def publicationJoins_def

lemma published_index_pages_witness:
  "count_list (map ps_Slug (fst (walk 1 None sampleWalk))) ''blue'' = 1 \<and> map ps_Slug (fst (walk 1 None sampleWalk)) = [''red'', ''blue'']"
proof -
  let ?k = "\<lparr>pk_FirstPublishedAt = 1, pk_Slug = ''blue''\<rparr>"
  have run: "walk 1 None sampleWalk = (map (\<lambda>(s, t). \<lparr>ps_Slug = s, ps_Name = s, ps_Subtext = [], ps_Description = [],
      ps_AuthorName = ''ann'', ps_PublishedAt = t\<rparr>) [(''red'', 2), (''blue'', 1)], True)"
    by (simp add: sampleWalk_def PublishedServices_def pageLimit_def pageAfter_def cursor_of_def ListPublishedServiceSummaries_def
        select_def transact_def rowsAfter_def key_before_def walk_sample_defs)
  have keys: "map (map fst \<circ> indexRows) sampleWalk = [[\<lparr>pk_FirstPublishedAt = 2, pk_Slug = ''red''\<rparr>, ?k], [?k, \<lparr>pk_FirstPublishedAt = 3, pk_Slug = ''green''\<rparr>]]"
    by (simp add: sampleWalk_def walk_sample_defs)
  have "?k \<in> set (map fst (indexRows db))" if "db \<in> set sampleWalk" for db
    using that keys by (auto simp: sampleWalk_def simp del: set_map)
  moreover have "\<forall>db \<in> set sampleWalk. publication_keys_ok db"
    by (simp add: sampleWalk_def publication_keys_ok_def publishedDb_def samplePublication_def sampleDb_def sampleUser_def)
  moreover note run
  ultimately show ?thesis using published_index_pages [of 1 sampleWalk ?k] by auto
qed

end
