(* ===== verification/Spec2Isabelle.thy ===== *)
theory Spec2Isabelle
  imports Handover_Races Seed_Reconcile Publication
begin

text \<open>
  A verification development for the transit scenario API (Go, module \<open>sparks-effect-api\<close>).

  \<^bold>\<open>Parts and how they interact.\<close> Users author services (a vehicle, a route, stops, frequency
  windows) and scenarios (sets of services with declared interchanges); curated scenarios come
  from seed data. Two compilers turn a scenario into a transit graph: \<open>Compile\<close>
  (\<open>internal/transit/compile.go\<close>) prices the hops of seeded services from a table of segment times,
  \<open>CompileServices\<close> (\<open>compile_physics.go\<close>, \<open>compile_scenario.go\<close>) drives a vehicle along a route
  geometry with \<open>internal/physics\<close>; stops of different services are then merged into nodes
  (\<open>cluster.go\<close>, \<open>interchange.go\<close>). The HTTP handlers (\<open>internal/handler\<close>) validate and snap what
  users send and store it through a Postgres repository (\<open>internal/persistence/postgres\<close>); a
  service can change hands through an offer its owner makes and the recipient accepts, or
  through an administrator. A compile runs as a job: a handler stores it and hands it to a runner,
  whose goroutine compiles and records the graph; the owner of a service can publish its latest
  current graph, which readers then page through.

  \<^bold>\<open>The theories.\<close>
  \<^item> \<open>Prelude\<close>: results with errors (\<open>bind_res\<close>, \<open>map_res\<close>), indexing maps, the stable slice sort.
  \<^item> \<open>Transit_Types\<close>: the structs of \<open>internal/transit\<close> and \<open>contract/transit\<close> as records.
  \<^item> \<open>Boarding_Wait\<close>: \<open>boarding_wait.go\<close>; parsing, precedence and wait seconds.
  \<^item> \<open>Segment_Graph\<close>: the hop search of \<open>compile.go\<close>, shown to return fewest-hop walks and to fail
    exactly when there is none.
  \<^item> \<open>Projection\<close>, \<open>Speed_Limit\<close>, \<open>Run_Time\<close>: \<open>internal/physics\<close>; snapping is nearest, spans cover
    the line, run times respect caps, acceleration and braking.
  \<^item> \<open>Route_Line\<close>, \<open>Threading\<close>, \<open>Seeded_Compile\<close>: \<open>Compile\<close> with its mutable chainage cache, which
    is shown to be transparent, and the functional content and totality of the compile.
  \<^item> \<open>Slug\<close>, \<open>Compilable\<close>: both slugify functions, slug minting, stop identities and their
    disjointness across services.
  \<^item> \<open>Union_Find\<close>, \<open>Cluster\<close>: the proximity clusters and the declared interchanges folded into them
    with a union-find, refined to connectivity.
  \<^item> \<open>Physics_Compile\<close>: the physics compiler, its edges, closure and totality.
  \<^item> \<open>User_Service\<close>: \<open>fault/validation.go\<close>, the validation of services and scenarios, snapping.
  \<^item> \<open>Auth\<close>: access rules, middlewares, password policy, identifiers.
  \<^item> \<open>Database\<close>: the tables as lists of rows and what a transaction does to them.
  \<^item> \<open>Service_Store\<close>, \<open>Service_Handlers\<close>: repository and handlers of authored services; the locale
    \<open>service_store\<close> states what the handlers need of a store.
  \<^item> \<open>User_Scenarios\<close>: repository and handlers of user scenarios; the locale \<open>scenario_store\<close>.
  \<^item> \<open>Handover\<close>: the offers, the transfer, the step relation \<open>db_step\<close> and the invariant of every
    reachable database, by interpretation of both locales on the repository.
  \<^item> \<open>Handover_Races\<close>: two interleavings the handlers do not guard against.
  \<^item> \<open>Seed_Store\<close>, \<open>Seed_Reconcile\<close>: the repository of the seeded domain, writing the embedded seed and
    reconciling a stored one; the locale \<open>seed_table\<close> is what the reconciling loop needs of a table.
  \<^item> \<open>Job_Store\<close>, \<open>Compile_Jobs\<close>: the table of compile jobs, the staleness rules, what a job compiles
    and how its run ends; a fresh graph is not stale.
  \<^item> \<open>Compile_Handlers\<close>: the runner with its goroutines and the handlers that submit and poll compiles.
  \<^item> \<open>Publication\<close>: publishing a service, the public read and the paged index.

  \<^bold>\<open>Conventions.\<close> Strings are lists of bytes (\<open>char list\<close>), \<open>float64\<close> is \<open>real\<close> (rounding is not
  modelled; the values of \<open>SpeedLimit\<close> that may be infinite or NaN have a type of their own), \<open>int\<close>
  is \<open>int\<close> with the 32-bit columns of the database checked, times are nanoseconds. The Unicode
  tables, random bytes, session lookup and hashing are parameters. Errors are values; messages are
  kept as formats with arguments where a client reads them. Loops are recursion: the slug loops
  end after 100 attempts as in the code, the suffix search of stop identities and the union-find
  path are shown to end. A repository method is one atomic step that may fail for an outside
  reason; reads that issue two statements are one step.

  \<^bold>\<open>Not modelled.\<close> Server wiring (\<open>internal/server\<close>, \<open>cmd\<close>), configuration, logging, metrics and
  error reporting, HTTP caching, compression and rate limiting, the AMQP publisher, migrations as
  programs, test databases: they are I/O or glue around library calls. bcrypt, SHA-256, JSON and
  base64 encoding are library code. Account and token handlers, the authoring handlers of the seeded
  domain, isochrones and routing jobs, prerendered isochrones and retention are not modelled.
\<close>

end
